(* ===== verification/Mpc_Prelude.thy ===== *)
theory Mpc_Prelude
  imports Main "HOL-Library.Word"
begin

text \<open>
  What every component shares: the machine integers, the outcome of a Rust call (a value,
  an error, or a panic), the combinators that stand for \<open>?\<close>, \<open>.context\<close>, \<open>.map_err\<close>,
  \<open>.ok_or\<close> and \<open>.unwrap\<close>, and the operations of the Rust standard library on strings and
  slices that the server uses. A Rust \<open>String\<close> is a sequence of bytes that is valid UTF-8; it is
  modelled by a HOL \<open>string\<close>, one \<open>char\<close> for one byte.
\<close>

section \<open>Machine integers and hint collections\<close>

type_synonym u8 = "8 word"
type_synonym u16 = "16 word"
type_synonym u32 = "32 word"
type_synonym i32 = "32 word"
type_synonym usize = "64 word"

named_theorems outcome_simps \<open>evaluation of the outcome combinators\<close>
named_theorems string_simps \<open>evaluation of the byte-string operations\<close>

section \<open>Outcomes: values, errors, panics\<close>

text \<open>
  \<open>Ok\<close> and \<open>Err\<close> are the constructors of Rust's \<open>Result\<close>; \<open>Panic\<close> is a call that does
  not return because it panicked (a slice out of range, an \<open>unwrap\<close> of \<open>None\<close>).
\<close>

datatype ('e, 'a) outcome = Ok 'a | Err 'e | Panic

text \<open>The errors of \<open>anyhow\<close> are represented by their outermost context message.\<close>

type_synonym anyhow = string
type_synonym 'a result = "(anyhow, 'a) outcome"

primrec and_then :: "('e, 'a) outcome \<Rightarrow> ('a \<Rightarrow> ('e, 'b) outcome) \<Rightarrow> ('e, 'b) outcome" where
  "and_then (Ok x) f = f x"
| "and_then (Err e) f = Err e"
| "and_then Panic f = Panic"

primrec map_err :: "('e \<Rightarrow> 'f) \<Rightarrow> ('e, 'a) outcome \<Rightarrow> ('f, 'a) outcome" where
  "map_err g (Ok x) = Ok x"
| "map_err g (Err e) = Err (g e)"
| "map_err g Panic = Panic"

definition in_context :: "string \<Rightarrow> ('e, 'a) outcome \<Rightarrow> 'a result" where
  "in_context msg = map_err (\<lambda>_. msg)"

primrec ok_or :: "'e \<Rightarrow> 'a option \<Rightarrow> ('e, 'a) outcome" where
  "ok_or e None = Err e"
| "ok_or e (Some x) = Ok x"

primrec unwrap :: "'a option \<Rightarrow> ('e, 'a) outcome" where
  "unwrap None = Panic"
| "unwrap (Some x) = Ok x"

primrec is_ok :: "('e, 'a) outcome \<Rightarrow> bool" where
  "is_ok (Ok x) = True"
| "is_ok (Err e) = False"
| "is_ok Panic = False"

primrec is_panic :: "('e, 'a) outcome \<Rightarrow> bool" where
  "is_panic (Ok x) = False"
| "is_panic (Err e) = False"
| "is_panic Panic = True"

text \<open>
  \<open>let x = r?;\<close> inside a handler with state \<open>c\<close>: an error or a panic ends the handler with the
  state reached so far.
\<close>

primrec attempt ::
  "('e, 'a) outcome \<Rightarrow> 'c \<Rightarrow> ('a \<Rightarrow> 'c \<times> ('e, 'b) outcome) \<Rightarrow> 'c \<times> ('e, 'b) outcome" where
  "attempt (Ok x) c f = f x"
| "attempt (Err e) c f = (c, Err e)"
| "attempt Panic c f = (c, Panic)"

lemma in_context_simps [simp]:
  "in_context m (Ok x) = Ok x" "in_context m (Err e) = Err m" "in_context m Panic = Panic"
  by (simp_all add: in_context_def)

lemma in_context_eq_Ok [simp]: "in_context m r = Ok x \<longleftrightarrow> r = Ok x"
  by (cases r) simp_all

lemma map_err_eq_Ok [simp]: "map_err g r = Ok x \<longleftrightarrow> r = Ok x"
  by (cases r) simp_all

lemma map_err_eq_Panic [simp]: "map_err g r = Panic \<longleftrightarrow> r = Panic"
  by (cases r) simp_all

lemma in_context_eq_Panic [simp]: "in_context m r = Panic \<longleftrightarrow> r = Panic"
  by (cases r) simp_all

lemma ok_or_eq_Ok [simp]: "ok_or e x = Ok v \<longleftrightarrow> x = Some v"
  by (cases x) simp_all

lemma ok_or_not_Panic [simp]: "ok_or e x \<noteq> Panic"
  by (cases x) simp_all

lemma unwrap_eq_Ok [simp]: "unwrap x = Ok v \<longleftrightarrow> x = Some v"
  by (cases x) simp_all

lemma unwrap_eq_Panic [simp]: "unwrap x = Panic \<longleftrightarrow> x = None"
  by (cases x) simp_all

lemma unwrap_not_Err [simp]: "unwrap x \<noteq> Err e"
  by (cases x) simp_all

lemma and_then_eq_Ok [outcome_simps]: "and_then r f = Ok y \<longleftrightarrow> (\<exists>x. r = Ok x \<and> f x = Ok y)"
  by (cases r) simp_all

lemma and_then_eq_Panic [outcome_simps]:
  "and_then r f = Panic \<longleftrightarrow> r = Panic \<or> (\<exists>x. r = Ok x \<and> f x = Panic)"
  by (cases r) simp_all

lemma is_ok_iff: "is_ok r \<longleftrightarrow> (\<exists>x. r = Ok x)"
  by (cases r) simp_all

lemma attempt_eq_Ok [outcome_simps]:
  "attempt r c f = (c', Ok y) \<longleftrightarrow> (\<exists>x. r = Ok x \<and> f x = (c', Ok y))"
  by (cases r) simp_all

lemma attempt_eq_Panic [outcome_simps]:
  "snd (attempt r c f) = Panic \<longleftrightarrow> r = Panic \<or> (\<exists>x. r = Ok x \<and> snd (f x) = Panic)"
  by (cases r) simp_all

section \<open>Strings as byte sequences\<close>

definition continuation_byte :: "char \<Rightarrow> bool" where
  "continuation_byte c \<longleftrightarrow> 128 \<le> (of_char c :: nat) \<and> (of_char c :: nat) < 192"

text \<open>\<open>str::is_char_boundary\<close>: an index at either end, or one whose byte starts a code point.\<close>

definition is_char_boundary :: "string \<Rightarrow> nat \<Rightarrow> bool" where
  "is_char_boundary s i \<longleftrightarrow>
     i = 0 \<or> i = length s \<or> (i < length s \<and> \<not> continuation_byte (s ! i))"

text \<open>\<open>&s[i..j]\<close> panics out of range or inside a code point; \<open>None\<close> is the panic.\<close>

definition str_range :: "string \<Rightarrow> nat \<Rightarrow> nat \<Rightarrow> string option" where
  "str_range s i j =
     (if i \<le> j \<and> j \<le> length s \<and> is_char_boundary s i \<and> is_char_boundary s j
      then Some (take (j - i) (drop i s)) else None)"

text \<open>\<open>s.split(c)\<close> for a one-byte separator: always at least one piece.\<close>

fun split_on :: "char \<Rightarrow> string \<Rightarrow> string list" where
  "split_on c [] = [[]]"
| "split_on c (x # xs) =
     (if x = c then [] # split_on c xs
      else (case split_on c xs of [] \<Rightarrow> [[x]] | p # ps \<Rightarrow> (x # p) # ps))"

fun starts_with :: "string \<Rightarrow> string \<Rightarrow> bool" where
  "starts_with s [] = True"
| "starts_with [] (p # ps) = False"
| "starts_with (x # xs) (p # ps) = (x = p \<and> starts_with xs ps)"

text \<open>\<open>s.contains(p)\<close>: the pattern occurs at some position.\<close>

fun str_contains :: "string \<Rightarrow> string \<Rightarrow> bool" where
  "str_contains [] p = (p = [])"
| "str_contains (x # xs) p = (starts_with (x # xs) p \<or> str_contains xs p)"

text \<open>
  \<open>std::str::from_utf8\<close>: well-formed UTF-8 byte sequences (no overlong forms, no surrogates,
  nothing above U+10FFFF).
\<close>

definition byte_in :: "char \<Rightarrow> nat \<Rightarrow> nat \<Rightarrow> bool" where
  "byte_in c lo hi \<longleftrightarrow> lo \<le> (of_char c :: nat) \<and> (of_char c :: nat) \<le> hi"

fun valid_utf8 :: "string \<Rightarrow> bool" where
  "valid_utf8 [] = True"
| "valid_utf8 (a # bs) =
     (if byte_in a 0 127 then valid_utf8 bs
      else (case bs of [] \<Rightarrow> False | b # cs \<Rightarrow>
        if byte_in a 194 223 then byte_in b 128 191 \<and> valid_utf8 cs
        else (case cs of [] \<Rightarrow> False | c # ds \<Rightarrow>
          if byte_in a 224 239
          then (if byte_in a 224 224 then byte_in b 160 191
                else if byte_in a 237 237 then byte_in b 128 159 else byte_in b 128 191) \<and>
               byte_in c 128 191 \<and> valid_utf8 ds
          else (case ds of [] \<Rightarrow> False | d # es \<Rightarrow>
            byte_in a 240 244 \<and>
            (if byte_in a 240 240 then byte_in b 144 191
             else if byte_in a 244 244 then byte_in b 128 143 else byte_in b 128 191) \<and>
            byte_in c 128 191 \<and> byte_in d 128 191 \<and> valid_utf8 es))))"

definition from_utf8 :: "string \<Rightarrow> string option" where
  "from_utf8 bytes = (if valid_utf8 bytes then Some bytes else None)"

lemma from_utf8_Some [simp]: "from_utf8 b = Some s \<longleftrightarrow> valid_utf8 b \<and> s = b"
  by (auto simp: from_utf8_def)

lemma valid_utf8_ascii: "(\<forall>c \<in> set s. (of_char c :: nat) < 128) \<Longrightarrow> valid_utf8 s"
  by (induction s) (auto simp: byte_in_def)

lemma starts_with_iff: "starts_with s p \<longleftrightarrow> (\<exists>r. s = p @ r)"
  by (induction s p rule: starts_with.induct) auto

lemma str_contains_iff: "str_contains s p \<longleftrightarrow> (\<exists>l r. s = l @ p @ r)"
proof (induction s p rule: str_contains.induct)
  case (1 p)
  then show ?case by auto
next
  case (2 x xs p)
  then show ?case
    by (auto simp: starts_with_iff Cons_eq_append_conv)
qed

lemma str_range_length: "str_range s i j = Some r \<Longrightarrow> length r = j - i"
  by (auto simp: str_range_def split: if_splits)

lemma str_range_ascii:
  assumes "i \<le> j" "j \<le> length s" "\<forall>c \<in> set s. (of_char c :: nat) < 128"
  shows "str_range s i j = Some (take (j - i) (drop i s))"
proof -
  have "is_char_boundary s k" if "k \<le> length s" for k
  proof (cases "k = length s")
    case True
    then show ?thesis by (simp add: is_char_boundary_def)
  next
    case False
    with that assms(3) have "(of_char (s ! k) :: nat) < 128" by simp
    with False that show ?thesis by (simp add: is_char_boundary_def continuation_byte_def)
  qed
  with assms show ?thesis by (simp add: str_range_def)
qed

lemma split_on_not_Nil [simp]: "split_on c s \<noteq> []"
  by (induction s) (auto split: list.splits)

lemma split_on_no_sep: "c \<notin> set s \<Longrightarrow> split_on c s = [s]"
  by (induction s) auto

lemma split_on_append_sep: "split_on c (a @ c # b) = split_on c a @ split_on c b"
  by (induction a) (auto split: list.splits)

lemma length_split_on: "length (split_on c s) = Suc (count_list s c)"
  by (induction s) (auto split: list.splits)

lemma length_split_on_ge2: "2 \<le> length (split_on c s) \<longleftrightarrow> c \<in> set s"
  by (auto simp: length_split_on Suc_le_eq count_list_0_iff intro: ccontr)

lemma split_on_pieces: "p \<in> set (split_on c s) \<Longrightarrow> c \<notin> set p"
  by (induction s arbitrary: p) (auto split: list.splits if_splits)

section \<open>Positions in slices\<close>

text \<open>\<open>xs.iter().position(|y| y == x)\<close>: the index of the first equal element.\<close>

fun position :: "'a \<Rightarrow> 'a list \<Rightarrow> nat option" where
  "position x [] = None"
| "position x (y # ys) = (if y = x then Some 0 else map_option Suc (position x ys))"

lemma position_Some_iff:
  "position x ys = Some i \<longleftrightarrow> i < length ys \<and> ys ! i = x \<and> (\<forall>j < i. ys ! j \<noteq> x)"
proof (induction ys arbitrary: i)
  case Nil
  then show ?case by simp
next
  case (Cons y ys)
  show ?case
  proof (cases i)
    case 0
    then show ?thesis by auto
  next
    case (Suc k)
    with Cons.IH [of k] show ?thesis
      by (auto simp: less_Suc_eq_0_disj)
  qed
qed

lemma position_None_iff [simp]: "position x ys = None \<longleftrightarrow> x \<notin> set ys"
  by (induction ys) auto

lemma position_distinct: "distinct ys \<Longrightarrow> i < length ys \<Longrightarrow> position (ys ! i) ys = Some i"
  by (auto simp: position_Some_iff nth_eq_iff_index_eq)

lemma position_inj: "position x ys = Some i \<Longrightarrow> position y ys = Some i \<Longrightarrow> x = y"
  by (auto simp: position_Some_iff)

end
