(* ===== verification/Pb.thy ===== *)
theory Pb
  imports Mpc_Prelude
begin

text \<open>
  The protobuf messages of \<open>proto/mpc.proto\<close> and \<open>proto/types.proto\<close> as \<open>src/src/pb/mpc.rs\<close> and
  \<open>src/src/pb/types.rs\<close> have them, the numeric codes of the two enumerations a
  \<open>CheckResultResponse\<close> carries, and the routing of the generated gRPC service.
\<close>

section \<open>Requests and responses of the service\<close>

record keygen_request =
  kr_request_id :: string
  kr_participant_public_keys :: "string list"
  kr_threshold :: u32

record keygen_response =
  kresp_request_id :: string

record sign_request =
  sr_request_id :: string
  sr_participant_public_keys :: "string list"
  sr_public_key :: string
  sr_hash :: string

record sign_response =
  sresp_request_id :: string

record check_result_request =
  cq_request_id :: string

text \<open>\<open>request_type\<close> and \<open>request_status\<close> are \<open>i32\<close> fields of the generated struct.\<close>

record check_result_response =
  cr_request_id :: string
  cr_result :: string
  cr_request_type :: i32
  cr_request_status :: i32

datatype request_type = UnknownType | Keygen_type | Sign_type

datatype request_status = UnknownStatus | Received | Processing | Done | Error

text \<open>The casts \<open>as i32\<close>.\<close>

fun request_type_i32 :: "request_type \<Rightarrow> i32" where
  "request_type_i32 UnknownType = 0"
| "request_type_i32 Keygen_type = 1"
| "request_type_i32 Sign_type = 2"

fun request_status_i32 :: "request_status \<Rightarrow> i32" where
  "request_status_i32 UnknownStatus = 0"
| "request_status_i32 Received = 1"
| "request_status_i32 Processing = 2"
| "request_status_i32 Done = 3"
| "request_status_i32 Error = 4"

fun request_type_as_str_name :: "request_type \<Rightarrow> string" where
  "request_type_as_str_name UnknownType = ''UNKNOWN_TYPE''"
| "request_type_as_str_name Keygen_type = ''KEYGEN''"
| "request_type_as_str_name Sign_type = ''SIGN''"

fun request_status_as_str_name :: "request_status \<Rightarrow> string" where
  "request_status_as_str_name UnknownStatus = ''UNKNOWN_STATUS''"
| "request_status_as_str_name Received = ''RECEIVED''"
| "request_status_as_str_name Processing = ''PROCESSING''"
| "request_status_as_str_name Done = ''DONE''"
| "request_status_as_str_name Error = ''ERROR''"

text \<open>The struct literal that the server and the coordinator both build.\<close>

definition mk_response ::
  "string \<Rightarrow> string \<Rightarrow> request_type \<Rightarrow> request_status \<Rightarrow> check_result_response" where
  "mk_response rid res ty st =
     \<lparr>cr_request_id = rid, cr_result = res,
      cr_request_type = request_type_i32 ty, cr_request_status = request_status_i32 st\<rparr>"

lemma mk_response_simps [simp]:
  "cr_request_id (mk_response rid res ty st) = rid"
  "cr_result (mk_response rid res ty st) = res"
  "cr_request_type (mk_response rid res ty st) = request_type_i32 ty"
  "cr_request_status (mk_response rid res ty st) = request_status_i32 st"
  by (simp_all add: mk_response_def)

lemma request_status_i32_inj [simp]: "request_status_i32 a = request_status_i32 b \<longleftrightarrow> a = b"
  by (cases a; cases b) simp_all

lemma request_type_i32_inj [simp]: "request_type_i32 a = request_type_i32 b \<longleftrightarrow> a = b"
  by (cases a; cases b) simp_all

lemma mk_response_inj [simp]:
  "mk_response rid res ty st = mk_response rid' res' ty' st' \<longleftrightarrow>
     rid = rid' \<and> res = res' \<and> ty = ty' \<and> st = st'"
  by (auto simp: mk_response_def)

text \<open>
  The statuses in the order of their codes, which is the order in which a request passes through
  them, except that \<open>Done\<close> and \<open>Error\<close> are both ends.
\<close>

instantiation request_status :: linorder
begin

definition less_eq_request_status :: "request_status \<Rightarrow> request_status \<Rightarrow> bool" where
  "less_eq_request_status a b \<longleftrightarrow> request_status_i32 a \<le> request_status_i32 b"

definition less_request_status :: "request_status \<Rightarrow> request_status \<Rightarrow> bool" where
  "less_request_status a b \<longleftrightarrow> request_status_i32 a < request_status_i32 b"

instance
proof
  fix x y z :: request_status
  show "x < y \<longleftrightarrow> x \<le> y \<and> \<not> y \<le> x"
    unfolding less_eq_request_status_def less_request_status_def by (rule less_le_not_le)
  show "x \<le> x" "x \<le> y \<or> y \<le> x"
    by (auto simp: less_eq_request_status_def)
  show "x \<le> z" if "x \<le> y" "y \<le> z"
    using that by (simp add: less_eq_request_status_def)
  show "x = y" if "x \<le> y" "y \<le> x"
  proof -
    from that have "request_status_i32 x = request_status_i32 y"
      by (simp add: less_eq_request_status_def)
    then show ?thesis by simp
  qed
qed

end

lemma request_status_less_eq_simps [simp]:
  "Received \<le> Processing" "Received \<le> Done" "Received \<le> Error" "Processing \<le> Error"
  "Processing \<le> Done" "\<not> Done \<le> Processing" "\<not> Done \<le> Received" "\<not> Processing \<le> Received"
  "\<not> Error \<le> Processing" "\<not> Error \<le> Received"
  by (simp_all add: less_eq_request_status_def word_le_nat_alt)

section \<open>Messages between servers\<close>

record wire_message =
  w_room :: string
  w_payload :: string
  w_sender_public_key :: string
  w_signature :: string

record core_message =
  c_room :: string
  c_message :: string

datatype request = Keygen_request keygen_request | Sign_request sign_request

section \<open>The generated gRPC client and service\<close>

datatype grpc_method = Keygen_method | Sign_method | CheckResult_method

text \<open>The path each method of the generated \<open>MpcClient\<close> calls.\<close>

fun client_path :: "grpc_method \<Rightarrow> string" where
  "client_path Keygen_method = ''/mpc.Mpc/Keygen''"
| "client_path Sign_method = ''/mpc.Mpc/Sign''"
| "client_path CheckResult_method = ''/mpc.Mpc/CheckResult''"

text \<open>
  The \<open>match req.uri().path()\<close> of \<open>MpcServer::call\<close>: the unary service that runs, or the
  response with \<open>grpc-status: 12\<close> (unimplemented).
\<close>

datatype grpc_route = Unary grpc_method | Grpc_status nat

definition server_call :: "string \<Rightarrow> grpc_route" where
  "server_call path =
     (if path = ''/mpc.Mpc/Keygen'' then Unary Keygen_method
      else if path = ''/mpc.Mpc/Sign'' then Unary Sign_method
      else if path = ''/mpc.Mpc/CheckResult'' then Unary CheckResult_method
      else Grpc_status 12)"

lemma server_call_routes: "server_call path = Unary m \<longleftrightarrow> path = client_path m"
  by (cases m) (auto simp: server_call_def)

end
