(* ===== verification/Rooms.thy ===== *)
theory Rooms
  imports Mpc_Prelude
begin

text \<open>
  \<open>src/src/utils/mod.rs\<close>: a room identifier is the request id and the group id joined by
  \<open>'@'\<close>; the coordinator and the encrypter recover the group id from it.
\<close>

definition ROOM_SEPARATOR :: char where
  "ROOM_SEPARATOR = CHR ''@''"

text \<open>\<open>extract_group_id\<close>: the second piece of the split, or the error of fewer than two.\<close>

definition extract_group_id :: "string \<Rightarrow> string result" where
  "extract_group_id room =
     (let split = split_on ROOM_SEPARATOR room
      in if length split < 2 then Err ''Cannot parse the group id.'' else Ok (split ! 1))"

definition make_room_id :: "string \<Rightarrow> string \<Rightarrow> string" where
  "make_room_id request_id group_id = request_id @ ROOM_SEPARATOR # group_id"

lemma extract_group_id_not_Panic [simp]: "extract_group_id room \<noteq> Panic"
  by (simp add: extract_group_id_def Let_def)

lemma extract_group_id_error_iff:
  "extract_group_id room = Err e \<longleftrightarrow>
     CHR ''@'' \<notin> set room \<and> e = ''Cannot parse the group id.''"
  using length_split_on_ge2 [of "CHR ''@''" room]
  by (auto simp: extract_group_id_def Let_def ROOM_SEPARATOR_def)

lemma extract_group_id_no_sep:
  assumes "extract_group_id room = Ok g"
  shows "CHR ''@'' \<notin> set g"
proof -
  from assms have "g = split_on (CHR ''@'') room ! 1" "1 < length (split_on (CHR ''@'') room)"
    by (auto simp: extract_group_id_def Let_def ROOM_SEPARATOR_def split: if_splits)
  then have "g \<in> set (split_on (CHR ''@'') room)"
    by (metis nth_mem)
  then show ?thesis
    by (rule split_on_pieces)
qed

lemma extract_make_room_id:
  "extract_group_id (make_room_id r g) =
     Ok (if CHR ''@'' \<in> set r then split_on (CHR ''@'') r ! 1 else hd (split_on (CHR ''@'') g))"
proof (cases "CHR ''@'' \<in> set r")
  case True
  then have len: "2 \<le> length (split_on (CHR ''@'') r)"
    by (simp add: length_split_on_ge2)
  with True show ?thesis
    by (simp add: extract_group_id_def make_room_id_def ROOM_SEPARATOR_def Let_def
        split_on_append_sep nth_append)
next
  case False
  then show ?thesis
    by (cases "split_on (CHR ''@'') g")
      (simp_all add: extract_group_id_def make_room_id_def ROOM_SEPARATOR_def Let_def
        split_on_append_sep split_on_no_sep)
qed

lemma extract_make_plain [simp]:
  "CHR ''@'' \<notin> set r \<Longrightarrow> CHR ''@'' \<notin> set g \<Longrightarrow> extract_group_id (make_room_id r g) = Ok g"
  by (simp add: extract_make_room_id split_on_no_sep)

end
