(* ===== verification/Externals.thy ===== *)
theory Externals
  imports Mpc_Prelude
begin

text \<open>
  The code that is not in this repository, as records of functions that the definitions take as
  arguments: JSON codecs (\<open>serde_json\<close>), the embedded database (\<open>sled\<close>), and cryptography
  (\<open>hex\<close>, \<open>base64\<close>, \<open>sha2\<close>, \<open>libsecp256k1\<close>, \<open>ecies\<close>). A fallible foreign call returns an
  \<open>option\<close>, \<open>None\<close> for its error, whose content the server never inspects. What the server relies
  on is stated as the predicates \<open>codec_ok\<close>, \<open>sled_laws\<close> and \<open>crypto_laws\<close>; theorems that need
  one of them name it as a hypothesis.
\<close>

section \<open>JSON codecs\<close>

record 'a codec =
  ser :: "'a \<Rightarrow> string option"
  de :: "string \<Rightarrow> 'a option"

text \<open>What is written is read back as the same thing.\<close>

definition codec_ok :: "'a codec \<Rightarrow> bool" where
  "codec_ok c \<longleftrightarrow> (\<forall>x s. ser c x = Some s \<longrightarrow> de c s = Some x)"

lemma codec_okD: "codec_ok c \<Longrightarrow> ser c x = Some s \<Longrightarrow> de c s = Some x"
  by (simp add: codec_ok_def)

section \<open>The embedded database\<close>

text \<open>
  \<open>get\<close>, \<open>contains_key\<close>, \<open>insert\<close> and \<open>compare_and_swap\<close> of a \<open>sled::Db\<close>. The outer \<open>None\<close> is an
  I/O error. \<open>sled_cas\<close> returns \<open>Some True\<close> when the swap happened and \<open>Some False\<close> for a
  \<open>CompareAndSwapError\<close>. All handles of one database share it, so the state is one value of
  type \<open>'db\<close>.
\<close>

record 'db sled =
  sled_get :: "'db \<Rightarrow> string \<Rightarrow> string option option"
  sled_contains_key :: "'db \<Rightarrow> string \<Rightarrow> bool option"
  sled_insert :: "'db \<Rightarrow> string \<Rightarrow> string \<Rightarrow> 'db \<times> unit option"
  sled_cas :: "'db \<Rightarrow> string \<Rightarrow> string option \<Rightarrow> string option \<Rightarrow> 'db \<times> bool option"

text \<open>
  The documented behaviour, for the map \<open>view d\<close> that a database state \<open>d\<close> stands for:
  an operation that reports success has read or written exactly that map, and a
  \<open>compare_and_swap\<close> is atomic: one that reports an I/O error has happened or has not.
\<close>

definition sled_laws :: "'db sled \<Rightarrow> ('db \<Rightarrow> string \<Rightarrow> string option) \<Rightarrow> bool" where
  "sled_laws sl view \<longleftrightarrow>
     (\<forall>d k v. sled_get sl d k = Some v \<longrightarrow> v = view d k) \<and>
     (\<forall>d k b. sled_contains_key sl d k = Some b \<longrightarrow> b = (view d k \<noteq> None)) \<and>
     (\<forall>d k v d'. sled_insert sl d k v = (d', Some ()) \<longrightarrow> view d' = (view d)(k \<mapsto> v)) \<and>
     (\<forall>d k ov nv d'. sled_cas sl d k ov nv = (d', Some True) \<longrightarrow>
        view d k = ov \<and> view d' = (view d)(k := nv)) \<and>
     (\<forall>d k ov nv d'. sled_cas sl d k ov nv = (d', Some False) \<longrightarrow>
        view d k \<noteq> ov \<and> view d' = view d) \<and>
     (\<forall>d k ov nv d'. sled_cas sl d k ov nv = (d', None) \<longrightarrow>
        view d' = view d \<or> (view d k = ov \<and> view d' = (view d)(k := nv)))"

lemma sled_laws_get: "sled_laws sl view \<Longrightarrow> sled_get sl d k = Some v \<Longrightarrow> v = view d k"
  by (auto simp: sled_laws_def)

lemma sled_laws_contains:
  assumes "sled_laws sl view" and "sled_contains_key sl d k = Some b"
  shows "b \<longleftrightarrow> view d k \<noteq> None"
proof -
  from assms(1) have "\<forall>d k b. sled_contains_key sl d k = Some b \<longrightarrow> b = (view d k \<noteq> None)"
    unfolding sled_laws_def by (elim conjE)
  with assms(2) show ?thesis by blast
qed

lemma sled_laws_insert:
  assumes "sled_laws sl view" and "sled_insert sl d k v = (d', Some ())"
  shows "view d' = (view d)(k \<mapsto> v)"
proof -
  from assms(1) have "\<forall>d k v d'. sled_insert sl d k v = (d', Some ()) \<longrightarrow> view d' = (view d)(k \<mapsto> v)"
    unfolding sled_laws_def by (elim conjE)
  with assms(2) show ?thesis by blast
qed

lemma sled_laws_cas_any:
  assumes "sled_laws sl view" and "sled_cas sl d k ov nv = (d', r)"
  shows "case r of
      None \<Rightarrow> view d' = view d \<or> (view d k = ov \<and> view d' = (view d)(k := nv))
    | Some True \<Rightarrow> view d k = ov \<and> view d' = (view d)(k := nv)
    | Some False \<Rightarrow> view d k \<noteq> ov \<and> view d' = view d"
proof -
  note laws = assms(1) [unfolded sled_laws_def]
  show ?thesis
  proof (cases r)
    case None
    with laws assms(2) show ?thesis by simp
  next
    case (Some b)
    with laws assms(2) show ?thesis by (cases b) simp_all
  qed
qed

lemma sled_laws_cas:
  assumes "sled_laws sl view" and "sled_cas sl d k None (Some v) = (d', Some b)"
  shows "view d' = (if view d k = None then (view d)(k \<mapsto> v) else view d)"
  using sled_laws_cas_any [OF assms] by (cases b) auto

text \<open>A swap against \<open>None\<close> never overwrites, whatever it reports.\<close>

lemma sled_laws_cas_mono:
  assumes "sled_laws sl view" and "view d k = Some v"
  shows "view (fst (sled_cas sl d k' None nv)) k = Some v"
proof -
  obtain d' r where c: "sled_cas sl d k' None nv = (d', r)"
    by (cases "sled_cas sl d k' None nv")
  from sled_laws_cas_any [OF assms(1) c]
  have "view d' = view d \<or> (view d k' = None \<and> view d' = (view d)(k' := nv))"
    by (auto split: option.splits bool.splits)
  with c assms(2) show ?thesis by auto
qed

section \<open>Cryptography\<close>

text \<open>
  \<open>'sk\<close>, \<open>'pk\<close> and \<open>'sg\<close> are the secret keys, public keys and signatures of
  \<open>libsecp256k1\<close>. \<open>ecies_encrypt\<close> draws a fresh ephemeral key in reality; each statement below is
  about one call of it, whose result the function gives.
\<close>

record ('sk, 'pk, 'sg) crypto =
  hex_encode :: "string \<Rightarrow> string"
  hex_decode :: "string \<Rightarrow> string option"
  base64_encode :: "string \<Rightarrow> string"
  base64_decode :: "string \<Rightarrow> string option"
  sha256 :: "string \<Rightarrow> string"
  pk_parse_slice :: "string \<Rightarrow> 'pk option"
  pk_serialize :: "'pk \<Rightarrow> string"
  pk_serialize_compressed :: "'pk \<Rightarrow> string"
  pk_from_secret_key :: "'sk \<Rightarrow> 'pk"
  sk_parse_slice :: "string \<Rightarrow> 'sk option"
  sk_serialize :: "'sk \<Rightarrow> string"
  ecies_encrypt :: "string \<Rightarrow> string \<Rightarrow> string option"
  ecies_decrypt :: "string \<Rightarrow> string \<Rightarrow> string option"
  sig_parse_slice :: "string \<Rightarrow> 'sg option"
  sig_serialize :: "'sg \<Rightarrow> string"
  secp_sign :: "string \<Rightarrow> 'sk \<Rightarrow> 'sg"
  secp_verify :: "string \<Rightarrow> 'sg \<Rightarrow> 'pk \<Rightarrow> bool"

text \<open>
  The documented behaviour: the encodings and serialisations can be read back, a ciphertext made
  with a public key opens with its secret key, a signature made with a secret key verifies under
  its public key.
\<close>

definition crypto_laws :: "('sk, 'pk, 'sg) crypto \<Rightarrow> bool" where
  "crypto_laws c \<longleftrightarrow>
     (\<forall>b. hex_decode c (hex_encode c b) = Some b) \<and>
     (\<forall>b. base64_decode c (base64_encode c b) = Some b) \<and>
     (\<forall>pk. pk_parse_slice c (pk_serialize_compressed c pk) = Some pk) \<and>
     (\<forall>sg. sig_parse_slice c (sig_serialize c sg) = Some sg) \<and>
     (\<forall>sk m ct. ecies_encrypt c (pk_serialize c (pk_from_secret_key c sk)) m = Some ct \<longrightarrow>
        ecies_decrypt c (sk_serialize c sk) ct = Some m) \<and>
     (\<forall>h sk. secp_verify c h (secp_sign c h sk) (pk_from_secret_key c sk))"

lemma crypto_lawsD:
  assumes "crypto_laws c"
  shows "hex_decode c (hex_encode c b) = Some b"
    and "base64_decode c (base64_encode c b) = Some b"
    and "pk_parse_slice c (pk_serialize_compressed c pk) = Some pk"
    and "sig_parse_slice c (sig_serialize c sg) = Some sg"
    and "ecies_encrypt c (pk_serialize c (pk_from_secret_key c sk)) m = Some ct \<Longrightarrow>
      ecies_decrypt c (sk_serialize c sk) ct = Some m"
    and "secp_verify c h (secp_sign c h sk) (pk_from_secret_key c sk)"
  using assms by (simp_all add: crypto_laws_def)

text \<open>The identity a server is known by: the hex text of its compressed public key.\<close>

definition identity_of :: "('sk, 'pk, 'sg) crypto \<Rightarrow> 'sk \<Rightarrow> string" where
  "identity_of c sk = hex_encode c (pk_serialize_compressed c (pk_from_secret_key c sk))"

end
