(* ===== verification/Group.thy ===== *)
theory Group
  imports Externals
begin

text \<open>
  \<open>src/src/core/group.rs\<close> and \<open>src/src/crypto/eciesext.rs\<close>: a group of public keys, the index of
  a key in it, and encryption to a member.
\<close>

section \<open>Encryption under a key\<close>

text \<open>
  \<open>SafeDecryptExt\<close> and \<open>SafeEncryptExt\<close>. The wiping of the serialised key's local copy has no
  effect on the result.
\<close>

definition sk_decrypt :: "('sk, 'pk, 'sg) crypto \<Rightarrow> 'sk \<Rightarrow> string \<Rightarrow> string option" where
  "sk_decrypt C sk msg = (let b = sk_serialize C sk in ecies_decrypt C b msg)"

definition pk_encrypt :: "('sk, 'pk, 'sg) crypto \<Rightarrow> 'pk \<Rightarrow> string \<Rightarrow> string option" where
  "pk_encrypt C pk msg = (let b = pk_serialize C pk in ecies_encrypt C b msg)"

lemma sk_decrypt_pk_encrypt:
  "crypto_laws C \<Longrightarrow> pk_encrypt C (pk_from_secret_key C sk) m = Some ct \<Longrightarrow>
   sk_decrypt C sk ct = Some m"
  by (simp add: sk_decrypt_def pk_encrypt_def crypto_lawsD(5))

section \<open>Groups\<close>

record group =
  pg_group_id :: string
  pg_t :: u16
  pg_public_keys :: "string list"
  pg_own_public_key :: string

text \<open>
  The loop of \<open>PublicKeyGroup::new\<close>: \<open>group_id.push_str(&pk[2..10])\<close> for each key. \<open>None\<close> is the
  panic of a slice, here and in \<open>group_new\<close>.
\<close>

fun push_prefixes :: "string list \<Rightarrow> string \<Rightarrow> string option" where
  "push_prefixes [] group_id = Some group_id"
| "push_prefixes (pk # pks) group_id =
     (case str_range pk 2 10 of
        None \<Rightarrow> None
      | Some r \<Rightarrow> push_prefixes pks (group_id @ r))"

definition group_new :: "string list \<Rightarrow> u16 \<Rightarrow> string \<Rightarrow> group option" where
  "group_new public_keys t own_public_key =
     (case push_prefixes public_keys [] of
        None \<Rightarrow> None
      | Some group_id \<Rightarrow>
          Some \<lparr>pg_group_id = group_id, pg_t = t, pg_public_keys = public_keys,
                pg_own_public_key = own_public_key\<rparr>)"

definition get_group_id :: "group \<Rightarrow> string" where
  "get_group_id g = pg_group_id g"

text \<open>The errors of \<open>thiserror\<close> and their texts.\<close>

datatype group_error = InvalidIndex

fun group_error_text :: "group_error \<Rightarrow> string" where
  "group_error_text InvalidIndex = ''The index is not in the range [1, n].''"

definition get_public_key :: "group \<Rightarrow> nat \<Rightarrow> string result" where
  "get_public_key g index =
     (if index = 0 \<or> index > length (pg_public_keys g)
      then Err (group_error_text InvalidIndex)
      else Ok (pg_public_keys g ! (index - 1)))"

definition get_index :: "group \<Rightarrow> string \<Rightarrow> nat option" where
  "get_index g public_key = map_option (\<lambda>i. i + 1) (position public_key (pg_public_keys g))"

text \<open>
  The trait \<open>MpcGroup\<close>. \<open>as u16\<close> truncates; \<open>None\<close> is the panic of \<open>get_i\<close>'s \<open>unwrap\<close>.
\<close>

definition valid_msg :: "group \<Rightarrow> string \<Rightarrow> 'm \<Rightarrow> bool" where
  "valid_msg g sender_public_key msg = (get_index g sender_public_key \<noteq> None)"

definition get_i :: "group \<Rightarrow> u16 option" where
  "get_i g = map_option (\<lambda>i. word_of_nat i) (get_index g (pg_own_public_key g))"

definition get_t :: "group \<Rightarrow> u16" where
  "get_t g = pg_t g"

definition get_n :: "group \<Rightarrow> u16" where
  "get_n g = word_of_nat (length (pg_public_keys g))"

definition group_encrypt ::
  "('sk, 'pk, 'sg) crypto \<Rightarrow> group \<Rightarrow> nat \<Rightarrow> string \<Rightarrow> string result" where
  "group_encrypt C g index plaintext =
     and_then (get_public_key g index) (\<lambda>pk.
     and_then (ok_or ''hex decode'' (hex_decode C pk)) (\<lambda>bytes.
     and_then (ok_or ''parse public key'' (pk_parse_slice C bytes)) (\<lambda>key.
     and_then (ok_or ''encrypt'' (pk_encrypt C key plaintext)) (\<lambda>ciphertext.
     Ok (base64_encode C ciphertext)))))"

definition group_decrypt :: "('sk, 'pk, 'sg) crypto \<Rightarrow> 'sk \<Rightarrow> string \<Rightarrow> string result" where
  "group_decrypt C sk ciphertext =
     and_then (ok_or ''decode base64 ciphertext'' (base64_decode C ciphertext)) (\<lambda>bytes.
     and_then (ok_or ''decrypt'' (sk_decrypt C sk bytes)) (\<lambda>plaintext.
     ok_or ''decode utf8'' (from_utf8 plaintext)))"

section \<open>Construction and the group id\<close>

lemma push_prefixes_Some_iff:
  "push_prefixes pks acc = Some gid \<longleftrightarrow>
     (\<forall>pk \<in> set pks. str_range pk 2 10 \<noteq> None) \<and>
     gid = acc @ concat (map (\<lambda>pk. the (str_range pk 2 10)) pks)"
  by (induction pks arbitrary: acc) (auto split: option.splits)

lemma push_prefixes_None_iff:
  "push_prefixes pks acc = None \<longleftrightarrow> (\<exists>pk \<in> set pks. str_range pk 2 10 = None)"
  by (induction pks arbitrary: acc) (auto split: option.splits)

lemma group_new_Some_iff:
  "group_new pks t own = Some g \<longleftrightarrow>
     (\<forall>pk \<in> set pks. str_range pk 2 10 \<noteq> None) \<and>
     g = \<lparr>pg_group_id = concat (map (\<lambda>pk. the (str_range pk 2 10)) pks), pg_t = t,
          pg_public_keys = pks, pg_own_public_key = own\<rparr>"
  by (auto simp: group_new_def push_prefixes_Some_iff split: option.splits
      dest: push_prefixes_None_iff [THEN iffD1])

lemma group_new_None_iff:
  "group_new pks t own = None \<longleftrightarrow> (\<exists>pk \<in> set pks. str_range pk 2 10 = None)"
  by (auto simp: group_new_def push_prefixes_None_iff split: option.splits
      dest: push_prefixes_Some_iff [THEN iffD1])

lemma group_new_fields:
  assumes "group_new pks t own = Some g"
  shows "pg_public_keys g = pks" "pg_t g = t" "pg_own_public_key g = own"
  using assms by (auto simp: group_new_Some_iff)

lemma length_prefixes:
  "(\<forall>pk \<in> set pks. str_range pk 2 10 \<noteq> None) \<Longrightarrow>
   length (concat (map (\<lambda>pk. the (str_range pk 2 10)) pks)) = 8 * length pks"
proof (induction pks)
  case Nil
  then show ?case by simp
next
  case (Cons pk pks)
  then obtain y where y: "str_range pk 2 10 = Some y" by auto
  then have "length y = 8" by (simp add: str_range_length)
  with Cons y show ?case by simp
qed

lemma group_id_length:
  "group_new pks t own = Some g \<Longrightarrow> length (pg_group_id g) = 8 * length pks"
  by (auto simp: group_new_Some_iff length_prefixes simp del: length_concat)

section \<open>Indices\<close>

lemma get_index_Some_iff:
  "get_index g pk = Some i \<longleftrightarrow>
     0 < i \<and> i \<le> length (pg_public_keys g) \<and> pg_public_keys g ! (i - 1) = pk \<and>
     (\<forall>j < i - 1. pg_public_keys g ! j \<noteq> pk)"
  by (cases i) (auto simp: get_index_def position_Some_iff)

lemma get_index_None_iff [simp]: "get_index g pk = None \<longleftrightarrow> pk \<notin> set (pg_public_keys g)"
  by (simp add: get_index_def)

lemma get_index_ex_iff [simp]: "(\<exists>i. get_index g pk = Some i) \<longleftrightarrow> pk \<in> set (pg_public_keys g)"
  using get_index_None_iff [of g pk] by (metis not_None_eq)

lemma get_index_case:
  "(case get_index g pk of None \<Rightarrow> a | Some _ \<Rightarrow> b) = (if pk \<in> set (pg_public_keys g) then b else a)"
proof (cases "get_index g pk")
  case None
  then have "pk \<notin> set (pg_public_keys g)" by simp
  then show ?thesis unfolding None by simp
next
  case (Some i)
  then have "pk \<in> set (pg_public_keys g)"
    by (metis get_index_None_iff option.distinct(1))
  with Some show ?thesis by simp
qed

lemma get_index_inj: "get_index g a = Some i \<Longrightarrow> get_index g b = Some i \<Longrightarrow> a = b"
  by (auto simp: get_index_Some_iff)

lemma get_public_key_get_index: "get_index g pk = Some i \<Longrightarrow> get_public_key g i = Ok pk"
  by (auto simp: get_index_Some_iff get_public_key_def)

lemma get_index_get_public_key:
  "distinct (pg_public_keys g) \<Longrightarrow> get_public_key g i = Ok pk \<Longrightarrow> get_index g pk = Some i"
  by (auto simp: get_public_key_def get_index_def position_distinct split: if_splits)

lemma get_i_None_iff: "get_i g = None \<longleftrightarrow> pg_own_public_key g \<notin> set (pg_public_keys g)"
  by (simp add: get_i_def)

lemma get_i_Some_iff:
  "get_i g = Some i \<longleftrightarrow> (\<exists>k. get_index g (pg_own_public_key g) = Some k \<and> i = word_of_nat k)"
  by (auto simp: get_i_def)

lemma unat_get_i:
  assumes "get_i g = Some i" and "length (pg_public_keys g) < 65536"
  shows "get_index g (pg_own_public_key g) = Some (unat i)"
proof -
  from assms(1) obtain k where k: "get_index g (pg_own_public_key g) = Some k" "i = word_of_nat k"
    by (auto simp: get_i_Some_iff)
  from k(1) assms(2) have "k < 65536"
    by (auto simp: get_index_Some_iff)
  then have "unat i = k"
    by (simp add: k(2) unat_of_nat take_bit_nat_eq_self)
  with k(1) show ?thesis by simp
qed

section \<open>Encryption to a member\<close>

lemma group_decrypt_encrypt:
  assumes laws: "crypto_laws C" and member: "get_public_key g i = Ok (identity_of C sk)"
    and enc: "group_encrypt C g i plaintext = Ok ct" and utf8: "valid_utf8 plaintext"
  shows "group_decrypt C sk ct = Ok plaintext"
proof -
  from enc member obtain c where
    c: "pk_encrypt C (pk_from_secret_key C sk) plaintext = Some c" "ct = base64_encode C c"
    by (auto simp: group_encrypt_def and_then_eq_Ok identity_of_def crypto_lawsD [OF laws])
  then show ?thesis
    by (simp add: group_decrypt_def crypto_lawsD(2) [OF laws] sk_decrypt_pk_encrypt [OF laws] utf8)
qed

lemma group_encrypt_index_error:
  "index = 0 \<or> length (pg_public_keys g) < index \<Longrightarrow>
   group_encrypt C g index p = Err ''The index is not in the range [1, n].''"
  by (auto simp: group_encrypt_def get_public_key_def)

lemma group_encrypt_not_Panic [simp]: "group_encrypt C g i p \<noteq> Panic"
  by (auto simp: group_encrypt_def and_then_eq_Panic get_public_key_def)

lemma group_decrypt_not_Panic [simp]: "group_decrypt C sk ct \<noteq> Panic"
  by (auto simp: group_decrypt_def and_then_eq_Panic)

end
