(* ===== verification/Messages.thy ===== *)
theory Messages
  imports Pb Group
begin

text \<open>
  The data that passes between the actors (\<open>src/src/actors/messages.rs\<close>,
  \<open>src/src/actors/types.rs\<close>), the stored key shares of \<open>src/src/core/types.rs\<close>, and the record
  \<open>env\<close> that collects the foreign code a server is built on.
\<close>

section \<open>Protocol messages\<close>

text \<open>\<open>round_based::Msg\<close>, with the body of a protocol round.\<close>

record 'm msg =
  m_sender :: u16
  m_receiver :: "u16 option"
  m_body :: 'm

text \<open>The same envelope with the body left as JSON text (\<open>RawValue\<close>).\<close>

record generic_protocol_message =
  gpm_sender :: u16
  gpm_receiver :: "u16 option"
  gpm_body :: string

record encrypted =
  en_encrypted :: string

section \<open>Actor messages\<close>

record retry_message =
  rm_initial_timestamp :: nat
  rm_attempts :: u16
  rm_check_passed :: bool
  rm_message :: wire_message

datatype coordinator_message =
    Incoming wire_message
  | Retry retry_message
  | Outgoing core_message
  | SignRequest sign_request
  | KeygenRequest keygen_request

record 'm incoming_message =
  im_room :: string
  im_wire_message :: wire_message
  im_message :: 'm

text \<open>
  The error types of the two state machines: the variant the coordinator matches on, and every
  other one.
\<close>

datatype sm_error = ReceivedOutOfOrderMessage u16 u16 | OtherError string

record 'm protocol_error =
  pe_room :: string
  pe_error :: sm_error
  pe_message :: 'm

record ('i, 'o) protocol_output =
  po_input :: 'i
  po_output :: 'o

record enriched_sign_request =
  es_inner :: sign_request
  es_room :: string
  es_i :: u16
  es_s_l :: "u16 list"

record 'cos sign_task =
  st_room :: string
  st_index :: u16
  st_t :: usize
  st_message :: int
  st_completed_offline_stage :: 'cos

text \<open>What the code reads of a \<open>SignatureRecid\<close>: the bytes of both scalars and the recovery id.\<close>

record signature_recid =
  sg_r :: string
  sg_s :: string
  sg_recid :: u8

section \<open>Stored key shares\<close>

record 'lk stored_local_share =
  sls_public_keys :: "string list"
  sls_own_public_key :: string
  sls_share :: 'lk

record encrypted_stored_local_share =
  esls_public_keys :: "string list"
  esls_own_public_key :: string
  esls_encrypted_share :: string

section \<open>The foreign code of one server\<close>

text \<open>
  \<open>env_raw\<close> is \<open>RawValue::from_string\<close>. \<open>env_lk_t\<close> and \<open>env_lk_public_key\<close> read the
  threshold and the compressed public key of a \<open>LocalKey\<close>.
\<close>

record ('db, 'sk, 'pk, 'sg, 'lk) env =
  env_crypto :: "('sk, 'pk, 'sg) crypto"
  env_sled :: "'db sled"
  env_gpm :: "generic_protocol_message codec"
  env_encrypted :: "encrypted codec"
  env_raw :: "string \<Rightarrow> string option"
  env_group :: "group codec"
  env_share :: "encrypted_stored_local_share codec"
  env_local_key :: "'lk codec"
  env_lk_t :: "'lk \<Rightarrow> u16"
  env_lk_public_key :: "'lk \<Rightarrow> string"
  env_wire :: "wire_message codec"
  env_result :: "check_result_response codec"

text \<open>
  JSON that was written for an \<open>Encrypted\<close>, or that was read as the body of a message, is a
  raw value as it stands; strings are UTF-8; an envelope whose body is a raw value can be written.
\<close>

definition raw_laws :: "('db, 'sk, 'pk, 'sg, 'lk, 'x) env_scheme \<Rightarrow> bool" where
  "raw_laws E \<longleftrightarrow>
     (\<forall>m. env_raw E (gpm_body m) = Some (gpm_body m) \<longrightarrow> valid_utf8 (gpm_body m) \<longrightarrow>
        ser (env_gpm E) m \<noteq> None) \<and>
     (\<forall>e s. ser (env_encrypted E) e = Some s \<longrightarrow> env_raw E s = Some s) \<and>
     (\<forall>s m. de (env_gpm E) s = Some m \<longrightarrow>
        env_raw E (gpm_body m) = Some (gpm_body m) \<and> valid_utf8 (gpm_body m))"

definition json_laws :: "('db, 'sk, 'pk, 'sg, 'lk, 'x) env_scheme \<Rightarrow> bool" where
  "json_laws E \<longleftrightarrow>
     codec_ok (env_gpm E) \<and> codec_ok (env_encrypted E) \<and> codec_ok (env_group E) \<and>
     codec_ok (env_share E) \<and> codec_ok (env_local_key E) \<and> codec_ok (env_wire E) \<and>
     codec_ok (env_result E) \<and> raw_laws E"

lemma json_lawsD:
  assumes "json_laws E"
  shows "ser (env_gpm E) m = Some s \<Longrightarrow> de (env_gpm E) s = Some m"
    and "ser (env_encrypted E) e = Some s \<Longrightarrow> de (env_encrypted E) s = Some e"
    and "ser (env_group E) g = Some s \<Longrightarrow> de (env_group E) s = Some g"
    and "ser (env_share E) sh = Some s \<Longrightarrow> de (env_share E) s = Some sh"
    and "ser (env_local_key E) lk = Some s \<Longrightarrow> de (env_local_key E) s = Some lk"
    and "ser (env_wire E) w = Some s \<Longrightarrow> de (env_wire E) s = Some w"
    and "ser (env_result E) r = Some s \<Longrightarrow> de (env_result E) s = Some r"
    and "ser (env_encrypted E) e = Some s \<Longrightarrow> env_raw E s = Some s"
    and "de (env_gpm E) s = Some m \<Longrightarrow> env_raw E (gpm_body m) = Some (gpm_body m)"
    and "de (env_gpm E) s = Some m \<Longrightarrow> valid_utf8 (gpm_body m)"
    and "env_raw E (gpm_body m) = Some (gpm_body m) \<Longrightarrow> valid_utf8 (gpm_body m) \<Longrightarrow>
      \<exists>s. ser (env_gpm E) m = Some s"
  using assms by (auto simp: json_laws_def raw_laws_def codec_ok_def)

end
