(* ===== verification/Stores.thy ===== *)
theory Stores
  imports Messages
begin

text \<open>
  The two persistent stores (\<open>src/src/storage/group_store.rs\<close>, \<open>src/src/storage/share_store.rs\<close>)
  over one \<open>sled\<close> database, with the encryption of the shares (\<open>src/src/core/types.rs\<close>). Both
  promise the same contract, the locale \<open>cas_store\<close>: the first value saved under a key stays.
\<close>

section \<open>Encrypted shares\<close>

definition get_own_public_key ::
  "('db, 'sk, 'pk, 'sg, 'lk, 'x) env_scheme \<Rightarrow> 'lk stored_local_share \<Rightarrow> 'pk result" where
  "get_own_public_key E s =
     and_then (ok_or ''decode own public key''
         (hex_decode (env_crypto E) (sls_own_public_key s))) (\<lambda>own_pk.
     ok_or ''parse public key'' (pk_parse_slice (env_crypto E) own_pk))"

definition encrypt_share ::
  "('db, 'sk, 'pk, 'sg, 'lk, 'x) env_scheme \<Rightarrow> 'lk stored_local_share \<Rightarrow>
   encrypted_stored_local_share result" where
  "encrypt_share E s =
     and_then (in_context ''get own public key'' (get_own_public_key E s)) (\<lambda>pk.
     and_then (ok_or ''encoding share'' (ser (env_local_key E) (sls_share s))) (\<lambda>share_bytes.
     and_then (ok_or ''encrypt share'' (pk_encrypt (env_crypto E) pk share_bytes)) (\<lambda>ciphertext.
     Ok \<lparr>esls_public_keys = sls_public_keys s,
         esls_own_public_key = sls_own_public_key s,
         esls_encrypted_share = hex_encode (env_crypto E) ciphertext\<rparr>)))"

definition decrypt_share ::
  "('db, 'sk, 'pk, 'sg, 'lk, 'x) env_scheme \<Rightarrow> 'sk \<Rightarrow> encrypted_stored_local_share \<Rightarrow>
   'lk stored_local_share result" where
  "decrypt_share E sk s =
     and_then (ok_or ''decode share'' (hex_decode (env_crypto E) (esls_encrypted_share s))) (\<lambda>ciphertext.
     and_then (ok_or ''decrypt share'' (sk_decrypt (env_crypto E) sk ciphertext)) (\<lambda>plaintext.
     and_then (ok_or ''deserialize local key'' (de (env_local_key E) plaintext)) (\<lambda>local_key_secret.
     Ok \<lparr>sls_public_keys = esls_public_keys s,
         sls_own_public_key = esls_own_public_key s,
         sls_share = local_key_secret\<rparr>)))"

lemma decrypt_encrypt_share:
  assumes "crypto_laws (env_crypto E)" and "json_laws E"
    and "sls_own_public_key s = identity_of (env_crypto E) sk" and "encrypt_share E s = Ok es"
  shows "decrypt_share E sk es = Ok s"
  using assms
  by (auto simp: encrypt_share_def decrypt_share_def get_own_public_key_def and_then_eq_Ok
      identity_of_def crypto_lawsD json_lawsD sk_decrypt_pk_encrypt)

lemma encrypt_share_not_Panic [simp]: "encrypt_share E s \<noteq> Panic"
  by (auto simp: encrypt_share_def get_own_public_key_def and_then_eq_Panic)

lemma decrypt_share_not_Panic [simp]: "decrypt_share E sk s \<noteq> Panic"
  by (auto simp: decrypt_share_def and_then_eq_Panic)

section \<open>The group store\<close>

datatype group_store_error = GroupNotFound string

fun group_store_error_text :: "group_store_error \<Rightarrow> string" where
  "group_store_error_text (GroupNotFound group_id) = ''Couldn't find the group of id '' @ group_id @ ''.''"

definition retrieve_group ::
  "('db, 'sk, 'pk, 'sg, 'lk, 'x) env_scheme \<Rightarrow> 'db \<Rightarrow> string \<Rightarrow> group result" where
  "retrieve_group E db group_id =
     and_then (ok_or ''sled'' (sled_get (env_sled E) db group_id)) (\<lambda>found.
     and_then (in_context ''Retrieving group.'' (ok_or (group_store_error_text (GroupNotFound group_id)) found)) (\<lambda>bytes.
     ok_or ''Decode group.'' (de (env_group E) bytes)))"

definition save_group ::
  "('db, 'sk, 'pk, 'sg, 'lk, 'x) env_scheme \<Rightarrow> 'db \<Rightarrow> group \<Rightarrow> 'db \<times> unit result" where
  "save_group E db g =
     (case ser (env_group E) g of
        None \<Rightarrow> (db, Err ''serialize local share'')
      | Some bytes \<Rightarrow>
          (case sled_cas (env_sled E) db (get_group_id g) None (Some bytes) of
             (db', None) \<Rightarrow> (db', Err ''Save to db.'')
           | (db', Some swapped) \<Rightarrow> (db', Ok ())))"

section \<open>The share store\<close>

definition share_key ::
  "('db, 'sk, 'pk, 'sg, 'lk, 'x) env_scheme \<Rightarrow> 'lk stored_local_share \<Rightarrow> string" where
  "share_key E s = hex_encode (env_crypto E) (env_lk_public_key E (sls_share s))"

definition save_share ::
  "('db, 'sk, 'pk, 'sg, 'lk, 'x) env_scheme \<Rightarrow> 'db \<Rightarrow> 'lk stored_local_share \<Rightarrow>
   'db \<times> unit result" where
  "save_share E db s =
     (let sum_pk = share_key E s in
      case encrypt_share E s of
        Panic \<Rightarrow> (db, Panic)
      | Err e \<Rightarrow> (db, Err ''encrypt share'')
      | Ok es \<Rightarrow>
          (case ser (env_share E) es of
             None \<Rightarrow> (db, Err ''serialize local share'')
           | Some out \<Rightarrow>
               (case sled_cas (env_sled E) db sum_pk None (Some out) of
                  (db', None) \<Rightarrow> (db', Err ''Save to db.'')
                | (db', Some swapped) \<Rightarrow> (db', Ok ()))))"

datatype local_share_store_error = LocalShareNotFound string

fun local_share_store_error_text :: "local_share_store_error \<Rightarrow> string" where
  "local_share_store_error_text (LocalShareNotFound public_key) =
     ''Couldn't find the local share for '' @ public_key @ ''.''"

definition retrieve_share ::
  "('db, 'sk, 'pk, 'sg, 'lk, 'x) env_scheme \<Rightarrow> 'sk \<Rightarrow> 'db \<Rightarrow> string \<Rightarrow>
   'lk stored_local_share result" where
  "retrieve_share E sk db public_key =
     and_then (ok_or ''sled'' (sled_get (env_sled E) db public_key)) (\<lambda>found.
     and_then (in_context ''Retrieving local share.'' (ok_or (local_share_store_error_text (LocalShareNotFound public_key)) found)) (\<lambda>stored.
     and_then (ok_or ''Decode local share.'' (de (env_share E) stored)) (\<lambda>es.
     in_context ''decrypt stored share'' (decrypt_share E sk es))))"

lemma retrieve_group_not_Panic [simp]: "retrieve_group E db gid \<noteq> Panic"
  by (auto simp: retrieve_group_def and_then_eq_Panic)

lemma retrieve_share_not_Panic [simp]: "retrieve_share E sk db k \<noteq> Panic"
  by (auto simp: retrieve_share_def and_then_eq_Panic)

section \<open>The contract of a store\<close>

text \<open>
  \<open>env_ok\<close> stands for the laws of the foreign code, \<open>good\<close> for the values whose stored form this
  server can read, \<open>up d k\<close> for a read that does not fail with an I/O error.
\<close>

locale cas_store =
  fixes key_of :: "'v \<Rightarrow> string"
    and save :: "'d \<Rightarrow> 'v \<Rightarrow> 'd \<times> unit result"
    and retrieve :: "'d \<Rightarrow> string \<Rightarrow> 'v result"
    and view :: "'d \<Rightarrow> string \<Rightarrow> string option"
    and good :: "'v \<Rightarrow> bool"
    and up :: "'d \<Rightarrow> string \<Rightarrow> bool"
    and env_ok :: bool
  assumes save_fresh:
    "env_ok \<Longrightarrow> good v \<Longrightarrow> save d v = (d', Ok ()) \<Longrightarrow> view d (key_of v) = None \<Longrightarrow>
     \<exists>b. view d' = (view d)(key_of v \<mapsto> b) \<and>
       (\<forall>e. view e (key_of v) = Some b \<longrightarrow> up e (key_of v) \<longrightarrow> retrieve e (key_of v) = Ok v)"
    and save_occupied:
    "env_ok \<Longrightarrow> save d v = (d', Ok ()) \<Longrightarrow> view d (key_of v) \<noteq> None \<Longrightarrow> view d' = view d"
    and save_frame:
    "env_ok \<Longrightarrow> save d v = (d', Ok ()) \<Longrightarrow> k \<noteq> key_of v \<Longrightarrow> view d' k = view d k"
    and retrieve_absent: "env_ok \<Longrightarrow> view d k = None \<Longrightarrow> \<exists>e. retrieve d k = Err e"
    and retrieve_cong:
    "env_ok \<Longrightarrow> up d k \<Longrightarrow> up e k \<Longrightarrow> view d k = view e k \<Longrightarrow> retrieve d k = retrieve e k"
begin

lemma retrieve_after_save:
  assumes "env_ok" "good v" "save d v = (d', Ok ())" "view d (key_of v) = None"
    and "up d' (key_of v)"
  shows "retrieve d' (key_of v) = Ok v"
proof -
  from save_fresh [OF assms(1-4)] obtain b where
    "view d' = (view d)(key_of v \<mapsto> b)"
    "\<forall>e. view e (key_of v) = Some b \<longrightarrow> up e (key_of v) \<longrightarrow> retrieve e (key_of v) = Ok v"
    by blast
  with assms(5) show ?thesis by simp
qed

lemma occupied_after_save:
  assumes "env_ok" "good v" "save d v = (d', Ok ())"
  shows "view d' (key_of v) \<noteq> None"
proof (cases "view d (key_of v) = None")
  case True
  from save_fresh [OF assms True] show ?thesis by auto
next
  case False
  with save_occupied [OF assms(1,3)] show ?thesis by simp
qed

lemma first_writer_wins:
  assumes "env_ok" "good v" "save d v = (d1, Ok ())" "view d (key_of v) = None"
    and "save d1 w = (d2, Ok ())" "key_of w = key_of v" "up d2 (key_of v)"
  shows "retrieve d2 (key_of v) = Ok v"
proof -
  have "view d1 (key_of w) \<noteq> None"
    using occupied_after_save [OF assms(1-3)] assms(6) by simp
  then have same: "view d2 = view d1"
    using save_occupied [OF assms(1,5)] by simp
  from save_fresh [OF assms(1-4)] obtain b where
    "view d1 = (view d)(key_of v \<mapsto> b)"
    "\<forall>e. view e (key_of v) = Some b \<longrightarrow> up e (key_of v) \<longrightarrow> retrieve e (key_of v) = Ok v"
    by blast
  with same assms(7) show ?thesis by simp
qed

lemma retrieve_other:
  assumes "env_ok" "save d v = (d', Ok ())" "k \<noteq> key_of v" "up d k" "up d' k"
  shows "retrieve d' k = retrieve d k"
  using retrieve_cong [OF assms(1,5,4)] save_frame [OF assms(1-3)] by simp

end

text \<open>Both stores keep the contract.\<close>

definition store_laws ::
  "('db, 'sk, 'pk, 'sg, 'lk, 'x) env_scheme \<Rightarrow> ('db \<Rightarrow> string \<Rightarrow> string option) \<Rightarrow> bool" where
  "store_laws E view \<longleftrightarrow> sled_laws (env_sled E) view \<and> json_laws E \<and> crypto_laws (env_crypto E)"

definition db_up :: "('db, 'sk, 'pk, 'sg, 'lk, 'x) env_scheme \<Rightarrow> 'db \<Rightarrow> string \<Rightarrow> bool" where
  "db_up E db k \<longleftrightarrow> sled_get (env_sled E) db k \<noteq> None"

definition own_share ::
  "('db, 'sk, 'pk, 'sg, 'lk, 'x) env_scheme \<Rightarrow> 'sk \<Rightarrow> 'lk stored_local_share \<Rightarrow> bool" where
  "own_share E sk s \<longleftrightarrow> sls_own_public_key s = identity_of (env_crypto E) sk"

lemma store_laws_sled: "store_laws E view \<Longrightarrow> sled_laws (env_sled E) view"
  and store_laws_json: "store_laws E view \<Longrightarrow> json_laws E"
  and store_laws_crypto: "store_laws E view \<Longrightarrow> crypto_laws (env_crypto E)"
  by (simp_all add: store_laws_def)

lemma save_group_Ok_iff:
  "save_group E db g = (db', Ok ()) \<longleftrightarrow>
     (\<exists>bytes b. ser (env_group E) g = Some bytes \<and>
       sled_cas (env_sled E) db (pg_group_id g) None (Some bytes) = (db', Some b))"
  by (auto simp: save_group_def get_group_id_def split: option.splits prod.splits)

lemma save_share_Ok_iff:
  "save_share E db s = (db', Ok ()) \<longleftrightarrow>
     (\<exists>es out b. encrypt_share E s = Ok es \<and> ser (env_share E) es = Some out \<and>
       sled_cas (env_sled E) db (share_key E s) None (Some out) = (db', Some b))"
  by (auto simp: save_share_def Let_def split: option.splits prod.splits outcome.splits)

lemma retrieve_group_read:
  "store_laws E view \<Longrightarrow> db_up E db k \<Longrightarrow>
   retrieve_group E db k =
     (case view db k of None \<Rightarrow> Err ''Retrieving group.''
      | Some bytes \<Rightarrow> ok_or ''Decode group.'' (de (env_group E) bytes))"
  by (auto simp: retrieve_group_def db_up_def split: option.splits
      dest!: sled_laws_get [OF store_laws_sled])

lemma retrieve_share_read:
  "store_laws E view \<Longrightarrow> db_up E db k \<Longrightarrow>
   retrieve_share E sk db k =
     (case view db k of None \<Rightarrow> Err ''Retrieving local share.''
      | Some bytes \<Rightarrow> and_then (ok_or ''Decode local share.'' (de (env_share E) bytes))
          (\<lambda>es. in_context ''decrypt stored share'' (decrypt_share E sk es)))"
  by (auto simp: retrieve_share_def db_up_def split: option.splits
      dest!: sled_laws_get [OF store_laws_sled])

text \<open>What is stored stays, also when a save reports an error.\<close>

lemma fst_save_group:
  "fst (save_group E db g) =
     (case ser (env_group E) g of None \<Rightarrow> db
      | Some bytes \<Rightarrow> fst (sled_cas (env_sled E) db (get_group_id g) None (Some bytes)))"
  by (simp add: save_group_def split: option.splits prod.splits)

lemma fst_save_share:
  "fst (save_share E db s) =
     (case encrypt_share E s of
        Ok es \<Rightarrow>
          (case ser (env_share E) es of None \<Rightarrow> db
           | Some out \<Rightarrow> fst (sled_cas (env_sled E) db (share_key E s) None (Some out)))
      | _ \<Rightarrow> db)"
  by (simp add: save_share_def Let_def split: option.splits prod.splits outcome.splits)

lemma save_group_mono:
  "store_laws E view \<Longrightarrow> view db k = Some v \<Longrightarrow> view (fst (save_group E db g)) k = Some v"
  by (simp add: fst_save_group sled_laws_cas_mono [OF store_laws_sled] split: option.splits)

lemma save_share_mono:
  "store_laws E view \<Longrightarrow> view db k = Some v \<Longrightarrow> view (fst (save_share E db s)) k = Some v"
  by (simp add: fst_save_share sled_laws_cas_mono [OF store_laws_sled]
      split: option.splits outcome.splits)

lemma retrieve_group_absent:
  "store_laws E view \<Longrightarrow> view db k = None \<Longrightarrow> \<exists>e. retrieve_group E db k = Err e"
  using retrieve_group_read [of E view db k]
  by (cases "sled_get (env_sled E) db k") (auto simp: retrieve_group_def db_up_def)

lemma retrieve_share_absent:
  "store_laws E view \<Longrightarrow> view db k = None \<Longrightarrow> \<exists>e. retrieve_share E sk db k = Err e"
  using retrieve_share_read [of E view db k sk]
  by (cases "sled_get (env_sled E) db k") (auto simp: retrieve_share_def db_up_def)

lemma save_group_view:
  assumes "store_laws E view" and "save_group E db g = (db', Ok ())"
  shows "\<exists>bytes. ser (env_group E) g = Some bytes \<and>
    view db' = (if view db (pg_group_id g) = None then (view db)(pg_group_id g \<mapsto> bytes)
      else view db)"
  using assms by (auto simp: save_group_Ok_iff dest: sled_laws_cas [OF store_laws_sled])

lemma save_share_view:
  assumes "store_laws E view" and "save_share E db s = (db', Ok ())"
  shows "\<exists>es out. encrypt_share E s = Ok es \<and> ser (env_share E) es = Some out \<and>
    view db' = (if view db (share_key E s) = None then (view db)(share_key E s \<mapsto> out)
      else view db)"
  using assms by (auto simp: save_share_Ok_iff dest: sled_laws_cas [OF store_laws_sled])

interpretation groups: cas_store pg_group_id "save_group E" "retrieve_group E" view "\<lambda>_. True"
    "db_up E" "store_laws E view"
  for E :: "('db, 'sk, 'pk, 'sg, 'lk, 'x) env_scheme" and view :: "'db \<Rightarrow> string \<Rightarrow> string option"
proof (unfold_locales, goal_cases)
  case (1 v d d')
  from save_group_view [OF 1(1,3)] 1(4) obtain bytes where
    b: "ser (env_group E) v = Some bytes" "view d' = (view d)(pg_group_id v \<mapsto> bytes)"
    by auto
  have "de (env_group E) bytes = Some v"
    using json_lawsD(3) [OF store_laws_json [OF 1(1)] b(1)] .
  with b(2) show ?case
    by (auto simp: retrieve_group_read [OF 1(1)])
next
  case (2 d v d')
  then show ?case by (auto dest!: save_group_view)
next
  case (3 d v d' k)
  then show ?case by (auto dest!: save_group_view)
next
  case (4 d k)
  then show ?case by (rule retrieve_group_absent)
next
  case (5 d k e)
  then show ?case by (simp add: retrieve_group_read)
qed

interpretation shares: cas_store "share_key E" "save_share E" "retrieve_share E sk" view
    "own_share E sk" "db_up E" "store_laws E view"
  for E :: "('db, 'sk, 'pk, 'sg, 'lk, 'x) env_scheme" and sk :: 'sk
    and view :: "'db \<Rightarrow> string \<Rightarrow> string option"
proof (unfold_locales, goal_cases)
  case (1 v d d')
  from save_share_view [OF 1(1,3)] 1(4) obtain es out where
    b: "encrypt_share E v = Ok es" "ser (env_share E) es = Some out"
      "view d' = (view d)(share_key E v \<mapsto> out)"
    by auto
  have "de (env_share E) out = Some es"
    using json_lawsD(4) [OF store_laws_json [OF 1(1)] b(2)] .
  moreover have "decrypt_share E sk es = Ok v"
    using decrypt_encrypt_share [OF store_laws_crypto [OF 1(1)] store_laws_json [OF 1(1)] _ b(1)]
      1(2) by (simp add: own_share_def)
  ultimately show ?case
    using b(3) by (auto simp: retrieve_share_read [OF 1(1)])
next
  case (2 d v d')
  then show ?case by (auto dest!: save_share_view)
next
  case (3 d v d' k)
  then show ?case by (auto dest!: save_share_view)
next
  case (4 d k)
  then show ?case by (rule retrieve_share_absent)
next
  case (5 d k e)
  then show ?case by (simp add: retrieve_share_read)
qed

end
