(* ===== verification/Ciphers.thy ===== *)
theory Ciphers
  imports Stores Rooms
begin

text \<open>
  \<open>src/src/crypto/encrypter.rs\<close> and \<open>src/src/crypto/decrypter.rs\<close>: the body of a message with a
  receiver is encrypted to that receiver's key, a message without one passes as it is. The
  contract of the two traits is the locale \<open>payload_cipher\<close>.
\<close>

section \<open>The encrypter and the decrypter\<close>

text \<open>
  Both functions take \<open>&mut msg\<close> and assign to it last, so that on an error the message is as it
  was; the model returns the message after the call.
\<close>

definition maybe_encrypt ::
  "('db, 'sk, 'pk, 'sg, 'lk, 'x) env_scheme \<Rightarrow> 'db \<Rightarrow> core_message \<Rightarrow> core_message result" where
  "maybe_encrypt E db msg =
     and_then (ok_or ''parse GenericProtocolMessage'' (de (env_gpm E) (c_message msg))) (\<lambda>m.
     case gpm_receiver m of
       Some receiver \<Rightarrow>
         and_then (in_context ''extract group_id'' (extract_group_id (c_room msg))) (\<lambda>group_id.
         and_then (in_context ''Retrieve group.'' (retrieve_group E db group_id)) (\<lambda>group.
         and_then (in_context ''encrypt''
             (group_encrypt (env_crypto E) group (unat receiver) (gpm_body m))) (\<lambda>encrypted.
         and_then (ok_or ''stringify Encrypted''
             (ser (env_encrypted E) \<lparr>en_encrypted = encrypted\<rparr>)) (\<lambda>body.
         and_then (ok_or ''convert to RawValue'' (env_raw E body)) (\<lambda>body.
         and_then (ok_or ''convert to string'' (ser (env_gpm E) (m\<lparr>gpm_body := body\<rparr>))) (\<lambda>m.
         Ok (msg\<lparr>c_message := m\<rparr>)))))))
     | None \<Rightarrow> Ok msg)"

definition maybe_decrypt ::
  "('db, 'sk, 'pk, 'sg, 'lk, 'x) env_scheme \<Rightarrow> 'sk \<Rightarrow> wire_message \<Rightarrow> wire_message result" where
  "maybe_decrypt E sk msg =
     and_then (ok_or ''parse GenericProtocolMessage'' (de (env_gpm E) (w_payload msg))) (\<lambda>m.
     case gpm_receiver m of
       Some receiver \<Rightarrow>
         and_then (ok_or ''parse encrypted'' (de (env_encrypted E) (gpm_body m))) (\<lambda>encrypted_message.
         and_then (in_context ''decrypt''
             (group_decrypt (env_crypto E) sk (en_encrypted encrypted_message))) (\<lambda>decrypted.
         and_then (ok_or ''convert to RawValue'' (env_raw E decrypted)) (\<lambda>decrypted.
         and_then (ok_or ''convert to string'' (ser (env_gpm E) (m\<lparr>gpm_body := decrypted\<rparr>))) (\<lambda>m.
         Ok (msg\<lparr>w_payload := m\<rparr>)))))
     | None \<Rightarrow> Ok msg)"

lemma maybe_encrypt_not_Panic [simp]: "maybe_encrypt E db msg \<noteq> Panic"
  by (auto simp: maybe_encrypt_def and_then_eq_Panic split: option.splits)

lemma maybe_decrypt_not_Panic [simp]: "maybe_decrypt E sk msg \<noteq> Panic"
  by (auto simp: maybe_decrypt_def and_then_eq_Panic split: option.splits)

lemma maybe_encrypt_unparsed:
  "de (env_gpm E) (c_message msg) = None \<Longrightarrow>
   maybe_encrypt E db msg = Err ''parse GenericProtocolMessage''"
  by (simp add: maybe_encrypt_def)

lemma maybe_encrypt_broadcast:
  "de (env_gpm E) (c_message msg) = Some m \<Longrightarrow> gpm_receiver m = None \<Longrightarrow>
   maybe_encrypt E db msg = Ok msg"
  by (simp add: maybe_encrypt_def)

lemma maybe_decrypt_broadcast:
  "de (env_gpm E) (w_payload msg) = Some m \<Longrightarrow> gpm_receiver m = None \<Longrightarrow>
   maybe_decrypt E sk msg = Ok msg"
  by (simp add: maybe_decrypt_def)

lemma maybe_encrypt_unicast:
  assumes "de (env_gpm E) (c_message msg) = Some m" and "gpm_receiver m = Some r"
  shows "maybe_encrypt E db msg = Ok msg' \<longleftrightarrow>
    (\<exists>gid group ct body raw s. extract_group_id (c_room msg) = Ok gid \<and>
       retrieve_group E db gid = Ok group \<and>
       group_encrypt (env_crypto E) group (unat r) (gpm_body m) = Ok ct \<and>
       ser (env_encrypted E) \<lparr>en_encrypted = ct\<rparr> = Some body \<and>
       env_raw E body = Some raw \<and> ser (env_gpm E) (m\<lparr>gpm_body := raw\<rparr>) = Some s \<and>
       msg' = msg\<lparr>c_message := s\<rparr>)"
  using assms by (auto simp: maybe_encrypt_def and_then_eq_Ok)

lemma maybe_decrypt_frame:
  "maybe_decrypt E sk w = Ok w' \<Longrightarrow>
   w_room w' = w_room w \<and> w_sender_public_key w' = w_sender_public_key w \<and>
   w_signature w' = w_signature w"
  by (auto simp: maybe_decrypt_def and_then_eq_Ok split: option.splits)

lemma maybe_encrypt_room: "maybe_encrypt E db msg = Ok msg' \<Longrightarrow> c_room msg' = c_room msg"
  by (auto simp: maybe_encrypt_def and_then_eq_Ok split: option.splits)

section \<open>The contract of the two traits\<close>

text \<open>
  \<open>parse\<close> reads the envelope of a payload. \<open>mine room r\<close> says that index \<open>r\<close> of the
  group the sender stores for \<open>room\<close> is the key of the server that opens the message.
\<close>

locale payload_cipher =
  fixes seal :: "core_message \<Rightarrow> core_message result"
    and unseal :: "wire_message \<Rightarrow> wire_message result"
    and parse :: "string \<Rightarrow> generic_protocol_message option"
    and mine :: "string \<Rightarrow> u16 \<Rightarrow> bool"
    and env_ok :: bool
  assumes seal_parses: "seal m = Ok m' \<Longrightarrow> \<exists>g. parse (c_message m) = Some g"
    and seal_room: "seal m = Ok m' \<Longrightarrow> c_room m' = c_room m"
    and seal_plain:
    "parse (c_message m) = Some g \<Longrightarrow> gpm_receiver g = None \<Longrightarrow> seal m = Ok m"
    and unseal_plain:
    "parse (w_payload w) = Some g \<Longrightarrow> gpm_receiver g = None \<Longrightarrow> unseal w = Ok w"
    and seal_header:
    "env_ok \<Longrightarrow> seal m = Ok m' \<Longrightarrow> parse (c_message m) = Some g \<Longrightarrow>
     \<exists>g'. parse (c_message m') = Some g' \<and> gpm_sender g' = gpm_sender g \<and>
       gpm_receiver g' = gpm_receiver g"
    and unseal_sealed:
    "env_ok \<Longrightarrow> seal m = Ok m' \<Longrightarrow> parse (c_message m) = Some g \<Longrightarrow> gpm_receiver g = Some r \<Longrightarrow>
     mine (c_room m) r \<Longrightarrow> w_payload w = c_message m' \<Longrightarrow>
     \<exists>s. unseal w = Ok (w\<lparr>w_payload := s\<rparr>) \<and> parse s = Some g"
begin

text \<open>Whatever was sealed is opened with the envelope and the body it had.\<close>

lemma delivered:
  assumes "env_ok" "seal m = Ok m'" "w_payload w = c_message m'"
    and "\<And>g r. parse (c_message m) = Some g \<Longrightarrow> gpm_receiver g = Some r \<Longrightarrow> mine (c_room m) r"
  shows "\<exists>w' g. unseal w = Ok w' \<and> w_room w' = w_room w \<and>
    parse (w_payload w') = Some g \<and> parse (c_message m) = Some g"
proof -
  from seal_parses [OF assms(2)] obtain g where g: "parse (c_message m) = Some g" ..
  show ?thesis
  proof (cases "gpm_receiver g")
    case None
    with seal_plain [OF g] assms(2) have "m' = m" by simp
    with assms(3) g unseal_plain [of w g] None show ?thesis by auto
  next
    case (Some r)
    with unseal_sealed [OF assms(1,2) g Some assms(4) [OF g Some] assms(3)] g
    show ?thesis by force
  qed
qed

end

definition addressed_to ::
  "('db, 'sk, 'pk, 'sg, 'lk, 'x) env_scheme \<Rightarrow> 'db \<Rightarrow> 'sk \<Rightarrow> string \<Rightarrow> u16 \<Rightarrow> bool" where
  "addressed_to E db sk room r \<longleftrightarrow>
     (\<exists>gid group. extract_group_id room = Ok gid \<and> retrieve_group E db gid = Ok group \<and>
        get_public_key group (unat r) = Ok (identity_of (env_crypto E) sk))"

definition cipher_laws :: "('db, 'sk, 'pk, 'sg, 'lk, 'x) env_scheme \<Rightarrow> bool" where
  "cipher_laws E \<longleftrightarrow> json_laws E \<and> crypto_laws (env_crypto E)"

lemma maybe_decrypt_maybe_encrypt:
  assumes laws: "cipher_laws E" and enc: "maybe_encrypt E db msg = Ok msg'"
    and g: "de (env_gpm E) (c_message msg) = Some m" and r: "gpm_receiver m = Some r"
    and mine: "addressed_to E db sk (c_room msg) r" and w: "w_payload w = c_message msg'"
  shows "\<exists>s. maybe_decrypt E sk w = Ok (w\<lparr>w_payload := s\<rparr>) \<and> de (env_gpm E) s = Some m"
proof -
  from laws have J: "json_laws E" and C: "crypto_laws (env_crypto E)"
    by (simp_all add: cipher_laws_def)
  from enc obtain gid group ct body raw s where
    e: "extract_group_id (c_room msg) = Ok gid" "retrieve_group E db gid = Ok group"
      "group_encrypt (env_crypto E) group (unat r) (gpm_body m) = Ok ct"
      "ser (env_encrypted E) \<lparr>en_encrypted = ct\<rparr> = Some body" "env_raw E body = Some raw"
      "ser (env_gpm E) (m\<lparr>gpm_body := raw\<rparr>) = Some s" "msg' = msg\<lparr>c_message := s\<rparr>"
    by (auto simp: maybe_encrypt_unicast [OF g r])
  have raw: "raw = body"
    using json_lawsD(8) [OF J e(4)] e(5) by simp
  from mine e(1,2) have "get_public_key group (unat r) = Ok (identity_of (env_crypto E) sk)"
    by (auto simp: addressed_to_def)
  from group_decrypt_encrypt [OF C this e(3) json_lawsD(10) [OF J g]]
  have dec: "group_decrypt (env_crypto E) sk ct = Ok (gpm_body m)" .
  obtain s' where s': "ser (env_gpm E) m = Some s'"
    using json_lawsD(11) [OF J json_lawsD(9) [OF J g] json_lawsD(10) [OF J g]] by blast
  have parsed: "de (env_gpm E) (w_payload w) = Some (m\<lparr>gpm_body := body\<rparr>)"
    using json_lawsD(1) [OF J e(6)] w e(7) raw by simp
  have "maybe_decrypt E sk w = Ok (w\<lparr>w_payload := s'\<rparr>)"
    using r dec s' json_lawsD(2) [OF J e(4)] json_lawsD(9) [OF J g]
    by (simp add: maybe_decrypt_def parsed)
  with json_lawsD(1) [OF J s'] show ?thesis by blast
qed

lemma maybe_encrypt_header:
  assumes laws: "cipher_laws E" and enc: "maybe_encrypt E db msg = Ok msg'"
    and g: "de (env_gpm E) (c_message msg) = Some m"
  shows "\<exists>g'. de (env_gpm E) (c_message msg') = Some g' \<and> gpm_sender g' = gpm_sender m \<and>
    gpm_receiver g' = gpm_receiver m"
proof (cases "gpm_receiver m")
  case None
  with enc g maybe_encrypt_broadcast [OF g None, of db] show ?thesis by auto
next
  case (Some r)
  from laws have J: "json_laws E" by (simp add: cipher_laws_def)
  from enc obtain raw s where
    "ser (env_gpm E) (m\<lparr>gpm_body := raw\<rparr>) = Some s" "msg' = msg\<lparr>c_message := s\<rparr>"
    by (auto simp: maybe_encrypt_unicast [OF g Some])
  with json_lawsD(1) [OF J] show ?thesis by fastforce
qed

interpretation simple: payload_cipher "maybe_encrypt E db" "maybe_decrypt E sk" "de (env_gpm E)"
    "addressed_to E db sk" "cipher_laws E"
  for E :: "('db, 'sk, 'pk, 'sg, 'lk, 'x) env_scheme" and db :: 'db and sk :: 'sk
proof (unfold_locales, goal_cases)
  case (1 m m')
  then show ?case
    by (cases "de (env_gpm E) (c_message m)") (auto simp: maybe_encrypt_unparsed)
next
  case (2 m m')
  then show ?case by (rule maybe_encrypt_room)
next
  case (3 m g)
  then show ?case by (rule maybe_encrypt_broadcast)
next
  case (4 w g)
  then show ?case by (rule maybe_decrypt_broadcast)
next
  case (5 m m' g)
  then show ?case by (rule maybe_encrypt_header)
next
  case (6 m m' g r w)
  then show ?case by (rule maybe_decrypt_maybe_encrypt)
qed

end
