(* ===== verification/Transport.thy ===== *)
theory Transport
  imports Messages
begin

text \<open>
  \<open>src/src/transport\<close>: messages are signed before they are broadcast and checked when they arrive
  (\<open>common.rs\<close>); the broker is the messenger, over HTTP and server-sent events
  (\<open>messenger.rs\<close>), or a Redis channel (\<open>redis.rs\<close>). Both transports keep the contract
  \<open>broadcast_channel\<close>.
\<close>

section \<open>Signing and checking\<close>

definition take_non_owned :: "string \<Rightarrow> wire_message result \<Rightarrow> bool" where
  "take_non_owned own_pub_key envelope =
     (case envelope of
        Ok e \<Rightarrow> w_sender_public_key e \<noteq> own_pub_key
      | Err _ \<Rightarrow> True
      | Panic \<Rightarrow> True)"

text \<open>\<open>hash.as_slice().try_into()\<close> for an array of 32 bytes.\<close>

definition hash_bytes :: "('sk, 'pk, 'sg) crypto \<Rightarrow> string \<Rightarrow> string result" where
  "hash_bytes C data =
     (let hash = sha256 C data in if length hash = 32 then Ok hash else Err ''Create hash'')"

datatype verify_error = Verify_failed

fun verify_error_text :: "verify_error \<Rightarrow> string" where
  "verify_error_text Verify_failed = ''Verification failed.''"

definition do_parse_signed ::
  "('db, 'sk, 'pk, 'sg, 'lk, 'x) env_scheme \<Rightarrow> string \<Rightarrow> wire_message result" where
  "do_parse_signed E msg =
     (let C = env_crypto E in
      and_then (ok_or ''deserialize message'' (de (env_wire E) msg)) (\<lambda>signed.
      and_then (ok_or ''Wrong pub key'' (hex_decode C (w_sender_public_key signed))) (\<lambda>bytes.
      and_then (ok_or ''Failed to parse pub key'' (pk_parse_slice C bytes)) (\<lambda>sender_pub.
      and_then (ok_or ''Wrong signature'' (hex_decode C (w_signature signed))) (\<lambda>sbytes.
      and_then (ok_or ''Signature'' (sig_parse_slice C sbytes)) (\<lambda>sig.
      and_then (hash_bytes C (w_payload signed)) (\<lambda>message.
      if secp_verify C message sig sender_pub then Ok signed
      else Err (verify_error_text Verify_failed))))))))"

definition parse_signed ::
  "('db, 'sk, 'pk, 'sg, 'lk, 'x) env_scheme \<Rightarrow> string result \<Rightarrow> wire_message result option" where
  "parse_signed E msg = (case msg of Ok m \<Rightarrow> Some (do_parse_signed E m) | _ \<Rightarrow> None)"

definition sign_envelope ::
  "('db, 'sk, 'pk, 'sg, 'lk, 'x) env_scheme \<Rightarrow> 'sk \<Rightarrow> string \<Rightarrow> core_message \<Rightarrow>
   wire_message result" where
  "sign_envelope E key pub_key envelope =
     (let C = env_crypto E in
      and_then (hash_bytes C (c_message envelope)) (\<lambda>message.
      Ok \<lparr>w_room = c_room envelope, w_payload = c_message envelope,
          w_sender_public_key = pub_key,
          w_signature = hex_encode C (sig_serialize C (secp_sign C message key))\<rparr>))"

text \<open>What an accepted message guarantees.\<close>

definition signature_valid ::
  "('sk, 'pk, 'sg) crypto \<Rightarrow> string \<Rightarrow> string \<Rightarrow> string \<Rightarrow> bool" where
  "signature_valid C sender signature payload \<longleftrightarrow>
     length (sha256 C payload) = 32 \<and>
     (case Option.bind (hex_decode C sender) (pk_parse_slice C) of
        None \<Rightarrow> False
      | Some pk \<Rightarrow>
          (case Option.bind (hex_decode C signature) (sig_parse_slice C) of
             None \<Rightarrow> False
           | Some sg \<Rightarrow> secp_verify C (sha256 C payload) sg pk))"

lemma hash_bytes_Ok_iff: "hash_bytes C d = Ok h \<longleftrightarrow> length (sha256 C d) = 32 \<and> h = sha256 C d"
  by (auto simp: hash_bytes_def Let_def)

lemma do_parse_signed_Ok_iff:
  "do_parse_signed E msg = Ok w \<longleftrightarrow>
     de (env_wire E) msg = Some w \<and>
     signature_valid (env_crypto E) (w_sender_public_key w) (w_signature w) (w_payload w)"
  by (auto simp: do_parse_signed_def Let_def and_then_eq_Ok hash_bytes_Ok_iff signature_valid_def
      bind_eq_Some_conv split: if_splits option.splits)

lemma do_parse_signed_not_Panic [simp]: "do_parse_signed E msg \<noteq> Panic"
  by (auto simp: do_parse_signed_def Let_def and_then_eq_Panic hash_bytes_def)

section \<open>The two pipelines\<close>

text \<open>
  \<open>.filter_map(parse_signed).filter(take_non_owned(own_pub_key))\<close> on the texts received so far,
  the same in \<open>join_computation_via_messenger\<close> and \<open>join_computation_via_redis\<close>.
\<close>

definition incoming_filter ::
  "('db, 'sk, 'pk, 'sg, 'lk, 'x) env_scheme \<Rightarrow> string \<Rightarrow> string result list \<Rightarrow>
   wire_message result list" where
  "incoming_filter E own_pub_key raws =
     filter (take_non_owned own_pub_key) (List.map_filter (parse_signed E) raws)"

text \<open>The body of the \<open>unfold\<close> up to the call of \<open>broadcast\<close>: the text that is sent.\<close>

definition outgoing_text ::
  "('db, 'sk, 'pk, 'sg, 'lk, 'x) env_scheme \<Rightarrow> 'sk \<Rightarrow> string \<Rightarrow> core_message \<Rightarrow> string result" where
  "outgoing_text E key pub_key unsigned_msg =
     and_then (in_context ''Failed to sign'' (sign_envelope E key pub_key unsigned_msg)) (\<lambda>signed.
     ok_or ''to_string'' (ser (env_wire E) signed))"

text \<open>
  \<open>SmClient\<close>: a broadcast is a POST to \<open>broadcast\<close>; the subscription is a GET of
  \<open>subscribe\<close> whose events are filtered. \<open>None\<close> stands for an error of the decoder.
\<close>

datatype http_request = Post string string | Get string

datatype sse_event = Sse_message string | Sse_retry nat

definition sm_broadcast :: "string \<Rightarrow> http_request" where
  "sm_broadcast message = Post ''broadcast'' message"

definition sm_subscribe :: http_request where
  "sm_subscribe = Get ''subscribe''"

definition sm_event :: "sse_event option \<Rightarrow> string result option" where
  "sm_event msg =
     (case msg of
        Some (Sse_message bytes) \<Rightarrow>
          Some (ok_or ''SSE message is not valid UTF-8 string'' (from_utf8 bytes))
      | Some (Sse_retry _) \<Rightarrow> None
      | None \<Rightarrow> Some (Err ''sse''))"

definition messenger_incoming ::
  "('db, 'sk, 'pk, 'sg, 'lk, 'x) env_scheme \<Rightarrow> string \<Rightarrow> sse_event option list \<Rightarrow>
   wire_message result list" where
  "messenger_incoming E own_pub_key events =
     incoming_filter E own_pub_key (List.map_filter sm_event events)"

definition messenger_outgoing ::
  "('db, 'sk, 'pk, 'sg, 'lk, 'x) env_scheme \<Rightarrow> 'sk \<Rightarrow> core_message \<Rightarrow> http_request result" where
  "messenger_outgoing E key unsigned_msg =
     and_then (outgoing_text E key (identity_of (env_crypto E) key) unsigned_msg)
       (\<lambda>serialized. Ok (sm_broadcast serialized))"

text \<open>
  \<open>RedisClient\<close>: a message is published on one channel; \<open>None\<close> stands for a payload that is not
  a string.
\<close>

datatype redis_command = Publish string string

definition channel_name :: string where
  "channel_name = ''avalido.mpc''"

definition redis_broadcast :: "string \<Rightarrow> redis_command" where
  "redis_broadcast message = Publish channel_name message"

definition redis_payload :: "string option \<Rightarrow> string result" where
  "redis_payload msg = (case msg of Some m \<Rightarrow> Ok m | None \<Rightarrow> Err ''redis'')"

definition redis_incoming ::
  "('db, 'sk, 'pk, 'sg, 'lk, 'x) env_scheme \<Rightarrow> string \<Rightarrow> string option list \<Rightarrow>
   wire_message result list" where
  "redis_incoming E own_pub_key msgs = incoming_filter E own_pub_key (map redis_payload msgs)"

definition redis_outgoing ::
  "('db, 'sk, 'pk, 'sg, 'lk, 'x) env_scheme \<Rightarrow> 'sk \<Rightarrow> core_message \<Rightarrow> redis_command result" where
  "redis_outgoing E key unsigned_msg =
     and_then (outgoing_text E key (identity_of (env_crypto E) key) unsigned_msg)
       (\<lambda>serialized. Ok (redis_broadcast serialized))"

section \<open>Facts about the pipelines\<close>

definition transport_laws :: "('db, 'sk, 'pk, 'sg, 'lk, 'x) env_scheme \<Rightarrow> bool" where
  "transport_laws E \<longleftrightarrow>
     codec_ok (env_wire E) \<and> crypto_laws (env_crypto E) \<and>
     (\<forall>w s. ser (env_wire E) w = Some s \<longrightarrow> valid_utf8 s) \<and>
     (\<forall>d. length (sha256 (env_crypto E) d) = 32)"

text \<open>The wire message that a server with secret key \<open>sk\<close> makes of a core message.\<close>

definition signed_wire ::
  "('db, 'sk, 'pk, 'sg, 'lk, 'x) env_scheme \<Rightarrow> 'sk \<Rightarrow> core_message \<Rightarrow> wire_message" where
  "signed_wire E sk m =
     (let C = env_crypto E in
      \<lparr>w_room = c_room m, w_payload = c_message m, w_sender_public_key = identity_of C sk,
       w_signature =
         hex_encode C (sig_serialize C (secp_sign C (sha256 C (c_message m)) sk))\<rparr>)"

lemma signed_wire_simps [simp]:
  "w_room (signed_wire E sk m) = c_room m"
  "w_payload (signed_wire E sk m) = c_message m"
  "w_sender_public_key (signed_wire E sk m) = identity_of (env_crypto E) sk"
  by (simp_all add: signed_wire_def Let_def)

lemma signature_valid_signed_wire:
  "transport_laws E \<Longrightarrow>
   signature_valid (env_crypto E) (identity_of (env_crypto E) sk) (w_signature (signed_wire E sk m))
     (c_message m)"
  by (simp add: transport_laws_def signature_valid_def signed_wire_def Let_def identity_of_def
      crypto_lawsD)

lemma outgoing_text_Ok_iff:
  "transport_laws E \<Longrightarrow>
   outgoing_text E sk (identity_of (env_crypto E) sk) m = Ok s \<longleftrightarrow>
     ser (env_wire E) (signed_wire E sk m) = Some s"
  by (auto simp: outgoing_text_def sign_envelope_def Let_def and_then_eq_Ok hash_bytes_Ok_iff
      signed_wire_def transport_laws_def)

lemma outgoing_text_not_Panic [simp]: "outgoing_text E key pub_key m \<noteq> Panic"
  by (simp add: outgoing_text_def sign_envelope_def Let_def and_then_eq_Panic hash_bytes_def)

lemma parse_outgoing_text:
  assumes "transport_laws E" and "outgoing_text E sk (identity_of (env_crypto E) sk) m = Ok s"
  shows "do_parse_signed E s = Ok (signed_wire E sk m)" and "valid_utf8 s"
proof -
  from assms have s: "ser (env_wire E) (signed_wire E sk m) = Some s"
    by (simp add: outgoing_text_Ok_iff)
  with assms(1) show "valid_utf8 s"
    by (auto simp: transport_laws_def)
  from s assms(1) have "de (env_wire E) s = Some (signed_wire E sk m)"
    by (auto simp: transport_laws_def codec_ok_def)
  with assms(1) show "do_parse_signed E s = Ok (signed_wire E sk m)"
    by (simp add: do_parse_signed_Ok_iff signature_valid_signed_wire)
qed

lemma incoming_filter_append:
  "incoming_filter E own (xs @ ys) = incoming_filter E own xs @ incoming_filter E own ys"
  by (simp add: incoming_filter_def List.map_filter_def)

lemma incoming_filter_single:
  "incoming_filter E own [Ok s] =
     (if take_non_owned own (do_parse_signed E s) then [do_parse_signed E s] else [])"
  by (simp add: incoming_filter_def List.map_filter_def parse_signed_def)

section \<open>The contract of a transport\<close>

text \<open>
  \<open>deliver\<close> is what a subscriber receives for one request made to the broker.
\<close>

locale broadcast_channel =
  fixes outgoing :: "'sk \<Rightarrow> core_message \<Rightarrow> 'req result"
    and incoming :: "string \<Rightarrow> 'raw list \<Rightarrow> wire_message result list"
    and deliver :: "'req \<Rightarrow> 'raw"
    and wire :: "'sk \<Rightarrow> core_message \<Rightarrow> wire_message"
    and env_ok :: bool
  assumes incoming_append: "incoming own (xs @ ys) = incoming own xs @ incoming own ys"
    and incoming_sent:
    "env_ok \<Longrightarrow> outgoing sk m = Ok req \<Longrightarrow>
     incoming own [deliver req] =
       (if w_sender_public_key (wire sk m) = own then [] else [Ok (wire sk m)])"
begin

text \<open>
  A subscriber gets the messages of the others, each once, in the order of the broadcasts, and
  none of its own.
\<close>

lemma incoming_Nil: "incoming own [] = []"
  using incoming_append [of own "[]" "[]"] by simp

lemma incoming_all:
  assumes env_ok and "list_all2 (\<lambda>(sk, m) req. outgoing sk m = Ok req) sent reqs"
  shows "incoming own (map deliver reqs) =
    map Ok (filter (\<lambda>w. w_sender_public_key w \<noteq> own) (map (\<lambda>(sk, m). wire sk m) sent))"
  using assms(2)
proof (induction sent reqs rule: list_all2_induct)
  case Nil
  then show ?case by (simp add: incoming_Nil)
next
  case (Cons x xs y ys)
  obtain sk m where x: "x = (sk, m)" by (cases x)
  with Cons.hyps(1) have "incoming own [deliver y] =
      (if w_sender_public_key (wire sk m) = own then [] else [Ok (wire sk m)])"
    by (intro incoming_sent [OF assms(1)]) simp
  with Cons.IH show ?case
    using incoming_append [of own "[deliver y]" "map deliver ys"] by (simp add: x)
qed

end

text \<open>
  A POST body arrives as one server-sent message, a published text as one Redis message: the
  messenger's part of this is the theory \<open>Messenger\<close>.
\<close>

fun sse_delivery :: "http_request \<Rightarrow> sse_event option" where
  "sse_delivery (Post path message) = Some (Sse_message message)"
| "sse_delivery (Get path) = None"

fun redis_delivery :: "redis_command \<Rightarrow> string option" where
  "redis_delivery (Publish channel message) = Some message"

interpretation via_messenger: broadcast_channel "messenger_outgoing E" "messenger_incoming E"
    sse_delivery "signed_wire E" "transport_laws E"
  for E :: "('db, 'sk, 'pk, 'sg, 'lk, 'x) env_scheme"
proof (unfold_locales, goal_cases)
  case (1 own xs ys)
  show ?case
    by (simp add: messenger_incoming_def incoming_filter_append List.map_filter_def)
next
  case (2 sk m req own)
  then obtain s where "outgoing_text E sk (identity_of (env_crypto E) sk) m = Ok s"
    and "req = Post ''broadcast'' s"
    by (auto simp: messenger_outgoing_def and_then_eq_Ok sm_broadcast_def)
  with parse_outgoing_text [OF 2(1)] show ?case
    by (simp add: messenger_incoming_def sm_event_def List.map_filter_def incoming_filter_single
        take_non_owned_def from_utf8_def)
qed

interpretation via_redis: broadcast_channel "redis_outgoing E" "redis_incoming E"
    redis_delivery "signed_wire E" "transport_laws E"
  for E :: "('db, 'sk, 'pk, 'sg, 'lk, 'x) env_scheme"
proof (unfold_locales, goal_cases)
  case (1 own xs ys)
  show ?case
    by (simp add: redis_incoming_def incoming_filter_append)
next
  case (2 sk m req own)
  then obtain s where "outgoing_text E sk (identity_of (env_crypto E) sk) m = Ok s"
    and "req = Publish channel_name s"
    by (auto simp: redis_outgoing_def and_then_eq_Ok redis_broadcast_def)
  with parse_outgoing_text [OF 2(1)] show ?case
    by (simp add: redis_incoming_def redis_payload_def incoming_filter_single take_non_owned_def)
qed

end
