(* ===== verification/Msg_Utils.thy ===== *)
theory Msg_Utils
  imports Messages
begin

text \<open>
  \<open>src/src/actors/msg_utils.rs\<close>: the one-line description of a protocol message that goes into
  the log. The regular expression (crate \<open>regex\<close>) and the JSON writer are arguments.
\<close>

datatype message_round = KG1 | KG2 | KG3 | KG4 | S1 | S2 | S3 | S4 | S5 | S6 | S7 | UN_round

record msg_descriptor =
  md_sender :: u16
  md_receiver :: "u16 option"
  md_round :: message_round
  md_hash :: string

definition round_of_tag :: "string \<Rightarrow> message_round" where
  "round_of_tag tag =
     (if tag = ''Round1'' then KG1 else if tag = ''Round2'' then KG2
      else if tag = ''Round3'' then KG3 else if tag = ''Round4'' then KG4
      else if tag = ''M1'' then S1 else if tag = ''M2'' then S2
      else if tag = ''M3'' then S3 else if tag = ''M4'' then S4
      else if tag = ''M5'' then S5 else if tag = ''M6'' then S6
      else if tag = ''scalar'' then S7 else if tag = ''curve'' then S7 else UN_round)"

text \<open>
  \<open>captures body\<close> is the first group of the pattern, \<open>write\<close> is \<open>serde_json::to_string\<close> of
  the descriptor, whose error would panic. \<open>replace('\\', "")\<close> drops every backslash.
\<close>

definition describe_message ::
  "('db, 'sk, 'pk, 'sg, 'lk, 'x) env_scheme \<Rightarrow> (string \<Rightarrow> string option) \<Rightarrow>
   (msg_descriptor \<Rightarrow> string option) \<Rightarrow> string \<Rightarrow> string result" where
  "describe_message E captures write msg =
     (let hash = sha256 (env_crypto E) msg in
      case de (env_gpm E) msg of
        Some m \<Rightarrow>
          (let body = filter (\<lambda>c. c \<noteq> CHR 0x5C) (gpm_body m) in
           case captures body of
             Some tag \<Rightarrow>
               unwrap (write \<lparr>md_sender = gpm_sender m, md_receiver = gpm_receiver m,
                 md_round = round_of_tag tag, md_hash = hex_encode (env_crypto E) hash\<rparr>)
           | None \<Rightarrow> Ok [])
      | None \<Rightarrow> Ok [])"

lemma round_of_tag_simps [simp]:
  "round_of_tag ''Round1'' = KG1" "round_of_tag ''Round2'' = KG2"
  "round_of_tag ''Round3'' = KG3" "round_of_tag ''Round4'' = KG4"
  "round_of_tag ''M1'' = S1" "round_of_tag ''M2'' = S2" "round_of_tag ''M3'' = S3"
  "round_of_tag ''M4'' = S4" "round_of_tag ''M5'' = S5" "round_of_tag ''M6'' = S6"
  "round_of_tag ''scalar'' = S7" "round_of_tag ''curve'' = S7"
  by (simp_all add: round_of_tag_def)

lemma describe_message_total:
  "(\<And>d. write d \<noteq> None) \<Longrightarrow> \<exists>s. describe_message E captures write msg = Ok s"
  by (auto simp: describe_message_def Let_def split: option.splits)

end
