(* ===== verification/Player.thy ===== *)
theory Player
  imports Messages
begin

text \<open>
  \<open>src/src/actors/player.rs\<close>: the actor \<open>MpcPlayer\<close>, which drives one state machine of the
  \<open>round_based\<close> crate (key generation, or the offline stage of signing). The state machine is an
  argument, the record \<open>sm_api\<close>. What an actor sends is appended to the field \<open>pl_out\<close>.
\<close>

section \<open>State machines\<close>

text \<open>
  The trait \<open>StateMachine\<close>. \<open>message_queue\<close> gives access to a vector inside the machine:
  \<open>sm_queue\<close> reads it and \<open>sm_drained\<close> is the machine after \<open>drain(..)\<close>. \<open>sm_msg_ser\<close> is
  \<open>serde_json::to_string\<close> of a message. Errors are \<open>Inl\<close>.
\<close>

record ('sm, 'm, 'o) sm_api =
  sm_handle_incoming :: "'sm \<Rightarrow> 'm msg \<Rightarrow> 'sm \<times> (sm_error + unit)"
  sm_wants_to_proceed :: "'sm \<Rightarrow> bool"
  sm_proceed :: "'sm \<Rightarrow> 'sm \<times> (sm_error + unit)"
  sm_queue :: "'sm \<Rightarrow> 'm msg list"
  sm_drained :: "'sm \<Rightarrow> 'sm"
  sm_is_finished :: "'sm \<Rightarrow> bool"
  sm_pick_output :: "'sm \<Rightarrow> 'sm \<times> (sm_error + 'o) option"
  sm_current_round :: "'sm \<Rightarrow> u16"
  sm_round_timeout :: "'sm \<Rightarrow> nat option"
  sm_msg_ser :: "'m msg \<Rightarrow> string option"

section \<open>The actor\<close>

text \<open>
  What a player does to the outside: messages to the coordinator in its three roles, the initial
  notification to itself, and a timer in milliseconds.
\<close>

datatype ('i, 'm, 'o) player_out =
    To_coordinator "'m incoming_message protocol_error"
  | To_broker coordinator_message
  | To_collector "('i, 'o) protocol_output"
  | Notify_maybe_proceed
  | Later_maybe_proceed nat

record ('i, 'sm, 'm, 'o) player =
  pl_input :: 'i
  pl_room :: string
  pl_index :: u16
  pl_msg_count :: u16
  pl_state :: 'sm
  pl_deadline :: "nat option"
  pl_current_round :: "u16 option"
  pl_out :: "('i, 'm, 'o) player_out list"

definition player_new ::
  "'i \<Rightarrow> string \<Rightarrow> u16 \<Rightarrow> 'sm \<Rightarrow> ('i, 'sm, 'm, 'o) player" where
  "player_new input room index state =
     \<lparr>pl_input = input, pl_room = room, pl_index = index, pl_msg_count = 0, pl_state = state,
      pl_deadline = None, pl_current_round = None, pl_out = []\<rparr>"

definition player_emit ::
  "('i, 'm, 'o) player_out list \<Rightarrow> ('i, 'sm, 'm, 'o) player \<Rightarrow> ('i, 'sm, 'm, 'o) player" where
  "player_emit es p = p\<lparr>pl_out := pl_out p @ es\<rparr>"

definition player_started :: "('i, 'sm, 'm, 'o) player \<Rightarrow> ('i, 'sm, 'm, 'o) player" where
  "player_started p = player_emit [Notify_maybe_proceed] p"

definition send_error ::
  "sm_error \<Rightarrow> 'm msg incoming_message \<Rightarrow> ('i, 'sm, 'm msg, 'o) player \<Rightarrow>
   ('i, 'sm, 'm msg, 'o) player" where
  "send_error error message p =
     player_emit
       [To_coordinator \<lparr>pe_room = pl_room p, pe_error = error, pe_message = message\<rparr>] p"

definition player_handle_incoming ::
  "('sm, 'm, 'o) sm_api \<Rightarrow> 'm msg incoming_message \<Rightarrow> ('i, 'sm, 'm msg, 'o) player \<Rightarrow>
   ('i, 'sm, 'm msg, 'o) player" where
  "player_handle_incoming SM msg p =
     (case sm_handle_incoming SM (pl_state p) (im_message msg) of
        (sm, Inr _) \<Rightarrow> p\<lparr>pl_state := sm\<rparr>
      | (sm, Inl e) \<Rightarrow> send_error e msg (p\<lparr>pl_state := sm\<rparr>))"

definition proceed_if_needed ::
  "('sm, 'm, 'o) sm_api \<Rightarrow> ('i, 'sm, 'm msg, 'o) player \<Rightarrow>
   ('i, 'sm, 'm msg, 'o) player \<times> (sm_error + unit)" where
  "proceed_if_needed SM p =
     (if sm_wants_to_proceed SM (pl_state p)
      then (case sm_proceed SM (pl_state p) of (sm, r) \<Rightarrow> (p\<lparr>pl_state := sm\<rparr>, r))
      else (p, Inr ()))"

definition send_outgoing ::
  "('sm, 'm, 'o) sm_api \<Rightarrow> ('i, 'sm, 'm msg, 'o) player \<Rightarrow> ('i, 'sm, 'm msg, 'o) player" where
  "send_outgoing SM p =
     player_emit
       (map (\<lambda>serialized. To_broker (Outgoing \<lparr>c_room = pl_room p, c_message = serialized\<rparr>))
         (List.map_filter (sm_msg_ser SM) (sm_queue SM (pl_state p))))
       (p\<lparr>pl_state := sm_drained SM (pl_state p)\<rparr>)"

definition send_result ::
  "'o \<Rightarrow> ('i, 'sm, 'm msg, 'o) player \<Rightarrow> ('i, 'sm, 'm msg, 'o) player" where
  "send_result r p = player_emit [To_collector \<lparr>po_input = pl_input p, po_output = r\<rparr>] p"

definition finish_if_possible ::
  "('sm, 'm, 'o) sm_api \<Rightarrow> ('i, 'sm, 'm msg, 'o) player \<Rightarrow>
   ('i, 'sm, 'm msg, 'o) player \<times> (sm_error + unit)" where
  "finish_if_possible SM p =
     (if sm_is_finished SM (pl_state p)
      then (case sm_pick_output SM (pl_state p) of
              (sm, Some (Inr r)) \<Rightarrow> (send_result r (p\<lparr>pl_state := sm\<rparr>), Inr ())
            | (sm, Some (Inl e)) \<Rightarrow> (p\<lparr>pl_state := sm\<rparr>, Inl e)
            | (sm, None) \<Rightarrow> (p\<lparr>pl_state := sm\<rparr>, Inr ()))
      else (p, Inr ()))"

text \<open>\<open>now\<close> is the clock read by \<open>Instant::now()\<close>.\<close>

definition refresh_timer ::
  "('sm, 'm, 'o) sm_api \<Rightarrow> nat \<Rightarrow> ('i, 'sm, 'm msg, 'o) player \<Rightarrow> ('i, 'sm, 'm msg, 'o) player" where
  "refresh_timer SM now p =
     (let round_n = sm_current_round SM (pl_state p) in
      if pl_current_round p \<noteq> Some round_n
      then p\<lparr>pl_current_round := Some round_n,
             pl_deadline := map_option (\<lambda>timeout. now + timeout)
               (sm_round_timeout SM (pl_state p))\<rparr>
      else p)"

definition maybe_proceed ::
  "('sm, 'm, 'o) sm_api \<Rightarrow> nat \<Rightarrow> ('i, 'sm, 'm msg, 'o) player \<Rightarrow>
   ('i, 'sm, 'm msg, 'o) player \<times> (sm_error + unit)" where
  "maybe_proceed SM now p =
     (case proceed_if_needed SM (refresh_timer SM now (send_outgoing SM p)) of
        (p', Inl e) \<Rightarrow> (p', Inl e)
      | (p', Inr _) \<Rightarrow>
          (fst (finish_if_possible SM (refresh_timer SM now (send_outgoing SM p'))), Inr ()))"

text \<open>
  The handler of \<open>IncomingMessage\<close>. \<open>msg_count += 1\<close> wraps in a release build.
\<close>

definition valid_receiver :: "u16 \<Rightarrow> 'm msg \<Rightarrow> bool" where
  "valid_receiver index m =
     (case m_receiver m of Some i \<Rightarrow> \<not> (i \<noteq> index) | None \<Rightarrow> True)"

text \<open>\<open>if let Err(e) = self.maybe_proceed(ctx) { self.send_error(e, msg.clone()) }\<close>\<close>

definition report_error ::
  "'m msg incoming_message \<Rightarrow> ('i, 'sm, 'm msg, 'o) player \<times> (sm_error + unit) \<Rightarrow>
   ('i, 'sm, 'm msg, 'o) player" where
  "report_error msg r =
     (case r of (p', Inl e) \<Rightarrow> send_error e msg p' | (p', Inr _) \<Rightarrow> p')"

definition player_handle_message ::
  "('sm, 'm, 'o) sm_api \<Rightarrow> nat \<Rightarrow> 'm msg incoming_message \<Rightarrow> ('i, 'sm, 'm msg, 'o) player \<Rightarrow>
   ('i, 'sm, 'm msg, 'o) player" where
  "player_handle_message SM now msg p =
     (if m_sender (im_message msg) = pl_index p then p
      else if \<not> valid_receiver (pl_index p) (im_message msg) then p
      else
        report_error msg
          (maybe_proceed SM now
            (player_handle_incoming SM msg (p\<lparr>pl_msg_count := pl_msg_count p + 1\<rparr>))))"

text \<open>The handler of \<open>MaybeProceed\<close>: poll every 250 ms until the first message has arrived.\<close>

definition player_handle_maybe_proceed ::
  "('sm, 'm, 'o) sm_api \<Rightarrow> nat \<Rightarrow> ('i, 'sm, 'm msg, 'o) player \<Rightarrow>
   ('i, 'sm, 'm msg, 'o) player" where
  "player_handle_maybe_proceed SM now p =
     (if pl_msg_count p = 0
      then player_emit [Later_maybe_proceed 250] (fst (maybe_proceed SM now p))
      else p)"

section \<open>Runs of a player\<close>

datatype 'm player_event = Arrived "'m msg incoming_message" nat | Polled nat

fun player_step ::
  "('sm, 'm, 'o) sm_api \<Rightarrow> ('i, 'sm, 'm msg, 'o) player \<Rightarrow> 'm player_event \<Rightarrow>
   ('i, 'sm, 'm msg, 'o) player" where
  "player_step SM p (Arrived msg now) = player_handle_message SM now msg p"
| "player_step SM p (Polled now) = player_handle_maybe_proceed SM now p"

definition player_run ::
  "('sm, 'm, 'o) sm_api \<Rightarrow> ('i, 'sm, 'm msg, 'o) player \<Rightarrow> 'm player_event list \<Rightarrow>
   ('i, 'sm, 'm msg, 'o) player" where
  "player_run SM p es = fold (\<lambda>e q. player_step SM q e) es p"

text \<open>The messages a player takes into account: not its own, and addressed to it or to all.\<close>

definition accepts :: "u16 \<Rightarrow> 'm msg \<Rightarrow> bool" where
  "accepts index m \<longleftrightarrow> m_sender m \<noteq> index \<and> (m_receiver m = None \<or> m_receiver m = Some index)"

lemma valid_receiver_iff: "valid_receiver i m \<longleftrightarrow> m_receiver m = None \<or> m_receiver m = Some i"
  by (auto simp: valid_receiver_def split: option.splits)

lemma player_handle_message_ignored:
  "\<not> accepts (pl_index p) (im_message msg) \<Longrightarrow> player_handle_message SM now msg p = p"
  by (auto simp: player_handle_message_def accepts_def valid_receiver_iff)

subsection \<open>Frames: what each operation leaves alone\<close>

definition player_frame ::
  "('i, 'sm, 'm, 'o) player \<Rightarrow> ('i, 'sm, 'm, 'o) player \<Rightarrow> bool" where
  "player_frame p q \<longleftrightarrow> pl_input q = pl_input p \<and> pl_room q = pl_room p \<and> pl_index q = pl_index p"

lemma player_frame_refl [simp, intro]: "player_frame p p"
  by (simp add: player_frame_def)

lemma player_frame_trans [trans]: "player_frame p q \<Longrightarrow> player_frame q r \<Longrightarrow> player_frame p r"
  by (simp add: player_frame_def)

lemma player_emit_simps [simp]:
  "pl_input (player_emit es p) = pl_input p" "pl_room (player_emit es p) = pl_room p"
  "pl_index (player_emit es p) = pl_index p" "pl_msg_count (player_emit es p) = pl_msg_count p"
  "pl_state (player_emit es p) = pl_state p" "pl_out (player_emit es p) = pl_out p @ es"
  "pl_deadline (player_emit es p) = pl_deadline p"
  "pl_current_round (player_emit es p) = pl_current_round p"
  by (simp_all add: player_emit_def)

text \<open>The messages of a queue, as they go to the broker.\<close>

definition queue_out ::
  "('sm, 'm, 'o) sm_api \<Rightarrow> string \<Rightarrow> 'sm \<Rightarrow> ('i, 'm msg, 'o) player_out list" where
  "queue_out SM room s =
     map (\<lambda>serialized. To_broker (Outgoing \<lparr>c_room = room, c_message = serialized\<rparr>))
       (List.map_filter (sm_msg_ser SM) (sm_queue SM s))"

lemma send_outgoing_simps [simp]:
  "pl_input (send_outgoing SM p) = pl_input p" "pl_room (send_outgoing SM p) = pl_room p"
  "pl_index (send_outgoing SM p) = pl_index p"
  "pl_msg_count (send_outgoing SM p) = pl_msg_count p"
  "pl_state (send_outgoing SM p) = sm_drained SM (pl_state p)"
  "pl_out (send_outgoing SM p) = pl_out p @ queue_out SM (pl_room p) (pl_state p)"
  by (simp_all add: send_outgoing_def queue_out_def)

lemma refresh_timer_simps [simp]:
  "pl_input (refresh_timer SM now p) = pl_input p" "pl_room (refresh_timer SM now p) = pl_room p"
  "pl_index (refresh_timer SM now p) = pl_index p"
  "pl_msg_count (refresh_timer SM now p) = pl_msg_count p"
  "pl_state (refresh_timer SM now p) = pl_state p"
  "pl_out (refresh_timer SM now p) = pl_out p"
  by (simp_all add: refresh_timer_def Let_def)

lemma send_error_simps [simp]:
  "pl_input (send_error e m p) = pl_input p" "pl_room (send_error e m p) = pl_room p"
  "pl_index (send_error e m p) = pl_index p" "pl_msg_count (send_error e m p) = pl_msg_count p"
  "pl_state (send_error e m p) = pl_state p"
  "pl_out (send_error e m p) =
     pl_out p @ [To_coordinator \<lparr>pe_room = pl_room p, pe_error = e, pe_message = m\<rparr>]"
  by (simp_all add: send_error_def)

lemma proceed_if_needed_simps [simp]:
  "pl_input (fst (proceed_if_needed SM p)) = pl_input p"
  "pl_room (fst (proceed_if_needed SM p)) = pl_room p"
  "pl_index (fst (proceed_if_needed SM p)) = pl_index p"
  "pl_msg_count (fst (proceed_if_needed SM p)) = pl_msg_count p"
  "pl_out (fst (proceed_if_needed SM p)) = pl_out p"
  by (simp_all add: proceed_if_needed_def split: prod.splits)

text \<open>The state machine after \<open>proceed_if_needed\<close>, and its result.\<close>

definition sm_step :: "('sm, 'm, 'o) sm_api \<Rightarrow> 'sm \<Rightarrow> 'sm \<times> (sm_error + unit)" where
  "sm_step SM s = (if sm_wants_to_proceed SM s then sm_proceed SM s else (s, Inr ()))"

lemma proceed_if_needed_sm_step:
  "pl_state (fst (proceed_if_needed SM p)) = fst (sm_step SM (pl_state p))"
  "snd (proceed_if_needed SM p) = snd (sm_step SM (pl_state p))"
  by (simp_all add: proceed_if_needed_def sm_step_def split: prod.splits)

text \<open>The output that \<open>finish_if_possible\<close> hands on.\<close>

definition sm_result :: "('sm, 'm, 'o) sm_api \<Rightarrow> 'sm \<Rightarrow> 'o option" where
  "sm_result SM s =
     (if sm_is_finished SM s
      then (case snd (sm_pick_output SM s) of Some (Inr r) \<Rightarrow> Some r | _ \<Rightarrow> None) else None)"

definition result_out :: "'i \<Rightarrow> 'o option \<Rightarrow> ('i, 'm, 'o) player_out list" where
  "result_out input r =
     (case r of None \<Rightarrow> [] | Some o' \<Rightarrow> [To_collector \<lparr>po_input = input, po_output = o'\<rparr>])"

lemma finish_if_possible_simps [simp]:
  "pl_input (fst (finish_if_possible SM p)) = pl_input p"
  "pl_room (fst (finish_if_possible SM p)) = pl_room p"
  "pl_index (fst (finish_if_possible SM p)) = pl_index p"
  "pl_msg_count (fst (finish_if_possible SM p)) = pl_msg_count p"
  "pl_out (fst (finish_if_possible SM p)) =
     pl_out p @ result_out (pl_input p) (sm_result SM (pl_state p))"
  by (simp_all add: finish_if_possible_def send_result_def sm_result_def result_out_def
      split: prod.splits option.splits sum.splits)

subsection \<open>One round of \<open>maybe_proceed\<close>\<close>

text \<open>
  Exactly this is sent: what was queued; after a successful \<open>proceed\<close> what that queued; then the
  result. A failed \<open>proceed\<close> stops after the first part.
\<close>

definition proceed_out ::
  "('sm, 'm, 'o) sm_api \<Rightarrow> 'i \<Rightarrow> string \<Rightarrow> 'sm \<Rightarrow> ('i, 'm msg, 'o) player_out list" where
  "proceed_out SM input room s =
     queue_out SM room s @
     (case sm_step SM (sm_drained SM s) of
        (s', Inl e) \<Rightarrow> []
      | (s', Inr _) \<Rightarrow>
          queue_out SM room s' @ result_out input (sm_result SM (sm_drained SM s')))"

lemma maybe_proceed_simps [simp]:
  "pl_input (fst (maybe_proceed SM now p)) = pl_input p"
  "pl_room (fst (maybe_proceed SM now p)) = pl_room p"
  "pl_index (fst (maybe_proceed SM now p)) = pl_index p"
  "pl_msg_count (fst (maybe_proceed SM now p)) = pl_msg_count p"
  "pl_out (fst (maybe_proceed SM now p)) =
     pl_out p @ proceed_out SM (pl_input p) (pl_room p) (pl_state p)"
  "snd (maybe_proceed SM now p) = snd (sm_step SM (sm_drained SM (pl_state p)))"
proof -
  let ?p1 = "refresh_timer SM now (send_outgoing SM p)"
  obtain p' r where pr: "proceed_if_needed SM ?p1 = (p', r)"
    by (cases "proceed_if_needed SM ?p1")
  have f: "pl_input p' = pl_input p" "pl_room p' = pl_room p" "pl_index p' = pl_index p"
    "pl_msg_count p' = pl_msg_count p"
    "pl_out p' = pl_out p @ queue_out SM (pl_room p) (pl_state p)"
    using proceed_if_needed_simps [of SM ?p1] by (simp_all add: pr)
  have st: "sm_step SM (sm_drained SM (pl_state p)) = (pl_state p', r)"
    using proceed_if_needed_sm_step [of SM ?p1] by (simp add: pr prod_eq_iff)
  show "pl_input (fst (maybe_proceed SM now p)) = pl_input p"
    "pl_room (fst (maybe_proceed SM now p)) = pl_room p"
    "pl_index (fst (maybe_proceed SM now p)) = pl_index p"
    "pl_msg_count (fst (maybe_proceed SM now p)) = pl_msg_count p"
    "pl_out (fst (maybe_proceed SM now p)) =
       pl_out p @ proceed_out SM (pl_input p) (pl_room p) (pl_state p)"
    "snd (maybe_proceed SM now p) = snd (sm_step SM (sm_drained SM (pl_state p)))"
    by (simp_all add: maybe_proceed_def pr f st proceed_out_def split: sum.splits)
qed

subsection \<open>One message\<close>

definition error_out ::
  "string \<Rightarrow> 'm msg incoming_message \<Rightarrow> sm_error + 'a \<Rightarrow> ('i, 'm msg, 'o) player_out list" where
  "error_out room msg r =
     (case r of
        Inl e \<Rightarrow> [To_coordinator \<lparr>pe_room = room, pe_error = e, pe_message = msg\<rparr>]
      | Inr _ \<Rightarrow> [])"

lemma player_handle_incoming_simps [simp]:
  "pl_input (player_handle_incoming SM msg p) = pl_input p"
  "pl_room (player_handle_incoming SM msg p) = pl_room p"
  "pl_index (player_handle_incoming SM msg p) = pl_index p"
  "pl_msg_count (player_handle_incoming SM msg p) = pl_msg_count p"
  "pl_state (player_handle_incoming SM msg p) =
     fst (sm_handle_incoming SM (pl_state p) (im_message msg))"
  "pl_out (player_handle_incoming SM msg p) =
     pl_out p @ error_out (pl_room p) msg (snd (sm_handle_incoming SM (pl_state p) (im_message msg)))"
  by (simp_all add: player_handle_incoming_def error_out_def split: prod.splits sum.splits)

lemma report_error_simps [simp]:
  "pl_input (report_error msg r) = pl_input (fst r)"
  "pl_room (report_error msg r) = pl_room (fst r)"
  "pl_index (report_error msg r) = pl_index (fst r)"
  "pl_msg_count (report_error msg r) = pl_msg_count (fst r)"
  "pl_out (report_error msg r) = pl_out (fst r) @ error_out (pl_room (fst r)) msg (snd r)"
  by (simp_all add: report_error_def error_out_def split: prod.splits sum.splits)

lemma player_handle_message_simps:
  "pl_input (player_handle_message SM now msg p) = pl_input p"
  "pl_room (player_handle_message SM now msg p) = pl_room p"
  "pl_index (player_handle_message SM now msg p) = pl_index p"
  "pl_msg_count (player_handle_message SM now msg p) =
     (if accepts (pl_index p) (im_message msg) then pl_msg_count p + 1 else pl_msg_count p)"
  by (auto simp: player_handle_message_def accepts_def valid_receiver_iff)

lemma player_handle_message_out:
  assumes "accepts (pl_index p) (im_message msg)"
    and "s = fst (sm_handle_incoming SM (pl_state p) (im_message msg))"
  shows "pl_out (player_handle_message SM now msg p) =
    pl_out p @
    error_out (pl_room p) msg (snd (sm_handle_incoming SM (pl_state p) (im_message msg))) @
    proceed_out SM (pl_input p) (pl_room p) s @
    error_out (pl_room p) msg (snd (sm_step SM (sm_drained SM s)))"
  using assms by (simp add: player_handle_message_def accepts_def valid_receiver_iff)

lemma player_handle_maybe_proceed_simps:
  "pl_input (player_handle_maybe_proceed SM now p) = pl_input p"
  "pl_room (player_handle_maybe_proceed SM now p) = pl_room p"
  "pl_index (player_handle_maybe_proceed SM now p) = pl_index p"
  "pl_msg_count (player_handle_maybe_proceed SM now p) = pl_msg_count p"
  "pl_out (player_handle_maybe_proceed SM now p) =
     (if pl_msg_count p = 0
      then pl_out p @ proceed_out SM (pl_input p) (pl_room p) (pl_state p) @ [Later_maybe_proceed 250]
      else pl_out p)"
  by (simp_all add: player_handle_maybe_proceed_def)

subsection \<open>Invariants of runs\<close>

text \<open>
  Everything a player sends carries its own room and request; its timer is always 250 ms.
\<close>

fun well_addressed :: "'i \<Rightarrow> string \<Rightarrow> ('i, 'm, 'o) player_out \<Rightarrow> bool" where
  "well_addressed input room (To_coordinator e) = (pe_room e = room)"
| "well_addressed input room (To_broker (Outgoing c)) = (c_room c = room)"
| "well_addressed input room (To_broker c) = False"
| "well_addressed input room (To_collector r) = (po_input r = input)"
| "well_addressed input room Notify_maybe_proceed = True"
| "well_addressed input room (Later_maybe_proceed ms) = (ms = 250)"

definition player_inv :: "('i, 'sm, 'm, 'o) player \<Rightarrow> bool" where
  "player_inv p \<longleftrightarrow> list_all (well_addressed (pl_input p) (pl_room p)) (pl_out p)"

lemma list_all_queue_out [simp]: "list_all (well_addressed input room) (queue_out SM room s)"
  by (simp add: queue_out_def list_all_iff)

lemma list_all_result_out [simp]: "list_all (well_addressed input room) (result_out input r)"
  by (simp add: result_out_def split: option.splits)

lemma list_all_error_out [simp]: "list_all (well_addressed input room) (error_out room msg r)"
  by (simp add: error_out_def split: sum.splits)

lemma list_all_proceed_out [simp]:
  "list_all (well_addressed input room) (proceed_out SM input room s)"
  by (simp add: proceed_out_def split: prod.splits sum.splits)

lemma player_step_frame: "player_frame p (player_step SM p e)"
  by (cases e) (simp_all add: player_frame_def player_handle_message_simps
      player_handle_maybe_proceed_simps)

lemma player_step_inv:
  assumes "player_inv p" shows "player_inv (player_step SM p e)"
proof (cases e)
  case (Arrived msg now)
  show ?thesis
  proof (cases "accepts (pl_index p) (im_message msg)")
    case True
    with assms Arrived show ?thesis
      by (simp add: player_inv_def player_handle_message_simps player_handle_message_out [OF True refl])
  next
    case False
    with assms Arrived show ?thesis by (simp add: player_handle_message_ignored)
  qed
next
  case (Polled now)
  with assms show ?thesis
    by (simp add: player_inv_def player_handle_maybe_proceed_simps)
qed

lemma player_run_Nil [simp]: "player_run SM p [] = p"
  by (simp add: player_run_def)

lemma player_run_Cons [simp]: "player_run SM p (e # es) = player_run SM (player_step SM p e) es"
  by (simp add: player_run_def)

lemma player_run_frame: "player_frame p (player_run SM p es)"
proof (induction es arbitrary: p)
  case (Cons e es)
  from player_step_frame [of p SM e] Cons.IH [of "player_step SM p e"] show ?case
    by (simp add: player_frame_def)
qed simp

lemma player_run_inv: "player_inv p \<Longrightarrow> player_inv (player_run SM p es)"
  by (induction es arbitrary: p) (simp_all add: player_step_inv)

lemma player_inv_started [simp]: "player_inv (player_started (player_new input room index sm))"
  by (simp add: player_inv_def player_started_def player_new_def player_emit_def)

text \<open>The number of accepted messages in a run.\<close>

fun accepted_event :: "u16 \<Rightarrow> 'm player_event \<Rightarrow> bool" where
  "accepted_event i (Arrived msg now) = accepts i (im_message msg)"
| "accepted_event i (Polled now) = False"

lemma player_run_msg_count:
  "pl_msg_count (player_run SM p es) =
     pl_msg_count p + of_nat (length (filter (accepted_event (pl_index p)) es))"
proof (induction es arbitrary: p)
  case (Cons e es)
  have "pl_msg_count (player_step SM p e) =
      pl_msg_count p + (if accepted_event (pl_index p) e then 1 else 0)"
    by (cases e) (simp_all add: player_handle_message_simps player_handle_maybe_proceed_simps)
  moreover have "pl_index (player_step SM p e) = pl_index p"
    using player_step_frame [of p SM e] by (simp add: player_frame_def)
  ultimately show ?case
    using Cons.IH [of "player_step SM p e"] by (simp add: algebra_simps)
qed simp

lemma polling_stopped: "pl_msg_count p \<noteq> 0 \<Longrightarrow> player_step SM p (Polled now) = p"
  by (simp add: player_handle_maybe_proceed_def)

end
