(* ===== verification/Signer.thy ===== *)
theory Signer
  imports Messages
begin

text \<open>
  \<open>src/src/actors/signer.rs\<close>: the actor that broadcasts its own partial signature, collects those
  of the others and completes the signature. \<open>SignManual\<close> of the \<open>multi-party-ecdsa\<close> crate is an
  argument, the record \<open>sign_api\<close>. What the actor sends is appended to \<open>sn_out\<close>.
\<close>

section \<open>The actor\<close>

text \<open>
  \<open>manual_new\<close> and \<open>manual_complete\<close> are \<open>SignManual::new\<close> and \<open>SignManual::complete\<close>;
  \<open>ps_ser\<close> is \<open>serde_json::to_string\<close> of a message with a partial signature.
\<close>

record ('cos, 'man, 'ps) sign_api =
  manual_new :: "int \<Rightarrow> 'cos \<Rightarrow> ('man \<times> 'ps) option"
  manual_complete :: "'man \<Rightarrow> 'ps list \<Rightarrow> signature_recid option"
  ps_ser :: "'ps msg \<Rightarrow> string option"

datatype 'i signer_out =
    Signer_outgoing core_message
  | Signer_result "('i, signature_recid) protocol_output"

record ('i, 'cos, 'ps) signer =
  sn_input :: 'i
  sn_task :: "'cos sign_task"
  sn_partial_sigs :: "'ps list"
  sn_out :: "'i signer_out list"

definition signer_new :: "'i \<Rightarrow> 'cos sign_task \<Rightarrow> ('i, 'cos, 'ps) signer" where
  "signer_new input task =
     \<lparr>sn_input = input, sn_task = task, sn_partial_sigs = [], sn_out = []\<rparr>"

definition send_my_partial_signature ::
  "('cos, 'man, 'ps) sign_api \<Rightarrow> ('i, 'cos, 'ps) signer \<Rightarrow> ('i, 'cos, 'ps) signer \<times> unit result" where
  "send_my_partial_signature SA s =
     (case manual_new SA (st_message (sn_task s)) (st_completed_offline_stage (sn_task s)) of
        None \<Rightarrow> (s, Err ''SignManual'')
      | Some (_, partial_sig) \<Rightarrow>
          (case ps_ser SA \<lparr>m_sender = st_index (sn_task s), m_receiver = None,
                m_body = partial_sig\<rparr> of
             Some serialized \<Rightarrow>
               (s\<lparr>sn_out := sn_out s @ [Signer_outgoing
                    \<lparr>c_room = st_room (sn_task s), c_message = serialized\<rparr>]\<rparr>, Ok ())
           | None \<Rightarrow> (s, Ok ())))"

definition signer_finish_if_possible ::
  "('cos, 'man, 'ps) sign_api \<Rightarrow> ('i, 'cos, 'ps) signer \<Rightarrow> ('i, 'cos, 'ps) signer \<times> unit result" where
  "signer_finish_if_possible SA s =
     (case manual_new SA (st_message (sn_task s)) (st_completed_offline_stage (sn_task s)) of
        None \<Rightarrow> (s, Err ''SignManual'')
      | Some (state, _) \<Rightarrow>
          (if length (sn_partial_sigs s) = unat (st_t (sn_task s))
           then (case manual_complete SA state (sn_partial_sigs s) of
                   Some signature \<Rightarrow>
                     (s\<lparr>sn_out := sn_out s @ [Signer_result
                          \<lparr>po_input = sn_input s, po_output = signature\<rparr>]\<rparr>, Ok ())
                 | None \<Rightarrow> (s, Ok ()))
           else (s, Ok ())))"

definition signer_started ::
  "('cos, 'man, 'ps) sign_api \<Rightarrow> ('i, 'cos, 'ps) signer \<Rightarrow> ('i, 'cos, 'ps) signer" where
  "signer_started SA s = fst (send_my_partial_signature SA s)"

definition signer_handle ::
  "('cos, 'man, 'ps) sign_api \<Rightarrow> 'ps msg incoming_message \<Rightarrow> ('i, 'cos, 'ps) signer \<Rightarrow>
   ('i, 'cos, 'ps) signer" where
  "signer_handle SA msg s =
     (if m_sender (im_message msg) = st_index (sn_task s) then s
      else fst (signer_finish_if_possible SA
             (s\<lparr>sn_partial_sigs := sn_partial_sigs s @ [m_body (im_message msg)]\<rparr>)))"

section \<open>What a signer sends over a whole run\<close>

definition signer_run ::
  "('cos, 'man, 'ps) sign_api \<Rightarrow> ('i, 'cos, 'ps) signer \<Rightarrow> 'ps msg incoming_message list \<Rightarrow>
   ('i, 'cos, 'ps) signer" where
  "signer_run SA s msgs = fold (signer_handle SA) msgs s"

text \<open>The partial signatures that count: every message whose claimed sender is another party.\<close>

definition foreign_sigs :: "u16 \<Rightarrow> 'ps msg incoming_message list \<Rightarrow> 'ps list" where
  "foreign_sigs index msgs =
     map (\<lambda>m. m_body (im_message m)) (filter (\<lambda>m. m_sender (im_message m) \<noteq> index) msgs)"

text \<open>
  The abstract signer: once the \<open>t\<close>-th foreign partial signature is there, complete with the
  first \<open>t\<close> of them, once.
\<close>

definition spec_signature ::
  "('cos, 'man, 'ps) sign_api \<Rightarrow> 'cos sign_task \<Rightarrow> 'ps list \<Rightarrow> signature_recid option" where
  "spec_signature SA task sigs =
     (let t = unat (st_t task) in
      if 0 < t \<and> t \<le> length sigs
      then Option.bind (manual_new SA (st_message task) (st_completed_offline_stage task))
             (\<lambda>(state, _). manual_complete SA state (take t sigs))
      else None)"

definition spec_results ::
  "('cos, 'man, 'ps) sign_api \<Rightarrow> 'i \<Rightarrow> 'cos sign_task \<Rightarrow> 'ps list \<Rightarrow> 'i signer_out list" where
  "spec_results SA input task sigs =
     (case spec_signature SA task sigs of
        None \<Rightarrow> []
      | Some sg \<Rightarrow> [Signer_result \<lparr>po_input = input, po_output = sg\<rparr>])"

lemma spec_results_Nil [simp]: "spec_results SA input task [] = []"
proof -
  have "spec_signature SA task [] = None"
    unfolding spec_signature_def Let_def by auto
  then show ?thesis by (simp add: spec_results_def)
qed

text \<open>Adding one more signature extends the abstract result exactly when it is the \<open>t\<close>-th.\<close>

lemma spec_results_snoc:
  "spec_results SA input task (sigs @ [x]) =
     spec_results SA input task sigs @
     (if Suc (length sigs) = unat (st_t task)
      then (case Option.bind (manual_new SA (st_message task) (st_completed_offline_stage task))
               (\<lambda>(state, _). manual_complete SA state (sigs @ [x])) of
              None \<Rightarrow> []
            | Some sg \<Rightarrow> [Signer_result \<lparr>po_input = input, po_output = sg\<rparr>])
      else [])"
  by (auto simp: spec_results_def spec_signature_def Let_def)

lemma signer_handle_fields [simp]:
  "sn_input (signer_handle SA msg s) = sn_input s"
  "sn_task (signer_handle SA msg s) = sn_task s"
  "sn_partial_sigs (signer_handle SA msg s) =
     sn_partial_sigs s @ foreign_sigs (st_index (sn_task s)) [msg]"
  by (auto simp: signer_handle_def signer_finish_if_possible_def foreign_sigs_def
      split: option.splits prod.splits)

lemma signer_handle_out:
  "sn_out (signer_handle SA msg s) =
     sn_out s @
     (if m_sender (im_message msg) \<noteq> st_index (sn_task s) \<and>
         Suc (length (sn_partial_sigs s)) = unat (st_t (sn_task s))
      then (case Option.bind (manual_new SA (st_message (sn_task s))
                 (st_completed_offline_stage (sn_task s)))
               (\<lambda>(state, _). manual_complete SA state
                 (sn_partial_sigs s @ [m_body (im_message msg)])) of
              None \<Rightarrow> []
            | Some sg \<Rightarrow> [Signer_result \<lparr>po_input = sn_input s, po_output = sg\<rparr>])
      else [])"
  by (auto simp: signer_handle_def signer_finish_if_possible_def split: option.splits prod.splits)

lemma signer_run_snoc: "signer_run SA s (msgs @ [m]) = signer_handle SA m (signer_run SA s msgs)"
  by (simp add: signer_run_def)

lemma foreign_sigs_append: "foreign_sigs i (xs @ ys) = foreign_sigs i xs @ foreign_sigs i ys"
  by (simp add: foreign_sigs_def)

lemma signer_run_fields:
  "sn_input (signer_run SA s msgs) = sn_input s \<and> sn_task (signer_run SA s msgs) = sn_task s \<and>
   sn_partial_sigs (signer_run SA s msgs) =
     sn_partial_sigs s @ foreign_sigs (st_index (sn_task s)) msgs"
proof (induction msgs rule: rev_induct)
  case Nil
  then show ?case by (simp add: signer_run_def foreign_sigs_def)
next
  case (snoc m msgs)
  then show ?case by (simp add: signer_run_snoc foreign_sigs_append)
qed

lemma signer_run_out:
  assumes "sn_partial_sigs s = []"
  shows "sn_out (signer_run SA s msgs) =
    sn_out s @ spec_results SA (sn_input s) (sn_task s) (foreign_sigs (st_index (sn_task s)) msgs)"
proof (induction msgs rule: rev_induct)
  case Nil
  then show ?case
    by (simp add: signer_run_def foreign_sigs_def)
next
  case (snoc m msgs)
  show ?case
    using signer_run_fields [of SA s msgs] snoc assms
    by (simp add: signer_run_snoc signer_handle_out foreign_sigs_append spec_results_snoc
        foreign_sigs_def split: option.split)
qed

lemma signer_started_fields [simp]:
  "sn_input (signer_started SA s) = sn_input s" "sn_task (signer_started SA s) = sn_task s"
  "sn_partial_sigs (signer_started SA s) = sn_partial_sigs s"
  by (simp_all add: signer_started_def send_my_partial_signature_def
      split: option.splits prod.splits)

lemma spec_results_at_most_one: "length (spec_results SA input task sigs) \<le> 1"
  by (simp add: spec_results_def split: option.splits)

end
