(* ===== verification/Coordinator.thy ===== *)
theory Coordinator
  imports Ciphers Player Signer
begin

text \<open>
  \<open>src/src/actors/coordinator.rs\<close>: the actor at the centre of a server. Its state is the record
  \<open>coordinator\<close>; what it does to the outside (counters, results, actors started, messages
  delivered, timers, messages handed to the sink) is appended to \<open>co_out\<close>. A handler returns the new
  state and an outcome, where \<open>Panic\<close> means that the actor is gone.
\<close>

section \<open>State and effects\<close>

text \<open>The counters of \<open>src/src/prom.rs\<close>.\<close>

datatype counter =
    REQUESTS_SIGN_RECEIVED | REQUESTS_SIGN_HANDLED | REQUESTS_OFFLINE_DONE | REQUESTS_SIGN_DONE
  | REQUESTS_KEYGEN_RECEIVED | REQUESTS_KEYGEN_HANDLED | REQUESTS_KEYGEN_DONE
  | MESSAGES_TOTAL_RECEIVED | MESSAGES_INVALID | MESSAGES_INVALID_ENCRYPTION
  | MESSAGES_KEYGEN_HANDLED | MESSAGES_OFFLINE_HANDLED | MESSAGES_SIGN_HANDLED
  | MESSAGES_DROPPED

text \<open>
  The foreign code of the coordinator beside that of \<open>env\<close>: the constructors of the two state
  machines, the readers of the three message types, and \<open>BigInt::from_hex\<close>.
\<close>

record ('db, 'sk, 'pk, 'sg, 'lk, 'kg, 'mk, 'off, 'mo, 'ps) cenv =
  "('db, 'sk, 'pk, 'sg, 'lk) env" +
  ce_keygen_new :: "u16 \<Rightarrow> u16 \<Rightarrow> u16 \<Rightarrow> 'kg option"
  ce_offline_new :: "u16 \<Rightarrow> u16 list \<Rightarrow> 'lk \<Rightarrow> 'off option"
  ce_msg_kg :: "string \<Rightarrow> 'mk msg option"
  ce_msg_o :: "string \<Rightarrow> 'mo msg option"
  ce_msg_s :: "string \<Rightarrow> 'ps msg option"
  ce_from_hex :: "string \<Rightarrow> int option"

text \<open>An actor's address is a number; \<open>Run_later\<close> counts seconds.\<close>

datatype ('lk, 'kg, 'mk, 'off, 'mo, 'cos, 'ps) effect =
    Inc counter
  | Respond check_result_response
  | Start_keygen nat "(keygen_request, 'kg, 'mk msg, 'lk) player"
  | Start_offline nat "(enriched_sign_request, 'off, 'mo msg, 'cos) player"
  | Start_signer nat "(enriched_sign_request, 'cos, 'ps) signer"
  | Deliver_keygen nat "'mk msg incoming_message"
  | Deliver_offline nat "'mo msg incoming_message"
  | Deliver_signer nat "'ps msg incoming_message"
  | Run_later nat coordinator_message
  | Send_one core_message

text \<open>
  The group store, the share store and the encrypter's own group store are handles of one
  database, \<open>co_db\<close>. The share store and the decrypter hold the same secret key, \<open>co_sk\<close>.
  \<open>co_sink\<close> says whether \<open>sink\<close> is \<open>Some\<close>; \<open>co_next_addr\<close> is the next free address.
\<close>

record ('db, 'sk, 'lk, 'kg, 'mk, 'off, 'mo, 'cos, 'ps) coordinator =
  co_pk_str :: string
  co_db :: 'db
  co_sk :: 'sk
  co_keygen_runners :: "string \<rightharpoonup> nat"
  co_offline_state_runners :: "string \<rightharpoonup> nat"
  co_signers :: "string \<rightharpoonup> nat"
  co_sink :: bool
  co_next_addr :: nat
  co_out :: "('lk, 'kg, 'mk, 'off, 'mo, 'cos, 'ps) effect list"

definition coordinator_new ::
  "('db, 'sk, 'pk, 'sg, 'lk, 'x) env_scheme \<Rightarrow> 'sk \<Rightarrow> 'db \<Rightarrow>
   ('db, 'sk, 'lk, 'kg, 'mk, 'off, 'mo, 'cos, 'ps) coordinator" where
  "coordinator_new E sk db =
     \<lparr>co_pk_str = identity_of (env_crypto E) sk, co_db = db, co_sk = sk,
      co_keygen_runners = Map.empty, co_offline_state_runners = Map.empty, co_signers = Map.empty,
      co_sink = True, co_next_addr = 0, co_out = []\<rparr>"

definition emit ::
  "('lk, 'kg, 'mk, 'off, 'mo, 'cos, 'ps) effect list \<Rightarrow>
   ('db, 'sk, 'lk, 'kg, 'mk, 'off, 'mo, 'cos, 'ps) coordinator \<Rightarrow>
   ('db, 'sk, 'lk, 'kg, 'mk, 'off, 'mo, 'cos, 'ps) coordinator" where
  "emit es c = c\<lparr>co_out := co_out c @ es\<rparr>"

definition respond ::
  "string \<Rightarrow> string \<Rightarrow> request_type \<Rightarrow> request_status \<Rightarrow>
   ('db, 'sk, 'lk, 'kg, 'mk, 'off, 'mo, 'cos, 'ps) coordinator \<Rightarrow>
   ('db, 'sk, 'lk, 'kg, 'mk, 'off, 'mo, 'cos, 'ps) coordinator" where
  "respond rid res ty st = emit [Respond (mk_response rid res ty st)]"

lemma emit_simps [simp]:
  "co_pk_str (emit es c) = co_pk_str c" "co_db (emit es c) = co_db c"
  "co_sk (emit es c) = co_sk c" "co_keygen_runners (emit es c) = co_keygen_runners c"
  "co_offline_state_runners (emit es c) = co_offline_state_runners c"
  "co_signers (emit es c) = co_signers c" "co_sink (emit es c) = co_sink c"
  "co_next_addr (emit es c) = co_next_addr c" "co_out (emit es c) = co_out c @ es"
  by (simp_all add: emit_def)

section \<open>Requests\<close>

text \<open>\<open>threshold as u16\<close> keeps the low 16 bits.\<close>

definition handle_keygen_request ::
  "('db, 'sk, 'pk, 'sg, 'lk, 'kg, 'mk, 'off, 'mo, 'ps) cenv \<Rightarrow> keygen_request \<Rightarrow>
   ('db, 'sk, 'lk, 'kg, 'mk, 'off, 'mo, 'cos, 'ps) coordinator \<Rightarrow>
   ('db, 'sk, 'lk, 'kg, 'mk, 'off, 'mo, 'cos, 'ps) coordinator \<times> unit result" where
  "handle_keygen_request E req c =
     (let c = emit [Inc REQUESTS_KEYGEN_HANDLED] c;
          c = respond (kr_request_id req) [] Keygen_type Processing c in
      attempt (unwrap (group_new (kr_participant_public_keys req) (ucast (kr_threshold req)) (co_pk_str c))) c
        (\<lambda>group.
      let group_id = get_group_id group;
          room = make_room_id (kr_request_id req) group_id in
      attempt (unwrap (get_i group)) c (\<lambda>i.
      attempt (ok_or ''Create state machine'' (ce_keygen_new E i (get_t group) (get_n group))) c
        (\<lambda>state.
      let addr = co_next_addr c;
          player = player_new req room i state;
          c = emit [Start_keygen addr player] (c\<lparr>co_next_addr := addr + 1\<rparr>);
          c = c\<lparr>co_db := fst (save_group E (co_db c) group)\<rparr>;
          c = c\<lparr>co_keygen_runners := (co_keygen_runners c)(room \<mapsto> addr)\<rparr> in
      (c, Ok ())))))"

text \<open>
  The indices of the participants in the original group: \<open>partition(Option::is_some)\<close> and the
  checks on both parts.
\<close>

definition participant_indices :: "group \<Rightarrow> u16 \<Rightarrow> string list \<Rightarrow> u16 list result" where
  "participant_indices grp t participants =
     in_context ''Find index of participants''
       (let found = map (get_index grp) participants;
            indices = filter (\<lambda>o'. o' \<noteq> None) found;
            errors = filter (\<lambda>o'. o' = None) found in
        if length indices \<noteq> unat (t + 1)
        then Err ''The required number of participants is not met.''
        else if errors \<noteq> []
        then Err ''Some of the public keys don't belong to the group.''
        else Ok (map (\<lambda>o'. word_of_nat (the o')) indices))"

definition handle_sign_request ::
  "('db, 'sk, 'pk, 'sg, 'lk, 'kg, 'mk, 'off, 'mo, 'ps) cenv \<Rightarrow> sign_request \<Rightarrow>
   ('db, 'sk, 'lk, 'kg, 'mk, 'off, 'mo, 'cos, 'ps) coordinator \<Rightarrow>
   ('db, 'sk, 'lk, 'kg, 'mk, 'off, 'mo, 'cos, 'ps) coordinator \<times> unit result" where
  "handle_sign_request E req c =
     (let c = emit [Inc REQUESTS_SIGN_HANDLED] c in
      attempt (in_context ''Retrieve local share.''
          (retrieve_share E (co_sk c) (co_db c) (sr_public_key req))) c (\<lambda>local_share.
      let t = env_lk_t E (sls_share local_share) in
      attempt (unwrap (group_new (sls_public_keys local_share) t (co_pk_str c))) c (\<lambda>group.
      attempt (unwrap (group_new (sr_participant_public_keys req) t (co_pk_str c))) c (\<lambda>subgroup.
      let c = c\<lparr>co_db := fst (save_group E (co_db c) subgroup)\<rparr> in
      attempt (participant_indices group t (sr_participant_public_keys req)) c (\<lambda>s_l.
      let c = respond (sr_request_id req) [] Sign_type Processing c in
      attempt (unwrap (get_i group)) c (\<lambda>index_in_group.
      attempt (unwrap (get_i subgroup)) c (\<lambda>index_in_s_l.
      let room = sr_request_id req @ ''@'' @ get_group_id subgroup;
          enriched = \<lparr>es_inner = req, es_room = room, es_i = index_in_s_l, es_s_l = s_l\<rparr> in
      attempt (ok_or ''Create state machine''
          (ce_offline_new E index_in_s_l s_l (sls_share local_share))) c (\<lambda>state.
      let addr = co_next_addr c;
          player = player_new enriched room index_in_s_l state;
          c = emit [Start_offline addr player] (c\<lparr>co_next_addr := addr + 1\<rparr>);
          c = c\<lparr>co_offline_state_runners := (co_offline_state_runners c)(room \<mapsto> addr)\<rparr> in
      (c, Ok ())))))))))"

section \<open>Checking and routing of messages\<close>

datatype coordinator_error =
    UnknownGroup | InvalidRoom | WrongPublicKey | WrongPublicKeys
  | WrongNumberOfParticipants | NotForMe | InvalidPayload

definition valid_sender_and_receiver ::
  "('db, 'sk, 'pk, 'sg, 'lk, 'x) env_scheme \<Rightarrow> 'db \<Rightarrow> wire_message \<Rightarrow>
   (coordinator_error, unit) outcome" where
  "valid_sender_and_receiver E db msg =
     and_then (map_err (\<lambda>_. InvalidRoom) (extract_group_id (w_room msg))) (\<lambda>group_id.
     and_then (map_err (\<lambda>_. UnknownGroup) (retrieve_group E db group_id)) (\<lambda>group.
     and_then (case get_index group (w_sender_public_key msg) of
                 None \<Rightarrow> Err WrongPublicKey | Some _ \<Rightarrow> Ok ()) (\<lambda>_.
     and_then (ok_or InvalidPayload (de (env_gpm E) (w_payload msg))) (\<lambda>m.
     case gpm_receiver m of
       Some receiver \<Rightarrow>
         and_then (unwrap (get_i group)) (\<lambda>i. if receiver \<noteq> i then Err NotForMe else Ok ())
     | None \<Rightarrow> Ok ()))))"

definition handle_incoming_keygen ::
  "('db, 'sk, 'pk, 'sg, 'lk, 'kg, 'mk, 'off, 'mo, 'ps) cenv \<Rightarrow> wire_message \<Rightarrow>
   ('db, 'sk, 'lk, 'kg, 'mk, 'off, 'mo, 'cos, 'ps) coordinator \<Rightarrow>
   ('db, 'sk, 'lk, 'kg, 'mk, 'off, 'mo, 'cos, 'ps) coordinator \<times> unit result" where
  "handle_incoming_keygen E message c =
     attempt (ok_or ''Can't found mpc player.'' (co_keygen_runners c (w_room message))) c (\<lambda>addr.
     attempt (ok_or ''deserialize message'' (ce_msg_kg E (w_payload message))) c (\<lambda>msg.
     (emit [Deliver_keygen addr
          \<lparr>im_room = w_room message, im_wire_message = message, im_message = msg\<rparr>,
        Inc MESSAGES_KEYGEN_HANDLED] c, Ok ())))"

definition handle_incoming_offline ::
  "('db, 'sk, 'pk, 'sg, 'lk, 'kg, 'mk, 'off, 'mo, 'ps) cenv \<Rightarrow> wire_message \<Rightarrow>
   ('db, 'sk, 'lk, 'kg, 'mk, 'off, 'mo, 'cos, 'ps) coordinator \<Rightarrow>
   ('db, 'sk, 'lk, 'kg, 'mk, 'off, 'mo, 'cos, 'ps) coordinator \<times> unit result" where
  "handle_incoming_offline E message c =
     attempt (ok_or ''Not found mpc player.'' (co_offline_state_runners c (w_room message))) c
       (\<lambda>addr.
     attempt (ok_or ''deserialize message'' (ce_msg_o E (w_payload message))) c (\<lambda>msg.
     (emit [Deliver_offline addr
          \<lparr>im_room = w_room message, im_wire_message = message, im_message = msg\<rparr>,
        Inc MESSAGES_OFFLINE_HANDLED] c, Ok ())))"

definition handle_incoming_sign ::
  "('db, 'sk, 'pk, 'sg, 'lk, 'kg, 'mk, 'off, 'mo, 'ps) cenv \<Rightarrow> wire_message \<Rightarrow>
   ('db, 'sk, 'lk, 'kg, 'mk, 'off, 'mo, 'cos, 'ps) coordinator \<Rightarrow>
   ('db, 'sk, 'lk, 'kg, 'mk, 'off, 'mo, 'cos, 'ps) coordinator \<times> unit result" where
  "handle_incoming_sign E message c =
     attempt (ok_or ''Not found signer.'' (co_signers c (w_room message))) c (\<lambda>addr.
     attempt (ok_or ''deserialize message'' (ce_msg_s E (w_payload message))) c (\<lambda>msg.
     (emit [Deliver_signer addr
          \<lparr>im_room = w_room message, im_wire_message = message, im_message = msg\<rparr>,
        Inc MESSAGES_SIGN_HANDLED] c, Ok ())))"

text \<open>Delays in seconds; beyond 33 attempts the message is dropped.\<close>

definition retry_delay :: "u16 \<Rightarrow> nat" where
  "retry_delay attempts = (if attempts \<le> 9 then 2 ^ unat attempts else 600)"

definition retry ::
  "retry_message \<Rightarrow> ('db, 'sk, 'lk, 'kg, 'mk, 'off, 'mo, 'cos, 'ps) coordinator \<Rightarrow>
   ('db, 'sk, 'lk, 'kg, 'mk, 'off, 'mo, 'cos, 'ps) coordinator" where
  "retry envelope c =
     (if rm_attempts envelope > 33 then emit [Inc MESSAGES_DROPPED] c
      else emit [Run_later (retry_delay (rm_attempts envelope)) (Retry envelope)] c)"

definition handle_incoming_unsafe ::
  "('db, 'sk, 'pk, 'sg, 'lk, 'kg, 'mk, 'off, 'mo, 'ps) cenv \<Rightarrow> wire_message \<Rightarrow> nat \<Rightarrow> u16 \<Rightarrow>
   ('db, 'sk, 'lk, 'kg, 'mk, 'off, 'mo, 'cos, 'ps) coordinator \<Rightarrow>
   ('db, 'sk, 'lk, 'kg, 'mk, 'off, 'mo, 'cos, 'ps) coordinator" where
  "handle_incoming_unsafe E message init_ts attempts c =
     (let (c, h1) = handle_incoming_offline E message c;
          (c, h2) = handle_incoming_sign E message c;
          (c, h3) = handle_incoming_keygen E message c in
      if \<not> (is_ok h1 \<or> is_ok h2 \<or> is_ok h3)
      then retry \<lparr>rm_initial_timestamp = init_ts, rm_attempts = attempts + 1,
             rm_check_passed = True, rm_message = message\<rparr> c
      else c)"

text \<open>\<open>now\<close> is \<open>utils::current_timestamp()\<close>.\<close>

definition handle_incoming ::
  "('db, 'sk, 'pk, 'sg, 'lk, 'kg, 'mk, 'off, 'mo, 'ps) cenv \<Rightarrow> nat \<Rightarrow> wire_message \<Rightarrow>
   ('db, 'sk, 'lk, 'kg, 'mk, 'off, 'mo, 'cos, 'ps) coordinator \<Rightarrow>
   ('db, 'sk, 'lk, 'kg, 'mk, 'off, 'mo, 'cos, 'ps) coordinator \<times> unit result" where
  "handle_incoming E now msg c =
     (let c = emit [Inc MESSAGES_TOTAL_RECEIVED] c in
      attempt (unwrap (str_range (co_pk_str c) 2 10)) c (\<lambda>own.
      if \<not> str_contains (w_room msg) own then (emit [Inc MESSAGES_DROPPED] c, Ok ())
      else
        (case valid_sender_and_receiver E (co_db c) msg of
           Ok _ \<Rightarrow>
             (case maybe_decrypt E (co_sk c) msg of
                Ok transformed \<Rightarrow> (handle_incoming_unsafe E transformed now 0 c, Ok ())
              | Err _ \<Rightarrow> (c, Ok ())
              | Panic \<Rightarrow> (c, Panic))
         | Err NotForMe \<Rightarrow> (emit [Inc MESSAGES_DROPPED] c, Ok ())
         | Err _ \<Rightarrow>
             (retry \<lparr>rm_initial_timestamp = now, rm_attempts = 1, rm_check_passed = False,
                rm_message = msg\<rparr> c, Ok ())
         | Panic \<Rightarrow> (c, Panic))))"

definition precheck_message ::
  "('db, 'sk, 'pk, 'sg, 'lk, 'kg, 'mk, 'off, 'mo, 'ps) cenv \<Rightarrow> wire_message \<Rightarrow>
   ('db, 'sk, 'lk, 'kg, 'mk, 'off, 'mo, 'cos, 'ps) coordinator \<Rightarrow> wire_message result" where
  "precheck_message E msg c =
     and_then (map_err (\<lambda>_. ''CoordinatorError'') (valid_sender_and_receiver E (co_db c) msg)) (\<lambda>_.
     maybe_decrypt E (co_sk c) msg)"

definition handle_retry ::
  "('db, 'sk, 'pk, 'sg, 'lk, 'kg, 'mk, 'off, 'mo, 'ps) cenv \<Rightarrow> retry_message \<Rightarrow>
   ('db, 'sk, 'lk, 'kg, 'mk, 'off, 'mo, 'cos, 'ps) coordinator \<Rightarrow>
   ('db, 'sk, 'lk, 'kg, 'mk, 'off, 'mo, 'cos, 'ps) coordinator \<times> unit result" where
  "handle_retry E msg c =
     (case precheck_message E (rm_message msg) c of
        Ok adapted_envelope \<Rightarrow>
          (handle_incoming_unsafe E adapted_envelope (rm_initial_timestamp msg) (rm_attempts msg) c,
           Ok ())
      | Err _ \<Rightarrow>
          (retry \<lparr>rm_initial_timestamp = rm_initial_timestamp msg,
             rm_attempts = rm_attempts msg + 1, rm_check_passed = False,
             rm_message = rm_message msg\<rparr> c, Ok ())
      | Panic \<Rightarrow> (c, Panic))"

section \<open>The handlers of the actor\<close>

text \<open>The results of the request handlers are ignored; a panic is not.\<close>

definition ignore_result ::
  "'c \<times> 'a result \<Rightarrow> 'c \<times> unit result" where
  "ignore_result r = (case r of (c, Panic) \<Rightarrow> (c, Panic) | (c, _) \<Rightarrow> (c, Ok ()))"

fun handle_coordinator_message ::
  "('db, 'sk, 'pk, 'sg, 'lk, 'kg, 'mk, 'off, 'mo, 'ps) cenv \<Rightarrow> nat \<Rightarrow> coordinator_message \<Rightarrow>
   ('db, 'sk, 'lk, 'kg, 'mk, 'off, 'mo, 'cos, 'ps) coordinator \<Rightarrow>
   ('db, 'sk, 'lk, 'kg, 'mk, 'off, 'mo, 'cos, 'ps) coordinator \<times> unit result" where
  "handle_coordinator_message E now (Incoming msg) c = handle_incoming E now msg c"
| "handle_coordinator_message E now (Retry msg) c =
     (if rm_check_passed msg
      then (handle_incoming_unsafe E (rm_message msg) (rm_initial_timestamp msg) (rm_attempts msg) c,
            Ok ())
      else handle_retry E msg c)"
| "handle_coordinator_message E now (Outgoing msg) c =
     (case maybe_encrypt E (co_db c) msg of
        Ok msg' \<Rightarrow> (emit [Send_one msg'] c, Ok ())
      | Err e \<Rightarrow> (c, Ok ())
      | Panic \<Rightarrow> (c, Panic))"
| "handle_coordinator_message E now (KeygenRequest req) c =
     ignore_result (handle_keygen_request E req c)"
| "handle_coordinator_message E now (SignRequest req) c =
     ignore_result (handle_sign_request E req c)"

text \<open>The stream of the transport: an error of the transport is ignored.\<close>

definition stream_handle ::
  "('db, 'sk, 'pk, 'sg, 'lk, 'kg, 'mk, 'off, 'mo, 'ps) cenv \<Rightarrow> nat \<Rightarrow> wire_message result \<Rightarrow>
   ('db, 'sk, 'lk, 'kg, 'mk, 'off, 'mo, 'cos, 'ps) coordinator \<Rightarrow>
   ('db, 'sk, 'lk, 'kg, 'mk, 'off, 'mo, 'cos, 'ps) coordinator \<times> unit result" where
  "stream_handle E now msg c =
     (case msg of
        Ok m \<Rightarrow> handle_coordinator_message E now (Incoming m) c
      | _ \<Rightarrow> (c, Ok ()))"

text \<open>Both handlers of \<open>ProtocolError\<close>: only a message that came too early is tried again.\<close>

definition handle_protocol_error ::
  "nat \<Rightarrow> 'm incoming_message protocol_error \<Rightarrow>
   ('db, 'sk, 'lk, 'kg, 'mk, 'off, 'mo, 'cos, 'ps) coordinator \<Rightarrow>
   ('db, 'sk, 'lk, 'kg, 'mk, 'off, 'mo, 'cos, 'ps) coordinator" where
  "handle_protocol_error now msg c =
     (case pe_error msg of
        ReceivedOutOfOrderMessage _ _ \<Rightarrow>
          retry \<lparr>rm_initial_timestamp = now, rm_attempts = 1, rm_check_passed = True,
            rm_message = im_wire_message (pe_message msg)\<rparr> c
      | OtherError _ \<Rightarrow> c)"

definition handle_output_keygen ::
  "('db, 'sk, 'pk, 'sg, 'lk, 'kg, 'mk, 'off, 'mo, 'ps) cenv \<Rightarrow>
   (keygen_request, 'lk) protocol_output \<Rightarrow>
   ('db, 'sk, 'lk, 'kg, 'mk, 'off, 'mo, 'cos, 'ps) coordinator \<Rightarrow>
   ('db, 'sk, 'lk, 'kg, 'mk, 'off, 'mo, 'cos, 'ps) coordinator \<times> unit result" where
  "handle_output_keygen E msg c =
     (let req = po_input msg;
          c = emit [Inc REQUESTS_KEYGEN_DONE] c in
      attempt (unwrap (group_new (kr_participant_public_keys req) (ucast (kr_threshold req)) (co_pk_str c))) c
        (\<lambda>group.
      let room = make_room_id (kr_request_id req) (get_group_id group);
          c = c\<lparr>co_offline_state_runners := (co_offline_state_runners c)(room := None)\<rparr>;
          sum_pk = hex_encode (env_crypto E) (env_lk_public_key E (po_output msg));
          (db, saved) = save_share E (co_db c)
            \<lparr>sls_public_keys = kr_participant_public_keys req, sls_own_public_key = co_pk_str c,
             sls_share = po_output msg\<rparr>;
          c = c\<lparr>co_db := db\<rparr>;
          c = respond (kr_request_id req) sum_pk Keygen_type Done c in
      (c, Ok ())))"

definition handle_output_offline ::
  "('db, 'sk, 'pk, 'sg, 'lk, 'kg, 'mk, 'off, 'mo, 'ps) cenv \<Rightarrow>
   (enriched_sign_request, 'cos) protocol_output \<Rightarrow>
   ('db, 'sk, 'lk, 'kg, 'mk, 'off, 'mo, 'cos, 'ps) coordinator \<Rightarrow>
   ('db, 'sk, 'lk, 'kg, 'mk, 'off, 'mo, 'cos, 'ps) coordinator" where
  "handle_output_offline E msg c =
     (let input = po_input msg;
          rid = sr_request_id (es_inner input);
          c = emit [Inc REQUESTS_OFFLINE_DONE] c;
          c = c\<lparr>co_offline_state_runners := (co_offline_state_runners c)(es_room input := None)\<rparr> in
      case ce_from_hex E (sr_hash (es_inner input)) of
        Some message \<Rightarrow>
          (let task = \<lparr>st_room = es_room input, st_index = es_i input,
                 st_t = word_of_nat (length (es_s_l input)) - 1, st_message = message,
                 st_completed_offline_stage = po_output msg\<rparr>;
               addr = co_next_addr c;
               c = emit [Start_signer addr (signer_new input task)] (c\<lparr>co_next_addr := addr + 1\<rparr>);
               c = c\<lparr>co_signers := (co_signers c)(es_room input \<mapsto> addr)\<rparr> in
           respond rid [] Sign_type Processing c)
      | None \<Rightarrow> respond rid [] Sign_type Error c)"

text \<open>\<open>recid.to_be_bytes()\<close> of a \<open>u8\<close> is one byte.\<close>

definition signature_hex :: "('sk, 'pk, 'sg) crypto \<Rightarrow> signature_recid \<Rightarrow> string" where
  "signature_hex C sg =
     ''0x'' @ hex_encode C (sg_r sg) @ hex_encode C (sg_s sg) @
     hex_encode C [char_of (unat (sg_recid sg))]"

definition handle_output_sign ::
  "('db, 'sk, 'pk, 'sg, 'lk, 'kg, 'mk, 'off, 'mo, 'ps) cenv \<Rightarrow>
   (enriched_sign_request, signature_recid) protocol_output \<Rightarrow>
   ('db, 'sk, 'lk, 'kg, 'mk, 'off, 'mo, 'cos, 'ps) coordinator \<Rightarrow>
   ('db, 'sk, 'lk, 'kg, 'mk, 'off, 'mo, 'cos, 'ps) coordinator" where
  "handle_output_sign E msg c =
     respond (sr_request_id (es_inner (po_input msg))) (signature_hex (env_crypto E) (po_output msg))
       Sign_type Done (emit [Inc REQUESTS_SIGN_DONE] c)"

text \<open>
  \<open>send_one\<close> inside its \<open>critical_section\<close>: no other handler of the actor runs between taking
  the sink and putting it back. \<open>send\<close> is \<open>sink.send\<close>, whose error is ignored and whose panic is not
  caught; the other panic is the failed \<open>expect\<close>.
\<close>

definition take_sink ::
  "('db, 'sk, 'lk, 'kg, 'mk, 'off, 'mo, 'cos, 'ps) coordinator \<Rightarrow>
   ('db, 'sk, 'lk, 'kg, 'mk, 'off, 'mo, 'cos, 'ps) coordinator option" where
  "take_sink c = (if co_sink c then Some (c\<lparr>co_sink := False\<rparr>) else None)"

definition put_sink ::
  "('db, 'sk, 'lk, 'kg, 'mk, 'off, 'mo, 'cos, 'ps) coordinator \<Rightarrow>
   ('db, 'sk, 'lk, 'kg, 'mk, 'off, 'mo, 'cos, 'ps) coordinator" where
  "put_sink c = c\<lparr>co_sink := True\<rparr>"

definition send_one ::
  "(core_message \<Rightarrow> unit result) \<Rightarrow> core_message \<Rightarrow>
   ('db, 'sk, 'lk, 'kg, 'mk, 'off, 'mo, 'cos, 'ps) coordinator \<Rightarrow>
   ('db, 'sk, 'lk, 'kg, 'mk, 'off, 'mo, 'cos, 'ps) coordinator \<times> unit result" where
  "send_one send envelope c =
     (case take_sink c of
        None \<Rightarrow> (c, Panic)
      | Some c' \<Rightarrow> (case send envelope of Panic \<Rightarrow> (c', Panic) | _ \<Rightarrow> (put_sink c', Ok ())))"

lemma send_one_Ok: "send_one send m c = (c', Ok u) \<longleftrightarrow> co_sink c \<and> send m \<noteq> Panic \<and> c' = c"
  by (cases c) (auto simp: send_one_def take_sink_def put_sink_def split: outcome.split)

lemma send_one_Panic: "snd (send_one send m c) = Panic \<longleftrightarrow> \<not> co_sink c \<or> send m = Panic"
  by (simp add: send_one_def take_sink_def split: outcome.split)

end
