(* ===== verification/Coordinator_Facts.thy ===== *)
theory Coordinator_Facts
  imports Coordinator
begin

text \<open>
  Lemmas about the coordinator's handlers: what each one adds to the effects, what it leaves alone,
  when it panics, which messages it lets through, and the bounds on retries.
\<close>

section \<open>Routing\<close>

text \<open>The deliveries of one message, in the order in which the three runners are tried.\<close>

definition deliveries ::
  "('db, 'sk, 'pk, 'sg, 'lk, 'kg, 'mk, 'off, 'mo, 'ps) cenv \<Rightarrow> wire_message \<Rightarrow>
   ('db, 'sk, 'lk, 'kg, 'mk, 'off, 'mo, 'cos, 'ps) coordinator \<Rightarrow>
   ('lk, 'kg, 'mk, 'off, 'mo, 'cos, 'ps) effect list" where
  "deliveries E w c =
     (case (co_offline_state_runners c (w_room w), ce_msg_o E (w_payload w)) of
        (Some a, Some m) \<Rightarrow>
          [Deliver_offline a \<lparr>im_room = w_room w, im_wire_message = w, im_message = m\<rparr>,
           Inc MESSAGES_OFFLINE_HANDLED]
      | _ \<Rightarrow> []) @
     (case (co_signers c (w_room w), ce_msg_s E (w_payload w)) of
        (Some a, Some m) \<Rightarrow>
          [Deliver_signer a \<lparr>im_room = w_room w, im_wire_message = w, im_message = m\<rparr>,
           Inc MESSAGES_SIGN_HANDLED]
      | _ \<Rightarrow> []) @
     (case (co_keygen_runners c (w_room w), ce_msg_kg E (w_payload w)) of
        (Some a, Some m) \<Rightarrow>
          [Deliver_keygen a \<lparr>im_room = w_room w, im_wire_message = w, im_message = m\<rparr>,
           Inc MESSAGES_KEYGEN_HANDLED]
      | _ \<Rightarrow> [])"

lemma emit_Nil [simp]: "emit [] c = c"
  by (simp add: emit_def)

lemma emit_emit [simp]: "emit ys (emit xs c) = emit (xs @ ys) c"
  by (simp add: emit_def)

lemma handle_incoming_unsafe_eq:
  "handle_incoming_unsafe E w ts a c =
     (if deliveries E w c = []
      then retry \<lparr>rm_initial_timestamp = ts, rm_attempts = a + 1, rm_check_passed = True,
             rm_message = w\<rparr> c
      else emit (deliveries E w c) c)"
  by (cases "co_offline_state_runners c (w_room w)"; cases "ce_msg_o E (w_payload w)";
      cases "co_signers c (w_room w)"; cases "ce_msg_s E (w_payload w)";
      cases "co_keygen_runners c (w_room w)"; cases "ce_msg_kg E (w_payload w)")
    (simp_all add: handle_incoming_unsafe_def handle_incoming_offline_def
      handle_incoming_sign_def handle_incoming_keygen_def deliveries_def Let_def)

lemma deliveries_Nil_iff:
  "deliveries E w c = [] \<longleftrightarrow>
     (co_offline_state_runners c (w_room w) = None \<or> ce_msg_o E (w_payload w) = None) \<and>
     (co_signers c (w_room w) = None \<or> ce_msg_s E (w_payload w) = None) \<and>
     (co_keygen_runners c (w_room w) = None \<or> ce_msg_kg E (w_payload w) = None)"
  by (auto simp: deliveries_def split: option.splits)

lemma retry_eq_emit:
  "retry m c =
     emit [if rm_attempts m > 33 then Inc MESSAGES_DROPPED
           else Run_later (retry_delay (rm_attempts m)) (Retry m)] c"
  by (simp add: retry_def)

section \<open>Frames\<close>

text \<open>
  The part of the state that only the request and output handlers change, and the growth of the
  effects.
\<close>

definition same_routes ::
  "('db, 'sk, 'lk, 'kg, 'mk, 'off, 'mo, 'cos, 'ps) coordinator \<Rightarrow>
   ('db, 'sk, 'lk, 'kg, 'mk, 'off, 'mo, 'cos, 'ps) coordinator \<Rightarrow> bool" where
  "same_routes c c' \<longleftrightarrow> (\<exists>es. c' = emit es c)"

lemma same_routes_emit [simp, intro]: "same_routes c (emit es c)"
  by (auto simp: same_routes_def)

lemma same_routes_refl [simp]: "same_routes c c"
  using same_routes_emit [of c "[]"] by simp

lemma same_routes_trans [trans]: "same_routes c d \<Longrightarrow> same_routes d e \<Longrightarrow> same_routes c e"
  by (auto simp: same_routes_def)

lemma same_routes_retry [simp]: "same_routes c (retry m c)"
  by (simp add: retry_eq_emit)

lemma same_routes_unsafe [simp]: "same_routes c (handle_incoming_unsafe E w ts a c)"
  by (simp add: handle_incoming_unsafe_eq)

section \<open>Which messages pass\<close>

text \<open>The check once the group, the sender and the payload are known.\<close>

lemma valid_sender_and_receiver_known:
  assumes "extract_group_id (w_room w) = Ok gid" and "retrieve_group E db gid = Ok g"
    and "w_sender_public_key w \<in> set (pg_public_keys g)" and "de (env_gpm E) (w_payload w) = Some m"
  shows "valid_sender_and_receiver E db w =
    (case gpm_receiver m of
       None \<Rightarrow> Ok ()
     | Some r \<Rightarrow> and_then (unwrap (get_i g)) (\<lambda>i. if r \<noteq> i then Err NotForMe else Ok ()))"
  using assms by (simp add: valid_sender_and_receiver_def get_index_case)

lemma valid_sender_and_receiver_unknown:
  assumes "\<And>gid g m. extract_group_id (w_room w) = Ok gid \<Longrightarrow> retrieve_group E db gid = Ok g \<Longrightarrow>
    w_sender_public_key w \<in> set (pg_public_keys g) \<Longrightarrow> de (env_gpm E) (w_payload w) \<noteq> Some m"
  shows "\<exists>e. valid_sender_and_receiver E db w = Err e \<and> e \<noteq> NotForMe"
proof (cases "extract_group_id (w_room w)")
  case (Ok gid)
  note gid = this
  show ?thesis
  proof (cases "retrieve_group E db gid")
    case (Ok g)
    with gid assms [OF gid Ok] show ?thesis
      by (cases "de (env_gpm E) (w_payload w)")
        (auto simp: valid_sender_and_receiver_def get_index_case)
  next
    case (Err e)
    with gid show ?thesis by (simp add: valid_sender_and_receiver_def)
  qed (simp add: gid)
next
  case (Err e)
  then show ?thesis by (simp add: valid_sender_and_receiver_def)
qed simp

definition known_message ::
  "('db, 'sk, 'pk, 'sg, 'lk, 'x) env_scheme \<Rightarrow> 'db \<Rightarrow> wire_message \<Rightarrow> group \<Rightarrow>
   generic_protocol_message \<Rightarrow> bool" where
  "known_message E db w g m \<longleftrightarrow>
     (\<exists>gid. extract_group_id (w_room w) = Ok gid \<and> retrieve_group E db gid = Ok g) \<and>
     w_sender_public_key w \<in> set (pg_public_keys g) \<and> de (env_gpm E) (w_payload w) = Some m"

lemma valid_sender_and_receiver_cases:
  obtains (known) g m where "known_message E db w g m"
      "valid_sender_and_receiver E db w =
        (case gpm_receiver m of
           None \<Rightarrow> Ok ()
         | Some r \<Rightarrow> and_then (unwrap (get_i g)) (\<lambda>i. if r \<noteq> i then Err NotForMe else Ok ()))"
  | (unknown) e where "\<forall>g m. \<not> known_message E db w g m"
      "valid_sender_and_receiver E db w = Err e" "e \<noteq> NotForMe"
proof (cases "\<exists>g m. known_message E db w g m")
  case True
  then obtain g m where k: "known_message E db w g m" by blast
  then obtain gid where "extract_group_id (w_room w) = Ok gid" "retrieve_group E db gid = Ok g"
    by (auto simp: known_message_def)
  from valid_sender_and_receiver_known [OF this] k known show ?thesis
    by (auto simp: known_message_def)
next
  case False
  then have "\<exists>e. valid_sender_and_receiver E db w = Err e \<and> e \<noteq> NotForMe"
    by (intro valid_sender_and_receiver_unknown) (auto simp: known_message_def)
  with False unknown show ?thesis by blast
qed

lemma known_message_unique:
  "known_message E db w g m \<Longrightarrow> known_message E db w g' m' \<Longrightarrow> g' = g \<and> m' = m"
  by (auto simp: known_message_def)

lemma valid_sender_and_receiver_Ok_iff:
  "valid_sender_and_receiver E db w = Ok () \<longleftrightarrow>
     (\<exists>g m. known_message E db w g m \<and>
        (gpm_receiver m = None \<or> (\<exists>r. gpm_receiver m = Some r \<and> get_i g = Some r)))"
proof (cases rule: valid_sender_and_receiver_cases [of E db w])
  case (known g m)
  have "valid_sender_and_receiver E db w = Ok () \<longleftrightarrow>
      gpm_receiver m = None \<or> (\<exists>r. gpm_receiver m = Some r \<and> get_i g = Some r)"
    unfolding known(2) by (auto simp: and_then_eq_Ok split: option.splits if_splits)
  with known_message_unique [OF known(1)] known(1) show ?thesis by blast
qed auto

lemma valid_sender_and_receiver_Panic_iff:
  "valid_sender_and_receiver E db w = Panic \<longleftrightarrow>
     (\<exists>g m. known_message E db w g m \<and> gpm_receiver m \<noteq> None \<and>
        pg_own_public_key g \<notin> set (pg_public_keys g))"
proof (cases rule: valid_sender_and_receiver_cases [of E db w])
  case (known g m)
  have "valid_sender_and_receiver E db w = Panic \<longleftrightarrow>
      gpm_receiver m \<noteq> None \<and> pg_own_public_key g \<notin> set (pg_public_keys g)"
    unfolding known(2) by (auto simp: and_then_eq_Panic get_i_None_iff split: option.splits if_splits)
  with known_message_unique [OF known(1)] known(1) show ?thesis by blast
qed auto

text \<open>The three ways in which a fresh message is handled once it mentions this server's key.\<close>

lemma handle_incoming_eq:
  assumes "str_range (co_pk_str c) 2 10 = Some own"
  shows "handle_incoming E now w c =
    (let c = emit [Inc MESSAGES_TOTAL_RECEIVED] c in
     if \<not> str_contains (w_room w) own then (emit [Inc MESSAGES_DROPPED] c, Ok ())
     else if valid_sender_and_receiver E (co_db c) w = Ok ()
     then (case maybe_decrypt E (co_sk c) w of
             Ok w' \<Rightarrow> (handle_incoming_unsafe E w' now 0 c, Ok ())
           | _ \<Rightarrow> (c, Ok ()))
     else if valid_sender_and_receiver E (co_db c) w = Err NotForMe
     then (emit [Inc MESSAGES_DROPPED] c, Ok ())
     else if valid_sender_and_receiver E (co_db c) w = Panic then (c, Panic)
     else (retry \<lparr>rm_initial_timestamp = now, rm_attempts = 1, rm_check_passed = False,
             rm_message = w\<rparr> c, Ok ()))"
proof (cases "valid_sender_and_receiver E (co_db c) w")
  case (Ok u)
  with assms show ?thesis
    by (simp add: handle_incoming_def Let_def split: outcome.splits)
next
  case (Err e)
  with assms show ?thesis
    by (cases e) (simp_all add: handle_incoming_def Let_def)
next
  case Panic
  with assms show ?thesis by (simp add: handle_incoming_def Let_def)
qed

lemma handle_incoming_Panic_iff:
  "snd (handle_incoming E now w c) = Panic \<longleftrightarrow>
     (case str_range (co_pk_str c) 2 10 of
        None \<Rightarrow> True
      | Some own \<Rightarrow> str_contains (w_room w) own \<and> valid_sender_and_receiver E (co_db c) w = Panic)"
proof (cases "str_range (co_pk_str c) 2 10")
  case None
  then show ?thesis by (simp add: handle_incoming_def Let_def)
next
  case (Some own)
  then show ?thesis
    by (simp add: handle_incoming_eq Let_def split: outcome.splits)
qed

lemma precheck_Panic_iff:
  "precheck_message E w c = Panic \<longleftrightarrow> valid_sender_and_receiver E (co_db c) w = Panic"
  by (simp add: precheck_message_def and_then_eq_Panic)

lemma same_routes_handle_incoming: "same_routes c (fst (handle_incoming E now w c))"
proof (cases "str_range (co_pk_str c) 2 10")
  case None
  then show ?thesis by (simp add: handle_incoming_def Let_def)
next
  case (Some own)
  then show ?thesis
    by (simp add: handle_incoming_eq Let_def handle_incoming_unsafe_eq retry_eq_emit
        split: outcome.splits)
qed

lemma same_routes_handle_retry: "same_routes c (fst (handle_retry E m c))"
  by (simp add: handle_retry_def split: outcome.splits)

lemma deliveries_emit [simp]: "deliveries E w (emit es c) = deliveries E w c"
  by (simp add: deliveries_def)

fun is_delivery :: "('lk, 'kg, 'mk, 'off, 'mo, 'cos, 'ps) effect \<Rightarrow> bool" where
  "is_delivery (Deliver_keygen a m) = True"
| "is_delivery (Deliver_offline a m) = True"
| "is_delivery (Deliver_signer a m) = True"
| "is_delivery _ = False"

text \<open>The deliveries that a fresh message causes, if any, are those of the decrypted message.\<close>

lemma handle_incoming_delivered:
  assumes "co_out (fst (handle_incoming E now w c)) = co_out c @ es"
    and "eff \<in> set es" and "is_delivery eff"
  shows "\<exists>w' own. valid_sender_and_receiver E (co_db c) w = Ok () \<and>
    maybe_decrypt E (co_sk c) w = Ok w' \<and> eff \<in> set (deliveries E w' c) \<and>
    str_range (co_pk_str c) 2 10 = Some own \<and> str_contains (w_room w) own"
proof (cases "str_range (co_pk_str c) 2 10")
  case None
  with assms show ?thesis by (auto simp: handle_incoming_def Let_def)
next
  case (Some own)
  with assms show ?thesis
    by (auto simp: handle_incoming_eq Let_def handle_incoming_unsafe_eq retry_eq_emit
        split: outcome.splits if_splits)
qed

lemma deliveries_cases:
  "eff \<in> set (deliveries E w c) \<Longrightarrow>
   (\<exists>a m. eff = Deliver_offline a \<lparr>im_room = w_room w, im_wire_message = w, im_message = m\<rparr> \<and>
      co_offline_state_runners c (w_room w) = Some a \<and> ce_msg_o E (w_payload w) = Some m) \<or>
   (\<exists>a m. eff = Deliver_signer a \<lparr>im_room = w_room w, im_wire_message = w, im_message = m\<rparr> \<and>
      co_signers c (w_room w) = Some a \<and> ce_msg_s E (w_payload w) = Some m) \<or>
   (\<exists>a m. eff = Deliver_keygen a \<lparr>im_room = w_room w, im_wire_message = w, im_message = m\<rparr> \<and>
      co_keygen_runners c (w_room w) = Some a \<and> ce_msg_kg E (w_payload w) = Some m) \<or>
   (\<exists>n. eff = Inc n)"
  by (auto simp: deliveries_def split: option.splits)

section \<open>Retries are bounded\<close>

fun timer_ok :: "('lk, 'kg, 'mk, 'off, 'mo, 'cos, 'ps) effect \<Rightarrow> bool" where
  "timer_ok (Run_later d (Retry r)) =
     (1 \<le> rm_attempts r \<and> rm_attempts r \<le> 33 \<and> d = retry_delay (rm_attempts r))"
| "timer_ok (Run_later d _) = False"
| "timer_ok _ = True"

fun message_ok :: "coordinator_message \<Rightarrow> bool" where
  "message_ok (Retry r) = (rm_attempts r \<le> 33)"
| "message_ok _ = True"

lemma attempts_succ: "(a :: u16) \<le> 33 \<Longrightarrow> unat (a + 1) = unat a + 1 \<and> 1 \<le> a + 1"
  by (simp add: word_le_nat_alt unat_word_ariths)

lemma timer_ok_retry:
  assumes "1 \<le> rm_attempts m" and "list_all timer_ok (co_out c)"
  shows "list_all timer_ok (co_out (retry m c))"
  using assms by (auto simp: retry_eq_emit not_less)

lemma list_all_timer_ok_deliveries [simp]: "list_all timer_ok (deliveries E w c)"
  by (simp add: deliveries_def split: option.splits)

lemma timer_ok_unsafe:
  assumes "a \<le> 33" and "list_all timer_ok (co_out c)"
  shows "list_all timer_ok (co_out (handle_incoming_unsafe E w ts a c))"
  using assms attempts_succ [of a] by (simp add: handle_incoming_unsafe_eq timer_ok_retry)

lemma timer_ok_handle_incoming:
  assumes "list_all timer_ok (co_out c)"
  shows "list_all timer_ok (co_out (fst (handle_incoming E now w c)))"
proof (cases "str_range (co_pk_str c) 2 10")
  case None
  with assms show ?thesis by (simp add: handle_incoming_def Let_def)
next
  case (Some own)
  with assms show ?thesis
    by (simp add: handle_incoming_eq Let_def timer_ok_unsafe timer_ok_retry split: outcome.splits)
qed

lemma timer_ok_handle_retry:
  assumes "rm_attempts m \<le> 33" and "list_all timer_ok (co_out c)"
  shows "list_all timer_ok (co_out (fst (handle_retry E m c)))"
  using assms attempts_succ [OF assms(1)]
  by (simp add: handle_retry_def timer_ok_unsafe timer_ok_retry split: outcome.splits)

section \<open>Requests: what a handler adds\<close>

text \<open>
  Each request or output handler only adds effects without timers, keeps the identity and the
  sink, keeps what is stored, and allocates fresh addresses.
\<close>

definition extends ::
  "('lk, 'kg, 'mk, 'off, 'mo, 'cos, 'ps) effect list \<Rightarrow>
   ('db, 'sk, 'lk, 'kg, 'mk, 'off, 'mo, 'cos, 'ps) coordinator \<Rightarrow>
   ('db, 'sk, 'lk, 'kg, 'mk, 'off, 'mo, 'cos, 'ps) coordinator \<Rightarrow> bool" where
  "extends es c c' \<longleftrightarrow>
     co_out c' = co_out c @ es \<and> co_pk_str c' = co_pk_str c \<and> co_sk c' = co_sk c \<and>
     co_sink c' = co_sink c \<and> co_next_addr c \<le> co_next_addr c'"

lemma extends_emit: "c' = emit es c \<Longrightarrow> extends es c c'"
  by (simp add: extends_def)

text \<open>The key generation request, branch by branch.\<close>

lemma handle_keygen_request_eq:
  "handle_keygen_request E req c =
     (let c0 = emit [Inc REQUESTS_KEYGEN_HANDLED,
                 Respond (mk_response (kr_request_id req) [] Keygen_type Processing)] c in
      case group_new (kr_participant_public_keys req) (ucast (kr_threshold req)) (co_pk_str c) of
        None \<Rightarrow> (c0, Panic)
      | Some g \<Rightarrow>
          (case get_i g of
             None \<Rightarrow> (c0, Panic)
           | Some i \<Rightarrow>
               (case ce_keygen_new E i (get_t g) (get_n g) of
                  None \<Rightarrow> (c0, Err ''Create state machine'')
                | Some sm \<Rightarrow>
                    (let room = make_room_id (kr_request_id req) (pg_group_id g) in
                     (emit [Start_keygen (co_next_addr c) (player_new req room i sm)]
                        (c0\<lparr>co_next_addr := co_next_addr c + 1,
                            co_db := fst (save_group E (co_db c) g),
                            co_keygen_runners :=
                              (co_keygen_runners c)(room \<mapsto> co_next_addr c)\<rparr>), Ok ())))))"
  by (simp add: handle_keygen_request_def respond_def Let_def emit_def get_group_id_def
      split: option.splits)

lemma handle_keygen_request_Panic_iff:
  "snd (handle_keygen_request E req c) = Panic \<longleftrightarrow>
     (\<exists>pk \<in> set (kr_participant_public_keys req). str_range pk 2 10 = None) \<or>
     co_pk_str c \<notin> set (kr_participant_public_keys req)"
proof (cases "group_new (kr_participant_public_keys req) (ucast (kr_threshold req)) (co_pk_str c)")
  case None
  then have "\<exists>pk \<in> set (kr_participant_public_keys req). str_range pk 2 10 = None"
    by (simp add: group_new_None_iff)
  with None show ?thesis
    by (simp add: handle_keygen_request_eq Let_def)
next
  case (Some g)
  then have "\<not> (\<exists>pk \<in> set (kr_participant_public_keys req). str_range pk 2 10 = None)"
    by (simp add: group_new_Some_iff)
  moreover have "get_i g = None \<longleftrightarrow> co_pk_str c \<notin> set (kr_participant_public_keys req)"
    using group_new_fields [OF Some] by (simp add: get_i_None_iff)
  ultimately show ?thesis
    using Some by (cases "get_i g")
      (simp_all add: handle_keygen_request_eq Let_def split: option.splits)
qed

lemma participant_indices_Ok_iff:
  "participant_indices g t ps = Ok s_l \<longleftrightarrow>
     length ps = unat (t + 1) \<and> set ps \<subseteq> set (pg_public_keys g) \<and>
     s_l = map (\<lambda>p. word_of_nat (the (get_index g p))) ps"
proof -
  let ?found = "map (get_index g) ps"
  have ev: "filter (\<lambda>o'. o' = None) ?found = [] \<longleftrightarrow> set ps \<subseteq> set (pg_public_keys g)"
    by (auto simp: filter_empty_conv)
  have id: "filter (\<lambda>o'. o' \<noteq> None) ?found = ?found" if "set ps \<subseteq> set (pg_public_keys g)"
    using that by (auto simp: filter_id_conv)
  show ?thesis
  proof (cases "set ps \<subseteq> set (pg_public_keys g)")
    case True
    with ev id [OF True] show ?thesis
      by (auto simp: participant_indices_def Let_def o_def)
  next
    case False
    with ev show ?thesis
      by (auto simp: participant_indices_def Let_def)
  qed
qed

lemma participant_indices_not_Panic [simp]: "participant_indices g t ps \<noteq> Panic"
  by (simp add: participant_indices_def Let_def)

lemma participant_indices_Err:
  "participant_indices g t ps = Err e \<Longrightarrow> e = ''Find index of participants''"
  by (auto simp: participant_indices_def Let_def split: if_splits)

text \<open>The signing request, branch by branch, once the share is found.\<close>

definition sign_subgroup_saved ::
  "('db, 'sk, 'pk, 'sg, 'lk, 'kg, 'mk, 'off, 'mo, 'ps) cenv \<Rightarrow> group \<Rightarrow>
   ('db, 'sk, 'lk, 'kg, 'mk, 'off, 'mo, 'cos, 'ps) coordinator \<Rightarrow>
   ('db, 'sk, 'lk, 'kg, 'mk, 'off, 'mo, 'cos, 'ps) coordinator" where
  "sign_subgroup_saved E subgroup c =
     emit [Inc REQUESTS_SIGN_HANDLED] (c\<lparr>co_db := fst (save_group E (co_db c) subgroup)\<rparr>)"

lemma handle_sign_request_no_share:
  assumes "retrieve_share E (co_sk c) (co_db c) (sr_public_key req) = Err e"
  shows "handle_sign_request E req c =
    (emit [Inc REQUESTS_SIGN_HANDLED] c, Err ''Retrieve local share.'')"
  using assms by (simp add: handle_sign_request_def Let_def)

lemma handle_sign_request_eq:
  assumes "retrieve_share E (co_sk c) (co_db c) (sr_public_key req) = Ok ls"
    and "t = env_lk_t E (sls_share ls)"
  shows "handle_sign_request E req c =
    (case (group_new (sls_public_keys ls) t (co_pk_str c),
           group_new (sr_participant_public_keys req) t (co_pk_str c)) of
       (Some g, Some sub) \<Rightarrow>
         (let c1 = sign_subgroup_saved E sub c;
              c2 = respond (sr_request_id req) [] Sign_type Processing c1 in
          case participant_indices g t (sr_participant_public_keys req) of
            Ok s_l \<Rightarrow>
              (case (get_i g, get_i sub) of
                 (Some i0, Some i) \<Rightarrow>
                   (let room = make_room_id (sr_request_id req) (pg_group_id sub);
                        input = \<lparr>es_inner = req, es_room = room, es_i = i, es_s_l = s_l\<rparr> in
                    case ce_offline_new E i s_l (sls_share ls) of
                      None \<Rightarrow> (c2, Err ''Create state machine'')
                    | Some sm \<Rightarrow>
                        (emit [Start_offline (co_next_addr c) (player_new input room i sm)]
                           (c2\<lparr>co_next_addr := co_next_addr c + 1,
                               co_offline_state_runners :=
                                 (co_offline_state_runners c)(room \<mapsto> co_next_addr c)\<rparr>), Ok ()))
               | _ \<Rightarrow> (c2, Panic))
          | Err e \<Rightarrow> (c1, Err e)
          | Panic \<Rightarrow> (c1, Panic))
     | _ \<Rightarrow> (emit [Inc REQUESTS_SIGN_HANDLED] c, Panic))"
  using assms
  by (simp add: handle_sign_request_def respond_def Let_def emit_def get_group_id_def
      sign_subgroup_saved_def make_room_id_def ROOM_SEPARATOR_def split: option.splits outcome.splits)

lemma handle_sign_request_Panic_iff:
  assumes share: "retrieve_share E (co_sk c) (co_db c) (sr_public_key req) = Ok ls"
    and g: "group_new (sls_public_keys ls) (env_lk_t E (sls_share ls)) (co_pk_str c) = Some g"
  shows "snd (handle_sign_request E req c) = Panic \<longleftrightarrow>
    (\<exists>pk \<in> set (sr_participant_public_keys req). str_range pk 2 10 = None) \<or>
    (\<exists>s_l. participant_indices g (env_lk_t E (sls_share ls)) (sr_participant_public_keys req) = Ok s_l) \<and>
    (co_pk_str c \<notin> set (sls_public_keys ls) \<or> co_pk_str c \<notin> set (sr_participant_public_keys req))"
proof (cases "group_new (sr_participant_public_keys req) (env_lk_t E (sls_share ls)) (co_pk_str c)")
  case None
  then have "\<exists>pk \<in> set (sr_participant_public_keys req). str_range pk 2 10 = None"
    by (simp add: group_new_None_iff)
  with None show ?thesis by (simp add: handle_sign_request_eq [OF share refl] g)
next
  case (Some sub)
  then have "\<not> (\<exists>pk \<in> set (sr_participant_public_keys req). str_range pk 2 10 = None)"
    by (simp add: group_new_Some_iff)
  moreover have i: "get_i sub = None \<longleftrightarrow> co_pk_str c \<notin> set (sr_participant_public_keys req)"
    "get_i g = None \<longleftrightarrow> co_pk_str c \<notin> set (sls_public_keys ls)"
    using group_new_fields [OF Some] group_new_fields [OF g] by (simp_all add: get_i_None_iff)
  ultimately show ?thesis
    unfolding handle_sign_request_eq [OF share refl] g Some
    by (cases "participant_indices g (env_lk_t E (sls_share ls)) (sr_participant_public_keys req)";
        cases "get_i g"; cases "get_i sub")
      (simp_all add: Let_def split: option.splits)
qed

section \<open>Outputs\<close>

lemma handle_output_keygen_eq:
  assumes "group_new (kr_participant_public_keys (po_input msg)) (ucast (kr_threshold (po_input msg)))
    (co_pk_str c) = Some g"
  shows "handle_output_keygen E msg c =
    (emit [Inc REQUESTS_KEYGEN_DONE,
       Respond (mk_response (kr_request_id (po_input msg))
         (hex_encode (env_crypto E) (env_lk_public_key E (po_output msg))) Keygen_type Done)]
       (c\<lparr>co_offline_state_runners := (co_offline_state_runners c)
            (make_room_id (kr_request_id (po_input msg)) (pg_group_id g) := None),
          co_db := fst (save_share E (co_db c)
            \<lparr>sls_public_keys = kr_participant_public_keys (po_input msg),
             sls_own_public_key = co_pk_str c, sls_share = po_output msg\<rparr>)\<rparr>), Ok ())"
  using assms
  by (simp add: handle_output_keygen_def respond_def Let_def emit_def get_group_id_def
      split: prod.splits)

lemma handle_output_keygen_Panic:
  "group_new (kr_participant_public_keys (po_input msg)) (ucast (kr_threshold (po_input msg)))
    (co_pk_str c) = None \<Longrightarrow>
   handle_output_keygen E msg c = (emit [Inc REQUESTS_KEYGEN_DONE] c, Panic)"
  by (simp add: handle_output_keygen_def Let_def)

lemma handle_output_offline_eq:
  "handle_output_offline E msg c =
     (let input = po_input msg; rid = sr_request_id (es_inner input);
          c' = c\<lparr>co_offline_state_runners := (co_offline_state_runners c)(es_room input := None)\<rparr> in
      case ce_from_hex E (sr_hash (es_inner input)) of
        None \<Rightarrow> emit [Inc REQUESTS_OFFLINE_DONE, Respond (mk_response rid [] Sign_type Error)] c'
      | Some message \<Rightarrow>
          emit [Inc REQUESTS_OFFLINE_DONE,
              Start_signer (co_next_addr c) (signer_new input
                \<lparr>st_room = es_room input, st_index = es_i input,
                 st_t = word_of_nat (length (es_s_l input)) - 1, st_message = message,
                 st_completed_offline_stage = po_output msg\<rparr>),
              Respond (mk_response rid [] Sign_type Processing)]
            (c'\<lparr>co_next_addr := co_next_addr c + 1,
                co_signers := (co_signers c)(es_room input \<mapsto> co_next_addr c)\<rparr>))"
  by (simp add: handle_output_offline_def respond_def Let_def emit_def split: option.splits)

lemma handle_output_sign_eq:
  "handle_output_sign E msg c =
     emit [Inc REQUESTS_SIGN_DONE,
       Respond (mk_response (sr_request_id (es_inner (po_input msg)))
         (signature_hex (env_crypto E) (po_output msg)) Sign_type Done)] c"
  by (simp add: handle_output_sign_def respond_def)

lemma length_signature_hex:
  assumes "\<And>b. length (hex_encode C b) = 2 * length b"
  shows "length (signature_hex C sg) = 4 + 2 * length (sg_r sg) + 2 * length (sg_s sg)"
  by (simp add: signature_hex_def assms)

end
