(* ===== verification/Keystore.thy ===== *)
theory Keystore
  imports Externals
begin

text \<open>
  \<open>src/src/keystore.rs\<close>: the secret key of a server is in an encrypted keystore file, whose
  password is in a file that only its owner may read. The file system and \<open>eth_keystore\<close> are
  arguments.
\<close>

text \<open>\<open>str::trim\<close>: white space in the sense of Unicode, in its UTF-8 encoding.\<close>

definition ascii_space :: "char \<Rightarrow> bool" where
  "ascii_space c \<longleftrightarrow> byte_in c 9 13 \<or> byte_in c 32 32"

definition space_codes :: "string set" where
  "space_codes =
     {[CHR 0xC2, CHR 0x85], [CHR 0xC2, CHR 0xA0], [CHR 0xE1, CHR 0x9A, CHR 0x80],
      [CHR 0xE2, CHR 0x80, CHR 0xA8], [CHR 0xE2, CHR 0x80, CHR 0xA9],
      [CHR 0xE2, CHR 0x80, CHR 0xAF], [CHR 0xE2, CHR 0x81, CHR 0x9F],
      [CHR 0xE3, CHR 0x80, CHR 0x80]} \<union>
     {[CHR 0xE2, CHR 0x80, CHR 0x80], [CHR 0xE2, CHR 0x80, CHR 0x81],
      [CHR 0xE2, CHR 0x80, CHR 0x82], [CHR 0xE2, CHR 0x80, CHR 0x83],
      [CHR 0xE2, CHR 0x80, CHR 0x84], [CHR 0xE2, CHR 0x80, CHR 0x85],
      [CHR 0xE2, CHR 0x80, CHR 0x86], [CHR 0xE2, CHR 0x80, CHR 0x87],
      [CHR 0xE2, CHR 0x80, CHR 0x88], [CHR 0xE2, CHR 0x80, CHR 0x89],
      [CHR 0xE2, CHR 0x80, CHR 0x8A]}"

fun trim_start :: "string \<Rightarrow> string" where
  "trim_start [] = []"
| "trim_start [a] = (if ascii_space a then [] else [a])"
| "trim_start [a, b] =
     (if ascii_space a then trim_start [b] else if [a, b] \<in> space_codes then [] else [a, b])"
| "trim_start (a # b # c # s) =
     (if ascii_space a then trim_start (b # c # s)
      else if [a, b] \<in> space_codes then trim_start (c # s)
      else if [a, b, c] \<in> space_codes then trim_start s else a # b # c # s)"

text \<open>The same from the end; \<open>space_codes\<close> read backwards.\<close>

fun trim_rev :: "string \<Rightarrow> string" where
  "trim_rev [] = []"
| "trim_rev [a] = (if ascii_space a then [] else [a])"
| "trim_rev [a, b] =
     (if ascii_space a then trim_rev [b] else if [b, a] \<in> space_codes then [] else [a, b])"
| "trim_rev (a # b # c # s) =
     (if ascii_space a then trim_rev (b # c # s)
      else if [b, a] \<in> space_codes then trim_rev (c # s)
      else if [c, b, a] \<in> space_codes then trim_rev s else a # b # c # s)"

definition trim :: "string \<Rightarrow> string" where
  "trim s = rev (trim_rev (rev (trim_start s)))"

text \<open>\<open>path.metadata()\<close> gives the mode of a file, \<open>read_to_string\<close> its text.\<close>

record file_system =
  fs_mode :: "string \<Rightarrow> u32 option"
  fs_read_to_string :: "string \<Rightarrow> string option"

definition get_secret_key ::
  "('sk, 'pk, 'sg) crypto \<Rightarrow> file_system \<Rightarrow> (string \<Rightarrow> string \<Rightarrow> string option) \<Rightarrow>
   string \<Rightarrow> string \<Rightarrow> ('sk \<times> 'pk) result" where
  "get_secret_key C fs decrypt_key keystore_path password_path =
     and_then (ok_or ''find file'' (fs_mode fs password_path)) (\<lambda>mode.
     and_then (if and mode 0x1FF \<noteq> 0x100 then Err ''password file mode is not 0o400'' else Ok ()) (\<lambda>_.
     and_then (ok_or ''read password file'' (fs_read_to_string fs password_path)) (\<lambda>password.
     let password = trim password in
     and_then (ok_or ''decrypt keystore'' (decrypt_key keystore_path password)) (\<lambda>sk.
     and_then (ok_or ''parse secret key'' (sk_parse_slice C sk)) (\<lambda>sk.
     let pk = pk_from_secret_key C sk in
     Ok (sk, pk))))))"

lemma get_secret_key_not_Panic [simp]: "get_secret_key C fs dk kp pp \<noteq> Panic"
  by (auto simp: get_secret_key_def and_then_eq_Panic Let_def)

lemma get_secret_key_Ok_iff:
  "get_secret_key C fs dk kp pp = Ok (sk, pk) \<longleftrightarrow>
     (\<exists>mode pw b. fs_mode fs pp = Some mode \<and> and mode 0x1FF = 0x100 \<and>
        fs_read_to_string fs pp = Some pw \<and> dk kp (trim pw) = Some b \<and>
        sk_parse_slice C b = Some sk) \<and> pk = pk_from_secret_key C sk"
  by (auto simp: get_secret_key_def and_then_eq_Ok Let_def)

text \<open>Nobody but the owner may read, and nobody may write or execute.\<close>

lemma mode_check:
  "and (mode :: u32) 0x1FF = 0x100 \<longleftrightarrow> bit mode 8 \<and> (\<forall>n < 8. \<not> bit mode n)"
proof -
  have mask: "and mode 0x1FF = take_bit 9 mode"
    by (simp add: take_bit_eq_mask mask_eq_exp_minus_1)
  have pow: "bit (0x100 :: u32) n \<longleftrightarrow> n = 8" for n
    using bit_exp_iff [where 'a = "32 word", of 8 n]
    by (auto dest: bit_imp_le_length)
  have "take_bit 9 mode = 0x100 \<longleftrightarrow> (\<forall>n. n < 9 \<and> bit mode n \<longleftrightarrow> n = 8)"
  proof
    assume "take_bit 9 mode = 0x100"
    then have "bit (take_bit 9 mode) n \<longleftrightarrow> n = 8" for n using pow [of n] by simp
    then show "\<forall>n. n < 9 \<and> bit mode n \<longleftrightarrow> n = 8" by (simp add: bit_take_bit_iff)
  next
    assume "\<forall>n. n < 9 \<and> bit mode n \<longleftrightarrow> n = 8"
    then show "take_bit 9 mode = 0x100"
      by (intro bit_eqI) (simp only: bit_take_bit_iff pow)
  qed
  also have "\<dots> \<longleftrightarrow> bit mode 8 \<and> (\<forall>n < 8. \<not> bit mode n)"
  proof -
    have "n < 9 \<longleftrightarrow> n < 8 \<or> n = 8" for n :: nat by auto
    then show ?thesis by (metis less_irrefl)
  qed
  finally show ?thesis
    by (simp add: mask)
qed

end
