(* ===== verification/Server.thy ===== *)
theory Server
  imports Coordinator Keystore
begin

text \<open>
  \<open>src/src/server.rs\<close>, \<open>src/src/main.rs\<close>, \<open>src/src/actors/mod.rs\<close> and \<open>src/src/cli.rs\<close>: the gRPC
  service, the results database behind \<open>check_result\<close>, the hand-over of requests to the
  coordinator, and the start-up of the program.
\<close>

section \<open>The gRPC service\<close>

datatype status =
    Already_exists string
  | Internal string
  | Invalid_argument string
  | Not_found string

text \<open>
  \<open>tx\<close> and \<open>tx_res\<close> are the sending ends of unbounded channels; a send fails when the receiver
  is gone. What was sent is kept in the queue of the channel.
\<close>

record 'db mpc_imp =
  mi_tx_open :: bool
  mi_tx :: "request list"
  mi_tx_res_open :: bool
  mi_tx_res :: "check_result_response list"
  mi_results_db :: 'db

definition mpc_imp_new :: "'db \<Rightarrow> 'db mpc_imp" where
  "mpc_imp_new db =
     \<lparr>mi_tx_open = True, mi_tx = [], mi_tx_res_open = True, mi_tx_res = [], mi_results_db = db\<rparr>"

definition tx_send :: "request \<Rightarrow> 'db mpc_imp \<Rightarrow> 'db mpc_imp \<times> bool" where
  "tx_send r s = (if mi_tx_open s then (s\<lparr>mi_tx := mi_tx s @ [r]\<rparr>, True) else (s, False))"

definition tx_res_send :: "check_result_response \<Rightarrow> 'db mpc_imp \<Rightarrow> 'db mpc_imp" where
  "tx_res_send r s = (if mi_tx_res_open s then s\<lparr>mi_tx_res := mi_tx_res s @ [r]\<rparr> else s)"

text \<open>\<open>contains_key(..).map_or(false, |x| x)\<close>\<close>

definition already_exists ::
  "('db, 'sk, 'pk, 'sg, 'lk, 'x) env_scheme \<Rightarrow> 'db mpc_imp \<Rightarrow> string \<Rightarrow> bool" where
  "already_exists E s rid =
     (case sled_contains_key (env_sled E) (mi_results_db s) rid of None \<Rightarrow> False | Some x \<Rightarrow> x)"

definition exists_message :: "string \<Rightarrow> string" where
  "exists_message rid = ''A request of id '' @ [CHR 0x22] @ rid @ [CHR 0x22] @ '' already exists.''"

definition keygen ::
  "('db, 'sk, 'pk, 'sg, 'lk, 'x) env_scheme \<Rightarrow> keygen_request \<Rightarrow> 'db mpc_imp \<Rightarrow>
   'db mpc_imp \<times> (status, keygen_response) outcome" where
  "keygen E req s =
     (if already_exists E s (kr_request_id req)
      then (s, Err (Already_exists (exists_message (kr_request_id req))))
      else
        let request_id = kr_request_id req;
            s = tx_res_send (mk_response request_id [] Keygen_type Received) s in
        case tx_send (Keygen_request req) s of
          (s, True) \<Rightarrow> (s, Ok \<lparr>kresp_request_id = request_id\<rparr>)
        | (s, False) \<Rightarrow> (s, Err (Internal ''Failed to queue the request.'')))"

definition sign ::
  "('db, 'sk, 'pk, 'sg, 'lk, 'kg, 'mk, 'off, 'mo, 'ps) cenv \<Rightarrow> sign_request \<Rightarrow> 'db mpc_imp \<Rightarrow>
   'db mpc_imp \<times> (status, sign_response) outcome" where
  "sign E req s =
     (if already_exists E s (sr_request_id req)
      then (s, Err (Already_exists (exists_message (sr_request_id req))))
      else
        case ce_from_hex E (sr_hash req) of
          Some _ \<Rightarrow>
            (let request_id = sr_request_id req;
                 s = tx_res_send (mk_response request_id [] Sign_type Received) s in
             case tx_send (Sign_request req) s of
               (s, True) \<Rightarrow> (s, Ok \<lparr>sresp_request_id = request_id\<rparr>)
             | (s, False) \<Rightarrow> (s, Err (Internal ''Failed to queue the request.'')))
        | None \<Rightarrow> (s, Err (Invalid_argument ''Supplied hash is not a valid hash.'')))"

definition check_result ::
  "('db, 'sk, 'pk, 'sg, 'lk, 'x) env_scheme \<Rightarrow> check_result_request \<Rightarrow> 'db mpc_imp \<Rightarrow>
   (status, check_result_response) outcome" where
  "check_result E req s =
     (let not_found = Err (Not_found ''Not found'') in
      case sled_get (env_sled E) (mi_results_db s) (cq_request_id req) of
        None \<Rightarrow> not_found
      | Some None \<Rightarrow> not_found
      | Some (Some bytes) \<Rightarrow>
          (case de (env_result E) bytes of Some r \<Rightarrow> Ok r | None \<Rightarrow> not_found))"

section \<open>The results\<close>

definition save_result ::
  "('db, 'sk, 'pk, 'sg, 'lk, 'x) env_scheme \<Rightarrow> 'db \<Rightarrow> check_result_response \<Rightarrow>
   'db \<times> unit result" where
  "save_result E db response =
     (let key = cr_request_id response in
      case ser (env_result E) response of
        None \<Rightarrow> (db, Err ''serde_json'')
      | Some value \<Rightarrow>
          (case sled_insert (env_sled E) db key value of
             (db', None) \<Rightarrow> (db', Err ''sled'')
           | (db', Some _) \<Rightarrow> (db', Ok ())))"

text \<open>The loop of \<open>handle_response\<close> over the responses received; the result of a save is ignored.\<close>

fun handle_response ::
  "('db, 'sk, 'pk, 'sg, 'lk, 'x) env_scheme \<Rightarrow> 'db \<Rightarrow> check_result_response list \<Rightarrow> 'db" where
  "handle_response E db [] = db"
| "handle_response E db (r # rs) = handle_response E (fst (save_result E db r)) rs"

section \<open>The hand-over to the coordinator\<close>

definition handle :: "request \<Rightarrow> counter \<times> coordinator_message" where
  "handle request =
     (case request of
        Keygen_request r \<Rightarrow> (REQUESTS_KEYGEN_RECEIVED, KeygenRequest r)
      | Sign_request r \<Rightarrow> (REQUESTS_SIGN_RECEIVED, SignRequest r))"

section \<open>Start-up\<close>

record cli =
  cli_messenger_address :: "string option"
  cli_redis_url :: "string option"
  cli_address :: string
  cli_port :: u16
  cli_keystore_path :: string
  cli_password_path :: string
  cli_db_path :: string

datatype setup_error = NoMessageQueueConnection | MultipleMessageQueueConfigured | OtherSetup string

datatype app_error = MetricsServerError | MpcServerError

text \<open>
  What the start-up calls: \<open>Url::join\<close>, \<open>surf::get\<close>, \<open>redis::Client::open\<close> and
  \<open>get_connection\<close>, and whether the two \<open>join_computation\<close> functions connect.
\<close>

record outside =
  os_url_join :: "string \<Rightarrow> string \<Rightarrow> string option"
  os_http_get :: "string \<Rightarrow> bool"
  os_redis_open :: "string \<Rightarrow> bool"
  os_redis_connect :: "string \<Rightarrow> bool"
  os_join_messenger :: "string \<Rightarrow> bool"
  os_join_redis :: "string \<Rightarrow> bool"

definition precheck :: "outside \<Rightarrow> cli \<Rightarrow> (setup_error, unit) outcome" where
  "precheck w args =
     (case (cli_messenger_address args, cli_redis_url args) of
        (Some url, None) \<Rightarrow>
          and_then (ok_or (OtherSetup ''join'') (os_url_join w url ''healthcheck'')) (\<lambda>url.
          if os_http_get w url then Ok () else Err NoMessageQueueConnection)
      | (None, Some url) \<Rightarrow>
          (if \<not> os_redis_open w url then Err (OtherSetup ''redis'')
           else if os_redis_connect w url then Ok () else Err NoMessageQueueConnection)
      | _ \<Rightarrow> Err MultipleMessageQueueConfigured)"

text \<open>
  \<open>use_messenger\<close> and \<open>use_redis\<close>: the secret key and the database are unwrapped; when the
  transport connects, a coordinator is created and every request received is handed to it.
  \<open>None\<close> is the case in which it does not connect and the function returns at once, which drops
  the receiver of the requests. \<open>opened\<close> is the result of \<open>sled::open\<close>.
\<close>

definition serve_requests ::
  "('db, 'sk, 'pk, 'sg, 'lk, 'x) env_scheme \<Rightarrow> ('sk \<times> 'pk) result \<Rightarrow> 'db option \<Rightarrow> bool \<Rightarrow>
   request list \<Rightarrow>
   (anyhow, (('db, 'sk, 'lk, 'kg, 'mk, 'off, 'mo, 'cos, 'ps) coordinator \<times>
     (counter \<times> coordinator_message) list) option) outcome" where
  "serve_requests E keys opened joined rx =
     (case in_context ''Can't get secret key.'' keys of
        Ok (sk, _) \<Rightarrow>
          and_then (unwrap opened) (\<lambda>local_share_db.
          Ok (if joined then Some (coordinator_new E sk local_share_db, map handle rx) else None))
      | _ \<Rightarrow> Panic)"

definition bootstrap ::
  "outside \<Rightarrow> ('db, 'sk, 'pk, 'sg, 'lk, 'x) env_scheme \<Rightarrow> file_system \<Rightarrow>
   (string \<Rightarrow> string \<Rightarrow> string option) \<Rightarrow> 'db option \<Rightarrow> cli \<Rightarrow> request list \<Rightarrow>
   (anyhow, (('db, 'sk, 'lk, 'kg, 'mk, 'off, 'mo, 'cos, 'ps) coordinator \<times>
     (counter \<times> coordinator_message) list) option) outcome" where
  "bootstrap w E fs decrypt_key opened args rx =
     (let keys = get_secret_key (env_crypto E) fs decrypt_key (cli_keystore_path args)
                   (cli_password_path args) in
      case (cli_messenger_address args, cli_redis_url args) of
        (Some url, None) \<Rightarrow> serve_requests E keys opened (os_join_messenger w url) rx
      | (None, Some url) \<Rightarrow> serve_requests E keys opened (os_join_redis w url) rx
      | _ \<Rightarrow> Panic)"

text \<open>The metrics page: \<open>encoded\<close> is the result of the Prometheus encoder.\<close>

definition metrics :: "string option \<Rightarrow> nat \<times> string" where
  "metrics encoded =
     (case encoded of
        Some buffer \<Rightarrow>
          (case from_utf8 buffer of
             Some output \<Rightarrow> (200, output)
           | None \<Rightarrow> (500, ''Failed to encode metrics.''))
      | None \<Rightarrow> (500, ''Failed to encode metrics.''))"

text \<open>\<open>args0.port + 100\<close> wraps in a release build.\<close>

definition metrics_port :: "cli \<Rightarrow> u16" where
  "metrics_port args = cli_port args + 100"

text \<open>The result of the program once both servers have ended.\<close>

definition combined :: "bool \<Rightarrow> bool \<Rightarrow> (app_error, unit) outcome" where
  "combined metrics_ok mpc_ok =
     (if metrics_ok \<and> mpc_ok then Ok ()
      else if \<not> mpc_ok then Err MpcServerError else Err MetricsServerError)"

section \<open>Facts\<close>

lemma already_exists_view:
  assumes "sled_laws (env_sled E) view" and "sled_contains_key (env_sled E) (mi_results_db s) rid \<noteq> None"
  shows "already_exists E s rid \<longleftrightarrow> view (mi_results_db s) rid \<noteq> None"
  using assms(2) sled_laws_contains [OF assms(1)]
  by (auto simp: already_exists_def split: option.splits)

lemma keygen_cases:
  "keygen E req s =
     (if already_exists E s (kr_request_id req)
      then (s, Err (Already_exists (exists_message (kr_request_id req))))
      else (if mi_tx_open s
            then ((tx_res_send (mk_response (kr_request_id req) [] Keygen_type Received) s)
                   \<lparr>mi_tx := mi_tx s @ [Keygen_request req]\<rparr>,
                  Ok \<lparr>kresp_request_id = kr_request_id req\<rparr>)
            else (tx_res_send (mk_response (kr_request_id req) [] Keygen_type Received) s,
                  Err (Internal ''Failed to queue the request.''))))"
  by (simp add: keygen_def tx_send_def tx_res_send_def Let_def)

lemma sign_cases:
  "sign E req s =
     (if already_exists E s (sr_request_id req)
      then (s, Err (Already_exists (exists_message (sr_request_id req))))
      else if ce_from_hex E (sr_hash req) = None
      then (s, Err (Invalid_argument ''Supplied hash is not a valid hash.''))
      else (if mi_tx_open s
            then ((tx_res_send (mk_response (sr_request_id req) [] Sign_type Received) s)
                   \<lparr>mi_tx := mi_tx s @ [Sign_request req]\<rparr>,
                  Ok \<lparr>sresp_request_id = sr_request_id req\<rparr>)
            else (tx_res_send (mk_response (sr_request_id req) [] Sign_type Received) s,
                  Err (Internal ''Failed to queue the request.''))))"
  by (simp add: sign_def tx_send_def tx_res_send_def Let_def split: option.split)

text \<open>A results database that is up: no operation reports an I/O error, responses can be written.\<close>

definition results_up :: "('db, 'sk, 'pk, 'sg, 'lk, 'x) env_scheme \<Rightarrow> bool" where
  "results_up E \<longleftrightarrow>
     (\<forall>r. ser (env_result E) r \<noteq> None) \<and>
     (\<forall>d k v. snd (sled_insert (env_sled E) d k v) \<noteq> None) \<and>
     (\<forall>d k. sled_get (env_sled E) d k \<noteq> None)"

definition results_laws ::
  "('db, 'sk, 'pk, 'sg, 'lk, 'x) env_scheme \<Rightarrow> ('db \<Rightarrow> string \<Rightarrow> string option) \<Rightarrow> bool" where
  "results_laws E view \<longleftrightarrow> sled_laws (env_sled E) view \<and> codec_ok (env_result E) \<and> results_up E"

text \<open>The last response for an id, the abstract meaning of the results database.\<close>

definition last_response ::
  "string \<Rightarrow> check_result_response list \<Rightarrow> check_result_response option" where
  "last_response rid rs =
     (let mine = filter (\<lambda>r. cr_request_id r = rid) rs in
      if mine = [] then None else Some (last mine))"

lemma last_response_Nil [simp]: "last_response rid [] = None"
  by (simp add: last_response_def)

lemma last_response_snoc [simp]:
  "last_response rid (rs @ [r]) =
     (if cr_request_id r = rid then Some r else last_response rid rs)"
  by (simp add: last_response_def)

lemma handle_response_append:
  "handle_response E db (rs @ ss) = handle_response E (handle_response E db rs) ss"
  by (induction rs arbitrary: db) simp_all

lemma save_result_view:
  assumes "results_laws E view"
  shows "\<exists>val. ser (env_result E) r = Some val \<and>
    view (fst (save_result E db r)) = (view db)(cr_request_id r \<mapsto> val)"
proof -
  have up: "results_up E" and sl: "sled_laws (env_sled E) view"
    using assms by (simp_all only: results_laws_def)
  from up obtain val where v: "ser (env_result E) r = Some val"
    unfolding results_up_def by blast
  obtain db' o' where p: "sled_insert (env_sled E) db (cr_request_id r) val = (db', o')"
    by (cases "sled_insert (env_sled E) db (cr_request_id r) val")
  with up have "o' \<noteq> None"
    unfolding results_up_def by (metis snd_conv)
  with p have i: "sled_insert (env_sled E) db (cr_request_id r) val = (db', Some ())"
    by (cases o') simp_all
  from sled_laws_insert [OF sl i] v i show ?thesis by (simp add: save_result_def)
qed

text \<open>What the database holds under an id, after the responses \<open>rs\<close>.\<close>

lemma handle_response_view:
  assumes "results_laws E view"
  shows "view (handle_response E db rs) rid =
    (case last_response rid rs of None \<Rightarrow> view db rid | Some r \<Rightarrow> ser (env_result E) r)"
proof (induction rs rule: rev_induct)
  case (snoc r rs)
  obtain val where "ser (env_result E) r = Some val"
    "view (fst (save_result E (handle_response E db rs) r)) =
       (view (handle_response E db rs))(cr_request_id r \<mapsto> val)"
    using save_result_view [OF assms] by blast
  with snoc show ?case by (simp add: handle_response_append)
qed simp

lemma check_result_after:
  assumes laws: "results_laws E view"
    and known: "view db (cq_request_id req) = None \<or> last_response (cq_request_id req) rs \<noteq> None"
  shows "check_result E req (s\<lparr>mi_results_db := handle_response E db rs\<rparr>) =
    (case last_response (cq_request_id req) rs of
       None \<Rightarrow> Err (Not_found ''Not found'')
     | Some r \<Rightarrow> Ok r)"
proof -
  let ?d = "handle_response E db rs" and ?rid = "cq_request_id req"
  have up: "results_up E" and sl: "sled_laws (env_sled E) view"
    using laws by (simp_all only: results_laws_def)
  from up obtain found where "sled_get (env_sled E) ?d ?rid = Some found"
    unfolding results_up_def by blast
  with sled_laws_get [OF sl this] have get: "sled_get (env_sled E) ?d ?rid = Some (view ?d ?rid)"
    by simp
  show ?thesis
  proof (cases "last_response ?rid rs")
    case None
    with known get handle_response_view [OF laws, of db rs ?rid] show ?thesis
      by (simp add: check_result_def)
  next
    case (Some r)
    from laws obtain val where v: "ser (env_result E) r = Some val"
      unfolding results_laws_def results_up_def by blast
    then have "de (env_result E) val = Some r"
      using laws by (auto simp: results_laws_def codec_ok_def)
    with v Some get handle_response_view [OF laws, of db rs ?rid] show ?thesis
      by (simp add: check_result_def)
  qed
qed

end
