(* ===== verification/Messenger.thy ===== *)
theory Messenger
  imports Mpc_Prelude
begin

text \<open>
  The message broker \<open>src/messenger/src/main.rs\<close>: one room that keeps the texts broadcast to it,
  and server-sent event streams that read them by index. An \<open>Arc<Room>\<close> is an address into a heap
  of rooms, because a room may be replaced in the map while tasks and subscriptions still hold it.
\<close>

section \<open>Rooms, the database, subscriptions\<close>

record room =
  ro_messages :: "string list"
  ro_subscribers :: u16
  ro_next_idx :: u16

record broker =
  bk_heap :: "room list"
  bk_rooms :: "string \<rightharpoonup> nat"

record subscription =
  sub_room :: nat
  sub_next_event :: u16

definition ROOM_ID :: string where
  "ROOM_ID = ''---default---''"

definition room_empty :: room where
  "room_empty = \<lparr>ro_messages = [], ro_subscribers = 0, ro_next_idx = 1\<rparr>"

definition db_empty :: broker where
  "db_empty = \<lparr>bk_heap = [], bk_rooms = Map.empty\<rparr>"

definition is_abandoned :: "room \<Rightarrow> bool" where
  "is_abandoned r = (ro_subscribers r = 0)"

definition issue_unique_idx :: "room \<Rightarrow> room \<times> u16" where
  "issue_unique_idx r = (r\<lparr>ro_next_idx := ro_next_idx r + 1\<rparr>, ro_next_idx r)"

text \<open>\<open>Arc::new\<close>: a new address.\<close>

definition alloc :: "room \<Rightarrow> broker \<Rightarrow> broker \<times> nat" where
  "alloc r db = (db\<lparr>bk_heap := bk_heap db @ [r]\<rparr>, length (bk_heap db))"

definition update_room :: "nat \<Rightarrow> (room \<Rightarrow> room) \<Rightarrow> broker \<Rightarrow> broker" where
  "update_room a f db = db\<lparr>bk_heap := (bk_heap db)[a := f (bk_heap db ! a)]\<rparr>"

text \<open>
  The two critical sections of \<open>get_room_or_create_empty\<close>: under the read lock, and, when that
  finds nothing to return, under the write lock. Between them other tasks may run.
\<close>

definition find_room :: "string \<Rightarrow> broker \<Rightarrow> nat option" where
  "find_room room_id db =
     (case bk_rooms db room_id of
        Some a \<Rightarrow> if \<not> is_abandoned (bk_heap db ! a) then Some a else None
      | None \<Rightarrow> None)"

definition enter_room :: "string \<Rightarrow> broker \<Rightarrow> broker \<times> nat" where
  "enter_room room_id db =
     (case bk_rooms db room_id of
        Some a \<Rightarrow>
          (if \<not> is_abandoned (bk_heap db ! a) then (db, a)
           else case alloc room_empty db of
             (db', a') \<Rightarrow> (db'\<lparr>bk_rooms := (bk_rooms db')(room_id \<mapsto> a')\<rparr>, a'))
      | None \<Rightarrow>
          (case alloc room_empty db of
             (db', a') \<Rightarrow> (db'\<lparr>bk_rooms := (bk_rooms db')(room_id \<mapsto> a')\<rparr>, a')))"

text \<open>The call of a task that is not disturbed.\<close>

definition get_room_or_create_empty :: "string \<Rightarrow> broker \<Rightarrow> broker \<times> nat" where
  "get_room_or_create_empty room_id db =
     (case find_room room_id db of Some a \<Rightarrow> (db, a) | None \<Rightarrow> enter_room room_id db)"

definition publish :: "nat \<Rightarrow> string \<Rightarrow> broker \<Rightarrow> broker" where
  "publish a message = update_room a (\<lambda>r. r\<lparr>ro_messages := ro_messages r @ [message]\<rparr>)"

text \<open>\<open>fetch_add\<close> and \<open>fetch_sub\<close> wrap, \<open>i + 1\<close> wraps in a release build.\<close>

definition room_subscribe :: "nat \<Rightarrow> u16 option \<Rightarrow> broker \<Rightarrow> broker \<times> subscription" where
  "room_subscribe a last_seen_msg db =
     (update_room a (\<lambda>r. r\<lparr>ro_subscribers := ro_subscribers r + 1\<rparr>) db,
      \<lparr>sub_room = a,
       sub_next_event = (case last_seen_msg of Some i \<Rightarrow> i + 1 | None \<Rightarrow> 0)\<rparr>)"

definition drop_subscription :: "subscription \<Rightarrow> broker \<Rightarrow> broker" where
  "drop_subscription s = update_room (sub_room s) (\<lambda>r. r\<lparr>ro_subscribers := ro_subscribers r - 1\<rparr>)"

text \<open>One pass of the loop of \<open>next\<close>: an event, or \<open>None\<close> when it waits for a notification.\<close>

definition next_event ::
  "subscription \<Rightarrow> broker \<Rightarrow> (subscription \<times> u16 \<times> string) option" where
  "next_event s db =
     (let history = ro_messages (bk_heap db ! sub_room s); i = unat (sub_next_event s) in
      if i < length history
      then Some (s\<lparr>sub_next_event := sub_next_event s + 1\<rparr>, sub_next_event s, history ! i)
      else None)"

section \<open>The HTTP handlers\<close>

text \<open>\<open>str::parse::<u16>\<close>: an optional plus sign and decimal digits, in range.\<close>

definition digit_value :: "char \<Rightarrow> nat option" where
  "digit_value c = (if byte_in c 48 57 then Some (of_char c - 48) else None)"

fun parse_digits :: "nat \<Rightarrow> string \<Rightarrow> nat option" where
  "parse_digits acc [] = Some acc"
| "parse_digits acc (c # cs) =
     (case digit_value c of
        None \<Rightarrow> None
      | Some d \<Rightarrow> if acc * 10 + d \<le> 65535 then parse_digits (acc * 10 + d) cs else None)"

definition parse_u16 :: "string \<Rightarrow> u16 option" where
  "parse_u16 s =
     (let ds = (case s of c # cs \<Rightarrow> if c = CHR ''+'' then cs else s | [] \<Rightarrow> []) in
      if ds = [] then None else map_option word_of_nat (parse_digits 0 ds))"

text \<open>The request guard \<open>LastEventId\<close>; \<open>Inl 400\<close> is the status \<open>BadRequest\<close>.\<close>

definition last_event_id :: "string option \<Rightarrow> nat + u16 option" where
  "last_event_id header =
     (case map_option parse_u16 header of
        Some (Some last_seen_msg) \<Rightarrow> Inr (Some last_seen_msg)
      | Some None \<Rightarrow> Inl 400
      | None \<Rightarrow> Inr None)"

definition subscribe ::
  "string option \<Rightarrow> broker \<Rightarrow> broker \<times> (nat + subscription)" where
  "subscribe header db =
     (case last_event_id header of
        Inl status \<Rightarrow> (db, Inl status)
      | Inr last_seen_msg \<Rightarrow>
          (case get_room_or_create_empty ROOM_ID db of
             (db', a) \<Rightarrow>
               (case room_subscribe a last_seen_msg db' of (db'', s) \<Rightarrow> (db'', Inr s))))"

text \<open>The event that a stream yields for an item of \<open>next\<close>; \<open>id.to_string()\<close> is decimal.\<close>

fun to_decimal :: "nat \<Rightarrow> string" where
  "to_decimal n =
     (if n < 10 then [char_of (48 + n)] else to_decimal (n div 10) @ [char_of (48 + n mod 10)])"

declare to_decimal.simps [simp del]

record event =
  ev_data :: string
  ev_event :: string
  ev_id :: string

definition stream_event :: "u16 \<times> string \<Rightarrow> event" where
  "stream_event im =
     \<lparr>ev_data = snd im, ev_event = ''new-message'', ev_id = to_decimal (unat (fst im))\<rparr>"

definition broadcast :: "string \<Rightarrow> broker \<Rightarrow> broker \<times> nat" where
  "broadcast message db =
     (case get_room_or_create_empty ROOM_ID db of (db', a) \<Rightarrow> (publish a message db', 200))"

definition healthcheck :: string where
  "healthcheck = ''OK''"

section \<open>Rooms: lookup and creation\<close>

text \<open>Without other tasks in between, the read lock is only a short cut.\<close>

lemma get_room_eq_enter_room: "get_room_or_create_empty rid db = enter_room rid db"
  by (simp add: get_room_or_create_empty_def find_room_def enter_room_def split: option.split)

definition abandoned :: "string \<Rightarrow> broker \<Rightarrow> bool" where
  "abandoned rid db \<longleftrightarrow>
     (case bk_rooms db rid of None \<Rightarrow> True | Some a \<Rightarrow> is_abandoned (bk_heap db ! a))"

lemma enter_room_cases:
  "enter_room rid db =
     (if abandoned rid db
      then (\<lparr>bk_heap = bk_heap db @ [room_empty], bk_rooms = (bk_rooms db)(rid \<mapsto> length (bk_heap db))\<rparr>,
            length (bk_heap db))
      else (db, the (bk_rooms db rid)))"
  by (simp add: enter_room_def abandoned_def alloc_def split: option.split)

lemma find_room_Some_iff: "find_room rid db = Some a \<longleftrightarrow> \<not> abandoned rid db \<and> bk_rooms db rid = Some a"
  by (auto simp: find_room_def abandoned_def split: option.splits)

definition wf_broker :: "broker \<Rightarrow> bool" where
  "wf_broker db \<longleftrightarrow> (\<forall>rid a. bk_rooms db rid = Some a \<longrightarrow> a < length (bk_heap db))"

lemma update_room_simps [simp]:
  "bk_rooms (update_room a f db) = bk_rooms db"
  "length (bk_heap (update_room a f db)) = length (bk_heap db)"
  "wf_broker (update_room a f db) = wf_broker db"
  by (simp_all add: update_room_def wf_broker_def)

lemma update_room_nth:
  "b < length (bk_heap db) \<Longrightarrow>
   bk_heap (update_room a f db) ! b = (if a = b then f (bk_heap db ! b) else bk_heap db ! b)"
  by (auto simp: update_room_def nth_list_update)

lemma wf_enter_room:
  "wf_broker db \<Longrightarrow> enter_room rid db = (db', a) \<Longrightarrow> wf_broker db' \<and> a < length (bk_heap db')"
  by (auto simp: enter_room_cases wf_broker_def abandoned_def less_Suc_eq split: if_splits option.splits)

lemma enter_room_heap:
  assumes "enter_room rid db = (db', a)" and "b < length (bk_heap db)"
  shows "bk_heap db' ! b = bk_heap db ! b \<and> b < length (bk_heap db')"
  using assms by (auto simp: enter_room_cases nth_append split: if_splits)

section \<open>Tasks that interleave\<close>

text \<open>
  A request is a task with three points at which others may run: before the read lock, before the
  write lock, and while it holds the address of a room. A stream is a subscription with the
  events it has yielded; \<open>lv_from\<close> is the index at which it began.
\<close>

datatype purpose = For_subscribe "u16 option" | For_broadcast string

datatype task = Enter purpose | Missed purpose | Have nat purpose | Finished

record live =
  lv_sub :: subscription
  lv_from :: nat
  lv_open :: bool
  lv_got :: "(u16 \<times> string) list"

record world =
  wd_db :: broker
  wd_tasks :: "task list"
  wd_streams :: "live list"

definition new_stream :: "subscription \<Rightarrow> live" where
  "new_stream s = \<lparr>lv_sub = s, lv_from = unat (sub_next_event s), lv_open = True, lv_got = []\<rparr>"

fun advance :: "task \<Rightarrow> broker \<Rightarrow> broker \<times> task \<times> live list" where
  "advance (Enter p) db =
     (case find_room ROOM_ID db of Some a \<Rightarrow> (db, Have a p, []) | None \<Rightarrow> (db, Missed p, []))"
| "advance (Missed p) db =
     (case enter_room ROOM_ID db of (db', a) \<Rightarrow> (db', Have a p, []))"
| "advance (Have a (For_subscribe l)) db =
     (case room_subscribe a l db of (db', s) \<Rightarrow> (db', Finished, [new_stream s]))"
| "advance (Have a (For_broadcast m)) db = (publish a m db, Finished, [])"
| "advance Finished db = (db, Finished, [])"

inductive world_step :: "world \<Rightarrow> world \<Rightarrow> bool" where
  arrive: "world_step w (w\<lparr>wd_tasks := wd_tasks w @ [Enter p]\<rparr>)"
| progress:
  "i < length (wd_tasks w) \<Longrightarrow> advance (wd_tasks w ! i) (wd_db w) = (db', t', new) \<Longrightarrow>
   world_step w (w\<lparr>wd_db := db', wd_tasks := (wd_tasks w)[i := t'],
                   wd_streams := wd_streams w @ new\<rparr>)"
| yield:
  "j < length (wd_streams w) \<Longrightarrow> l = wd_streams w ! j \<Longrightarrow> lv_open l \<Longrightarrow>
   next_event (lv_sub l) (wd_db w) = Some (s', ev) \<Longrightarrow>
   world_step w (w\<lparr>wd_streams := (wd_streams w)[j := l\<lparr>lv_sub := s', lv_got := lv_got l @ [ev]\<rparr>]\<rparr>)"
| close:
  "j < length (wd_streams w) \<Longrightarrow> l = wd_streams w ! j \<Longrightarrow> lv_open l \<Longrightarrow>
   world_step w (w\<lparr>wd_db := drop_subscription (lv_sub l) (wd_db w),
                   wd_streams := (wd_streams w)[j := l\<lparr>lv_open := False\<rparr>]\<rparr>)"

inductive_cases world_stepE: "world_step w w'"

definition world_empty :: world where
  "world_empty = \<lparr>wd_db = db_empty, wd_tasks = [], wd_streams = []\<rparr>"

inductive world_reachable :: "world \<Rightarrow> bool" where
  start: "world_reachable world_empty"
| continue: "world_reachable w \<Longrightarrow> world_step w w' \<Longrightarrow> world_reachable w'"

end
