(* ===== verification/Messenger_Facts.thy ===== *)
theory Messenger_Facts
  imports Messenger
begin

text \<open>
  Invariants of the broker under every interleaving of its tasks: the subscriber count is the
  number of open streams, and a stream yields the messages of its room in order, each once, as long
  as the room holds fewer than 2^16 of them; and what happens to a message that is broadcast
  while nobody is subscribed.
\<close>

section \<open>Streams\<close>

definition stream_ok :: "live \<Rightarrow> string list \<Rightarrow> bool" where
  "stream_ok l msgs \<longleftrightarrow>
     (let hi = lv_from l + length (lv_got l) in
      sub_next_event (lv_sub l) = word_of_nat hi \<and>
      (\<forall>k \<in> {lv_from l..<hi}. k mod 65536 < length msgs) \<and>
      lv_got l = map (\<lambda>k. (word_of_nat k, msgs ! (k mod 65536))) [lv_from l..<hi])"

lemma stream_ok_new [simp]: "stream_ok (new_stream s) msgs"
  by (simp add: stream_ok_def new_stream_def Let_def)

lemma stream_ok_append:
  assumes "stream_ok l msgs" shows "stream_ok l (msgs @ [m])"
proof -
  let ?hi = "lv_from l + length (lv_got l)"
  from assms have b: "\<forall>k \<in> {lv_from l..<?hi}. k mod 65536 < length msgs"
    and g: "lv_got l = map (\<lambda>k. (word_of_nat k, msgs ! (k mod 65536))) [lv_from l..<?hi]"
    by (simp_all add: stream_ok_def Let_def)
  from b have "map (\<lambda>k. (word_of_nat k :: u16, (msgs @ [m]) ! (k mod 65536))) [lv_from l..<?hi]
      = map (\<lambda>k. (word_of_nat k, msgs ! (k mod 65536))) [lv_from l..<?hi]"
    by (intro map_cong) (auto simp: nth_append)
  with assms b g show ?thesis
    by (simp add: stream_ok_def Let_def less_Suc_eq)
qed

lemma unat_u16_less: "unat (w :: u16) < 65536"
  using unsigned_less [of w] by simp

lemma unat_word_of_nat_u16: "unat (word_of_nat n :: u16) = n mod 65536"
  by (simp add: unat_of_nat)

lemma stream_ok_next:
  assumes ok: "stream_ok l (ro_messages (bk_heap db ! sub_room (lv_sub l)))"
    and n: "next_event (lv_sub l) db = Some (s', ev)"
  shows "stream_ok (l\<lparr>lv_sub := s', lv_got := lv_got l @ [ev]\<rparr>)
      (ro_messages (bk_heap db ! sub_room (lv_sub l)))"
    and "sub_room s' = sub_room (lv_sub l)"
proof -
  let ?hi = "lv_from l + length (lv_got l)" and ?msgs = "ro_messages (bk_heap db ! sub_room (lv_sub l))"
  from ok have e: "sub_next_event (lv_sub l) = word_of_nat ?hi"
    and b: "\<forall>k \<in> {lv_from l..<?hi}. k mod 65536 < length ?msgs"
    and g: "lv_got l = map (\<lambda>k. (word_of_nat k, ?msgs ! (k mod 65536))) [lv_from l..<?hi]"
    unfolding stream_ok_def Let_def by blast+
  from n have m: "?hi mod 65536 < length ?msgs"
    "s' = (lv_sub l)\<lparr>sub_next_event := word_of_nat ?hi + 1\<rparr>"
    "ev = (word_of_nat ?hi, ?msgs ! (?hi mod 65536))"
    unfolding next_event_def Let_def e unat_word_of_nat_u16 by (auto split: if_splits)
  from m(2) show "sub_room s' = sub_room (lv_sub l)" by simp
  have "[lv_from l..<Suc ?hi] = [lv_from l..<?hi] @ [?hi]" by simp
  then have "lv_got l @ [ev] = map (\<lambda>k. (word_of_nat k, ?msgs ! (k mod 65536))) [lv_from l..<Suc ?hi]"
    using g m(3) by (metis (no_types, lifting) list.simps(8) list.simps(9) map_append)
  moreover have "\<forall>k \<in> {lv_from l..<Suc ?hi}. k mod 65536 < length ?msgs"
    using b m(1) by (auto simp: less_Suc_eq)
  moreover have "sub_next_event s' = word_of_nat (Suc ?hi)"
    using m(2) by simp
  ultimately show "stream_ok (l\<lparr>lv_sub := s', lv_got := lv_got l @ [ev]\<rparr>) ?msgs"
    by (simp add: stream_ok_def Let_def)
qed

text \<open>Below 2^16 messages the index never comes round, and a stream has read a segment of the room.\<close>

lemma stream_ok_segment:
  assumes ok: "stream_ok l msgs" and small: "length msgs < 65536" and "lv_from l < 65536"
  shows "map snd (lv_got l) = take (length (lv_got l)) (drop (lv_from l) msgs)"
    and "map fst (lv_got l) = map word_of_nat [lv_from l..<lv_from l + length (lv_got l)]"
    and "lv_got l \<noteq> [] \<Longrightarrow> lv_from l + length (lv_got l) \<le> length msgs"
proof -
  let ?hi = "lv_from l + length (lv_got l)"
  from ok have b: "\<forall>k \<in> {lv_from l..<?hi}. k mod 65536 < length msgs"
    and g: "lv_got l = map (\<lambda>k. (word_of_nat k, msgs ! (k mod 65536))) [lv_from l..<?hi]"
    unfolding stream_ok_def Let_def by blast+
  have hi: "?hi \<le> 65535 \<or> lv_got l = []"
  proof (rule ccontr)
    assume a: "\<not> (?hi \<le> 65535 \<or> lv_got l = [])"
    then have "65535 \<in> {lv_from l..<?hi}"
      using assms(3) by auto
    with b have "65535 mod 65536 < length msgs" by blast
    with small show False by simp
  qed
  then have mods: "k \<in> {lv_from l..<?hi} \<Longrightarrow> k mod 65536 = k" for k
    by auto
  show n: "?hi \<le> length msgs" if "lv_got l \<noteq> []"
  proof -
    from that have "?hi - 1 \<in> {lv_from l..<?hi}"
      by (cases "lv_got l") auto
    with b mods [OF this] have "?hi - 1 < length msgs" by fastforce
    then show ?thesis by simp
  qed
  have "map snd (lv_got l) = map (\<lambda>k. msgs ! k) [lv_from l..<?hi]"
    using mods by (subst g) auto
  also have "\<dots> = take (length (lv_got l)) (drop (lv_from l) msgs)"
  proof (cases "lv_got l = []")
    case False
    then show ?thesis
      using n by (intro nth_equalityI) auto
  qed simp
  finally show "map snd (lv_got l) = take (length (lv_got l)) (drop (lv_from l) msgs)" .
  show "map fst (lv_got l) = map word_of_nat [lv_from l..<?hi]"
    by (subst g) simp
qed

section \<open>The number of open streams\<close>

definition reads :: "nat \<Rightarrow> live \<Rightarrow> bool" where
  "reads a l \<longleftrightarrow> lv_open l \<and> sub_room (lv_sub l) = a"

definition open_streams :: "nat \<Rightarrow> live list \<Rightarrow> nat" where
  "open_streams a ls = length (filter (reads a) ls)"

lemma open_streams_append [simp]:
  "open_streams a (xs @ ys) = open_streams a xs + open_streams a ys"
  by (simp add: open_streams_def)

lemma open_streams_update:
  "j < length ls \<Longrightarrow>
   open_streams a (ls[j := l]) + (if reads a (ls ! j) then 1 else 0) =
   open_streams a ls + (if reads a l then 1 else 0)"
proof (induction ls arbitrary: j)
  case (Cons x xs)
  then show ?case by (cases j) (auto simp: open_streams_def)
qed simp

lemma open_streams_same:
  "j < length ls \<Longrightarrow> reads a l = reads a (ls ! j) \<Longrightarrow> open_streams a (ls[j := l]) = open_streams a ls"
  using open_streams_update [of j ls a l] by (simp split: if_splits)

section \<open>The invariant\<close>

fun task_ok :: "nat \<Rightarrow> task \<Rightarrow> bool" where
  "task_ok n (Have a p) = (a < n)"
| "task_ok n t = True"

definition world_inv :: "world \<Rightarrow> bool" where
  "world_inv w \<longleftrightarrow>
     wf_broker (wd_db w) \<and>
     (\<forall>t \<in> set (wd_tasks w). task_ok (length (bk_heap (wd_db w))) t) \<and>
     (\<forall>l \<in> set (wd_streams w).
        sub_room (lv_sub l) < length (bk_heap (wd_db w)) \<and> lv_from l < 65536 \<and>
        stream_ok l (ro_messages (bk_heap (wd_db w) ! sub_room (lv_sub l)))) \<and>
     (\<forall>a < length (bk_heap (wd_db w)).
        ro_subscribers (bk_heap (wd_db w) ! a) = word_of_nat (open_streams a (wd_streams w)))"

lemma task_ok_mono: "task_ok n t \<Longrightarrow> n \<le> m \<Longrightarrow> task_ok m t"
  by (cases t) simp_all

lemma world_inv_empty: "world_inv world_empty"
  by (simp add: world_inv_def world_empty_def db_empty_def wf_broker_def)

text \<open>A change of the database that keeps every old room, and adds empty ones.\<close>

definition grows :: "broker \<Rightarrow> broker \<Rightarrow> bool" where
  "grows db db' \<longleftrightarrow>
     length (bk_heap db) \<le> length (bk_heap db') \<and>
     (\<forall>a < length (bk_heap db). bk_heap db' ! a = bk_heap db ! a) \<and>
     (\<forall>a. length (bk_heap db) \<le> a \<and> a < length (bk_heap db') \<longrightarrow> bk_heap db' ! a = room_empty)"

lemma grows_refl [simp]: "grows db db"
  by (auto simp: grows_def)

lemma grows_enter_room: "enter_room rid db = (db', a) \<Longrightarrow> grows db db'"
  by (auto simp: enter_room_cases grows_def nth_append less_Suc_eq split: if_splits)

lemma no_streams_beyond:
  assumes "\<forall>l \<in> set ls. sub_room (lv_sub l) < n" and "n \<le> a"
  shows "open_streams a ls = 0"
  using assms by (auto simp: open_streams_def reads_def filter_empty_conv)

lemma world_inv_grows:
  assumes inv: "world_inv w" and g: "grows (wd_db w) db'" and wf: "wf_broker db'"
    and t: "task_ok (length (bk_heap db')) t'"
  shows "world_inv (w\<lparr>wd_db := db', wd_tasks := (wd_tasks w)[i := t'],
    wd_streams := wd_streams w @ []\<rparr>)"
proof -
  let ?n = "length (bk_heap (wd_db w))" and ?n' = "length (bk_heap db')"
  from g have le: "?n \<le> ?n'" and old: "\<forall>a < ?n. bk_heap db' ! a = bk_heap (wd_db w) ! a"
    and new: "\<forall>a. ?n \<le> a \<and> a < ?n' \<longrightarrow> bk_heap db' ! a = room_empty"
    by (auto simp: grows_def)
  from inv have st: "\<forall>l \<in> set (wd_streams w). sub_room (lv_sub l) < ?n \<and> lv_from l < 65536 \<and>
      stream_ok l (ro_messages (bk_heap (wd_db w) ! sub_room (lv_sub l)))"
    and cnt: "\<forall>a < ?n. ro_subscribers (bk_heap (wd_db w) ! a) =
      word_of_nat (open_streams a (wd_streams w))"
    and ts: "\<forall>t \<in> set (wd_tasks w). task_ok ?n t"
    unfolding world_inv_def by blast+
  have "\<forall>t \<in> set ((wd_tasks w)[i := t']). task_ok ?n' t"
    using ts t le set_update_subset_insert [of "wd_tasks w" i t'] task_ok_mono by blast
  moreover have "\<forall>a < ?n'. ro_subscribers (bk_heap db' ! a) =
      word_of_nat (open_streams a (wd_streams w))"
  proof (intro allI impI)
    fix a assume a: "a < ?n'"
    show "ro_subscribers (bk_heap db' ! a) = word_of_nat (open_streams a (wd_streams w))"
    proof (cases "a < ?n")
      case True
      with old cnt show ?thesis by simp
    next
      case False
      with a new no_streams_beyond [of "wd_streams w" ?n a] st show ?thesis
        by (simp add: room_empty_def)
    qed
  qed
  moreover have "\<forall>l \<in> set (wd_streams w). sub_room (lv_sub l) < ?n' \<and> lv_from l < 65536 \<and>
      stream_ok l (ro_messages (bk_heap db' ! sub_room (lv_sub l)))"
    using st old le by fastforce
  ultimately show ?thesis
    using wf by (simp add: world_inv_def)
qed

lemma world_inv_publish:
  assumes inv: "world_inv w"
  shows "world_inv (w\<lparr>wd_db := publish a m (wd_db w), wd_tasks := (wd_tasks w)[i := Finished],
    wd_streams := wd_streams w @ []\<rparr>)"
  using assms set_update_subset_insert [of "wd_tasks w" i Finished]
  by (auto simp: world_inv_def publish_def update_room_nth stream_ok_append)

lemma world_inv_subscribe:
  assumes inv: "world_inv w" and a: "a < length (bk_heap (wd_db w))"
    and s: "room_subscribe a l (wd_db w) = (db', s)"
  shows "world_inv (w\<lparr>wd_db := db', wd_tasks := (wd_tasks w)[i := Finished],
    wd_streams := wd_streams w @ [new_stream s]\<rparr>)"
proof -
  from s have "sub_room s = a" by (auto simp: room_subscribe_def)
  moreover have "unat (sub_next_event s) < 65536"
    by (rule unat_u16_less)
  ultimately show ?thesis
    using inv a s set_update_subset_insert [of "wd_tasks w" i Finished]
    by (auto simp: world_inv_def room_subscribe_def update_room_nth new_stream_def open_streams_def
        reads_def stream_ok_def)
qed

lemma world_inv_yield:
  assumes inv: "world_inv w" and j: "j < length (wd_streams w)" and l: "l = wd_streams w ! j"
    and n: "next_event (lv_sub l) (wd_db w) = Some (s', ev)"
  shows "world_inv (w\<lparr>wd_streams := (wd_streams w)[j := l\<lparr>lv_sub := s', lv_got := lv_got l @ [ev]\<rparr>]\<rparr>)"
proof -
  let ?l' = "l\<lparr>lv_sub := s', lv_got := lv_got l @ [ev]\<rparr>"
  from j l have "l \<in> set (wd_streams w)" by simp
  with inv have ok: "stream_ok l (ro_messages (bk_heap (wd_db w) ! sub_room (lv_sub l)))"
    and r: "sub_room (lv_sub l) < length (bk_heap (wd_db w))" "lv_from l < 65536"
    unfolding world_inv_def by blast+
  note nx = stream_ok_next [OF ok n]
  have "reads a ?l' = reads a (wd_streams w ! j)" for a
    using nx(2) l by (simp add: reads_def)
  then have "open_streams a ((wd_streams w)[j := ?l']) = open_streams a (wd_streams w)" for a
    using open_streams_same [OF j] by blast
  then show ?thesis
    using inv nx r set_update_subset_insert [of "wd_streams w" j ?l']
    by (auto simp: world_inv_def)
qed

lemma world_inv_close:
  assumes inv: "world_inv w" and j: "j < length (wd_streams w)" and l: "l = wd_streams w ! j"
    and o': "lv_open l"
  shows "world_inv (w\<lparr>wd_db := drop_subscription (lv_sub l) (wd_db w),
    wd_streams := (wd_streams w)[j := l\<lparr>lv_open := False\<rparr>]\<rparr>)"
proof -
  let ?l' = "l\<lparr>lv_open := False\<rparr>"
  let ?a = "sub_room (lv_sub l)"
  from j l have in_set: "l \<in> set (wd_streams w)" by simp
  have other: "open_streams b ((wd_streams w)[j := ?l']) = open_streams b (wd_streams w)" if "b \<noteq> ?a" for b
    using that l by (intro open_streams_same [OF j]) (simp add: reads_def)
  have "open_streams ?a ((wd_streams w)[j := ?l']) + 1 = open_streams ?a (wd_streams w)"
    using open_streams_update [OF j, of ?a ?l'] l o' by (simp add: reads_def)
  then have own: "(word_of_nat (open_streams ?a ((wd_streams w)[j := ?l'])) :: u16) =
      word_of_nat (open_streams ?a (wd_streams w)) - 1"
    by (metis add_diff_cancel_right' of_nat_1 of_nat_add)
  have "\<forall>b < length (bk_heap (wd_db w)).
      ro_subscribers (bk_heap (drop_subscription (lv_sub l) (wd_db w)) ! b) =
        word_of_nat (open_streams b ((wd_streams w)[j := ?l']))"
    using inv own other by (auto simp: world_inv_def drop_subscription_def update_room_nth)
  moreover have "\<forall>k \<in> set ((wd_streams w)[j := ?l']).
      sub_room (lv_sub k) < length (bk_heap (wd_db w)) \<and> lv_from k < 65536 \<and>
      stream_ok k (ro_messages (bk_heap (drop_subscription (lv_sub l) (wd_db w)) ! sub_room (lv_sub k)))"
    using inv in_set set_update_subset_insert [of "wd_streams w" j ?l']
    by (auto simp: world_inv_def drop_subscription_def update_room_nth stream_ok_def)
  ultimately show ?thesis
    using inv by (simp add: world_inv_def drop_subscription_def)
qed

lemma world_inv_step:
  assumes "world_step w w'" and inv: "world_inv w" shows "world_inv w'"
  using assms(1)
proof cases
  case (arrive p)
  with inv show ?thesis by (auto simp: world_inv_def)
next
  case (progress i db' t' new)
  let ?t = "wd_tasks w ! i"
  from inv progress(2) have t: "task_ok (length (bk_heap (wd_db w))) ?t" and wf: "wf_broker (wd_db w)"
    by (auto simp: world_inv_def)
  show ?thesis
  proof (cases ?t)
    case (Enter p)
    with progress wf show ?thesis
      by (auto simp: find_room_Some_iff wf_broker_def split: option.splits
          intro!: world_inv_grows [OF inv, simplified])
  next
    case (Missed p)
    obtain db1 a where e: "enter_room ROOM_ID (wd_db w) = (db1, a)"
      by (cases "enter_room ROOM_ID (wd_db w)")
    with progress Missed world_inv_grows [OF inv grows_enter_room [OF e], of "Have a p" i]
      wf_enter_room [OF wf e] show ?thesis by auto
  next
    case (Have a p)
    show ?thesis
    proof (cases p)
      case (For_subscribe l)
      obtain db1 s where "room_subscribe a l (wd_db w) = (db1, s)"
        by (cases "room_subscribe a l (wd_db w)")
      with progress Have For_subscribe t world_inv_subscribe [OF inv] show ?thesis by auto
    next
      case (For_broadcast m)
      with progress Have world_inv_publish [OF inv] show ?thesis by auto
    qed
  next
    case Finished
    with progress world_inv_grows [OF inv grows_refl wf, of Finished i] show ?thesis by simp
  qed
next
  case (yield j l s' ev)
  with world_inv_yield [OF inv] show ?thesis by simp
next
  case (close j l)
  with world_inv_close [OF inv] show ?thesis by simp
qed

lemma world_inv_reachable: "world_reachable w \<Longrightarrow> world_inv w"
  by (induction rule: world_reachable.induct) (auto simp: world_inv_empty intro: world_inv_step)

section \<open>The room stays while it is watched\<close>

lemma find_or_enter_keeps:
  "bk_rooms db rid = Some a \<Longrightarrow> \<not> is_abandoned (bk_heap db ! a) \<Longrightarrow> enter_room rid db = (db, a)"
  by (simp add: enter_room_def)

lemma advance_keeps_room:
  assumes "advance t db = (db', t', new)" and "bk_rooms db ROOM_ID = Some a"
    and "\<not> is_abandoned (bk_heap db ! a)"
  shows "bk_rooms db' ROOM_ID = Some a"
  using assms
  by (cases "(t, db)" rule: advance.cases)
    (auto simp: find_or_enter_keeps room_subscribe_def publish_def split: option.splits prod.splits)

lemma step_keeps_room:
  assumes "world_step w w'" and "bk_rooms (wd_db w) ROOM_ID = Some a"
    and "\<not> is_abandoned (bk_heap (wd_db w) ! a)"
  shows "bk_rooms (wd_db w') ROOM_ID = Some a"
  using assms(1)
proof cases
  case (progress i db' t' new)
  with advance_keeps_room [OF _ assms(2,3)] show ?thesis by simp
qed (use assms in \<open>simp_all add: drop_subscription_def\<close>)

section \<open>Event identifiers\<close>

lemma parse_digits_snoc:
  "parse_digits acc (cs @ [c]) =
     (case parse_digits acc cs of
        None \<Rightarrow> None
      | Some v \<Rightarrow>
          (case digit_value c of
             None \<Rightarrow> None
           | Some d \<Rightarrow> if v * 10 + d \<le> 65535 then Some (v * 10 + d) else None))"
  by (induction acc cs rule: parse_digits.induct) (auto split: option.split)

lemma digit_value_char [simp]: "d < 10 \<Longrightarrow> digit_value (char_of (48 + d)) = Some d"
  by (simp add: digit_value_def byte_in_def)

lemma parse_to_decimal: "n \<le> 65535 \<Longrightarrow> parse_digits 0 (to_decimal n) = Some n"
proof (induction n rule: to_decimal.induct)
  case (1 n)
  show ?case
  proof (cases "n < 10")
    case True
    then show ?thesis by (subst to_decimal.simps) simp
  next
    case False
    moreover from False 1 have "parse_digits 0 (to_decimal (n div 10)) = Some (n div 10)" by simp
    ultimately show ?thesis
      using 1(2) by (subst to_decimal.simps) (simp add: parse_digits_snoc)
  qed
qed

lemma to_decimal_digits: "c \<in> set (to_decimal n) \<Longrightarrow> \<exists>d :: nat. d < 10 \<and> c = char_of (48 + d)"
proof (induction n rule: to_decimal.induct)
  case (1 n)
  show ?case
  proof (cases "n < 10")
    case True
    with 1 show ?thesis by (subst (asm) to_decimal.simps) auto
  next
    case False
    with 1(2) have "c \<in> set (to_decimal (n div 10)) \<or> c = char_of (48 + n mod 10)"
      by (subst (asm) to_decimal.simps) auto
    with 1(1) [OF False] show ?thesis by (metis mod_less_divisor zero_less_numeral)
  qed
qed

lemma to_decimal_not_Nil [simp]: "to_decimal n \<noteq> []"
  by (subst to_decimal.simps) simp

lemma plus_not_digit:
  assumes "(d :: nat) < 10" shows "CHR ''+'' \<noteq> char_of (48 + d)"
proof
  assume "CHR ''+'' = char_of (48 + d)"
  then have "(of_char (CHR ''+'') :: nat) = of_char (char_of (48 + d) :: char)" by simp
  with assms show False by simp
qed

lemma parse_u16_to_decimal: "parse_u16 (to_decimal (unat w)) = Some w"
proof -
  obtain c cs where c: "to_decimal (unat w) = c # cs"
    by (cases "to_decimal (unat w)") simp_all
  then have "c \<noteq> CHR ''+''"
    using to_decimal_digits [of c "unat w"] plus_not_digit by fastforce
  moreover have "unat w \<le> 65535"
    using unat_u16_less [of w] by simp
  ultimately show ?thesis
    using parse_to_decimal [of "unat w"] by (simp add: parse_u16_def Let_def c)
qed

section \<open>Runs by number\<close>

text \<open>Advance the task with a given number: a function for concrete runs.\<close>

definition run_task :: "nat \<Rightarrow> world \<Rightarrow> world" where
  "run_task i w =
     (case advance (wd_tasks w ! i) (wd_db w) of
        (db', t', new) \<Rightarrow> w\<lparr>wd_db := db', wd_tasks := (wd_tasks w)[i := t'],
          wd_streams := wd_streams w @ new\<rparr>)"

definition arrived :: "purpose list \<Rightarrow> world" where
  "arrived ps = world_empty\<lparr>wd_tasks := map Enter ps\<rparr>"

lemma reachable_arrived: "world_reachable (arrived ps)"
proof (induction ps rule: rev_induct)
  case Nil
  then show ?case using world_reachable.start by (simp add: arrived_def world_empty_def)
next
  case (snoc p ps)
  from world_reachable.continue [OF snoc world_step.arrive [of "arrived ps" p]]
  show ?case by (simp add: arrived_def)
qed

lemma length_run_task [simp]: "length (wd_tasks (run_task i w)) = length (wd_tasks w)"
  by (simp add: run_task_def split: prod.split)

lemma reachable_run_tasks:
  "world_reachable w \<Longrightarrow> \<forall>i \<in> set is. i < length (wd_tasks w) \<Longrightarrow> world_reachable (fold run_task is w)"
proof (induction "is" arbitrary: w)
  case (Cons i "is")
  have "world_step w (run_task i w)"
    using Cons.prems(2) world_step.progress [of i w]
    by (auto simp: run_task_def split: prod.split)
  with Cons.prems(1) have "world_reachable (run_task i w)" by (rule world_reachable.continue)
  with Cons show ?case by simp
qed simp

section \<open>Deserted rooms\<close>

text \<open>A room that is not in the map, and that no task holds, never changes its messages.\<close>

definition deserted :: "nat \<Rightarrow> world \<Rightarrow> bool" where
  "deserted a w \<longleftrightarrow>
     a < length (bk_heap (wd_db w)) \<and> bk_rooms (wd_db w) ROOM_ID \<noteq> Some a \<and>
     (\<forall>t \<in> set (wd_tasks w). \<forall>p. t \<noteq> Have a p)"

lemma deserted_enter_room:
  assumes "enter_room ROOM_ID db = (db', b)" and "a < length (bk_heap db)"
    and "bk_rooms db ROOM_ID \<noteq> Some a"
  shows "bk_rooms db' ROOM_ID \<noteq> Some a \<and> b \<noteq> a \<and> a < length (bk_heap db') \<and>
    bk_heap db' ! a = bk_heap db ! a"
  using assms
  by (auto simp: enter_room_cases nth_append abandoned_def split: if_splits option.splits)

lemma deserted_step:
  assumes "world_step w w'" and d: "deserted a w"
  shows "deserted a w' \<and>
    ro_messages (bk_heap (wd_db w') ! a) = ro_messages (bk_heap (wd_db w) ! a)"
  using assms(1)
proof cases
  case (arrive p)
  with d show ?thesis by (auto simp: deserted_def)
next
  case (progress i db' t' new)
  let ?t = "wd_tasks w ! i"
  from d have a: "a < length (bk_heap (wd_db w))" "bk_rooms (wd_db w) ROOM_ID \<noteq> Some a"
    and ts: "\<forall>t \<in> set (wd_tasks w). \<forall>p. t \<noteq> Have a p"
    by (auto simp: deserted_def)
  have set: "set ((wd_tasks w)[i := t']) \<subseteq> insert t' (set (wd_tasks w))"
    by (rule set_update_subset_insert)
  have "bk_rooms db' ROOM_ID \<noteq> Some a \<and> (\<forall>p. t' \<noteq> Have a p) \<and> a < length (bk_heap db') \<and>
      ro_messages (bk_heap db' ! a) = ro_messages (bk_heap (wd_db w) ! a)"
  proof (cases ?t)
    case (Enter p)
    with progress a show ?thesis
      by (auto simp: find_room_Some_iff split: option.splits)
  next
    case (Missed p)
    obtain db1 b where e: "enter_room ROOM_ID (wd_db w) = (db1, b)"
      by (cases "enter_room ROOM_ID (wd_db w)")
    with progress Missed deserted_enter_room [OF e a] show ?thesis by auto
  next
    case (Have b p)
    with progress(2) ts have "b \<noteq> a" by (metis nth_mem)
    with progress Have a show ?thesis
      by (cases p) (auto simp: room_subscribe_def publish_def update_room_nth)
  next
    case Finished
    with progress a show ?thesis by simp
  qed
  with ts set progress(1) show ?thesis by (auto simp: deserted_def)
next
  case (yield j l s' ev)
  with d show ?thesis by (simp add: deserted_def)
next
  case (close j l)
  with d show ?thesis by (auto simp: deserted_def drop_subscription_def update_room_nth)
qed

lemma deserted_steps:
  assumes "world_step\<^sup>*\<^sup>* w w'" and "deserted a w"
  shows "deserted a w' \<and>
    ro_messages (bk_heap (wd_db w') ! a) = ro_messages (bk_heap (wd_db w) ! a)"
  using assms(1)
  by (induction rule: rtranclp_induct) (use assms(2) deserted_step in \<open>auto\<close>)

text \<open>A stream that waits has yielded all that its room has.\<close>

lemma waiting_stream_has_all:
  assumes ok: "stream_ok l msgs" and small: "length msgs < 65536" and start: "lv_from l < 65536"
    and n: "next_event (lv_sub l) db = None" and msgs: "msgs = ro_messages (bk_heap db ! sub_room (lv_sub l))"
    and few: "lv_from l + length (lv_got l) < 65536"
  shows "map snd (lv_got l) = drop (lv_from l) msgs"
proof -
  from ok have e: "sub_next_event (lv_sub l) = word_of_nat (lv_from l + length (lv_got l))"
    unfolding stream_ok_def Let_def by blast
  have "unat (sub_next_event (lv_sub l)) = lv_from l + length (lv_got l)"
    unfolding e unat_word_of_nat_u16 using few by simp
  with n msgs have "length msgs \<le> lv_from l + length (lv_got l)"
    by (simp add: next_event_def Let_def split: if_splits)
  with stream_ok_segment(1) [OF ok small start] show ?thesis by simp
qed

end
