(* ===== verification/Node.thy ===== *)
theory Node
  imports Coordinator_Facts Transport
begin

text \<open>
  A running server: the coordinator together with everything that may reach it. Messages come from
  the broker through the checks of the transport, requests from the gRPC service, timers that the
  coordinator has set fire, the actors it has started report errors and outputs. Actors run one
  handler at a time, so a run is a sequence of handlers, in any order; a handler that panics ends
  the run. The invariant says which messages ever reach a protocol actor, and how long messages
  are kept.
\<close>

section \<open>Steps\<close>

text \<open>\<open>admit\<close> restricts the requests that the service hands over; \<open>\<lambda>_. True\<close> allows all.\<close>

inductive node_step ::
  "('db, 'sk, 'pk, 'sg, 'lk, 'kg, 'mk, 'off, 'mo, 'ps) cenv \<Rightarrow> (coordinator_message \<Rightarrow> bool) \<Rightarrow>
   ('db, 'sk, 'lk, 'kg, 'mk, 'off, 'mo, 'cos, 'ps) coordinator \<Rightarrow>
   ('db, 'sk, 'lk, 'kg, 'mk, 'off, 'mo, 'cos, 'ps) coordinator \<Rightarrow> bool"
  for E admit where
  stream:
  "r \<in> set (incoming_filter E (co_pk_str c) [Ok raw]) \<Longrightarrow> stream_handle E now r c = (c', Ok ()) \<Longrightarrow>
   node_step E admit c c'"
| keygen_request:
  "admit (KeygenRequest kreq) \<Longrightarrow> handle_coordinator_message E now (KeygenRequest kreq) c = (c', Ok ()) \<Longrightarrow>
   node_step E admit c c'"
| sign_request:
  "admit (SignRequest sreq) \<Longrightarrow> handle_coordinator_message E now (SignRequest sreq) c = (c', Ok ()) \<Longrightarrow>
   node_step E admit c c'"
| outgoing:
  "handle_coordinator_message E now (Outgoing m) c = (c', Ok ()) \<Longrightarrow> node_step E admit c c'"
| timer:
  "Run_later d m \<in> set (co_out c) \<Longrightarrow> handle_coordinator_message E now m c = (c', Ok ()) \<Longrightarrow>
   node_step E admit c c'"
| error_keygen:
  "Deliver_keygen a im \<in> set (co_out c) \<Longrightarrow>
   node_step E admit c (handle_protocol_error now \<lparr>pe_room = room, pe_error = e, pe_message = im\<rparr> c)"
| error_offline:
  "Deliver_offline a im' \<in> set (co_out c) \<Longrightarrow>
   node_step E admit c (handle_protocol_error now \<lparr>pe_room = room, pe_error = e, pe_message = im'\<rparr> c)"
| output_keygen:
  "Start_keygen a p \<in> set (co_out c) \<Longrightarrow>
   handle_output_keygen E \<lparr>po_input = pl_input p, po_output = lk\<rparr> c = (c', Ok ()) \<Longrightarrow>
   node_step E admit c c'"
| output_offline:
  "Start_offline a p' \<in> set (co_out c) \<Longrightarrow>
   node_step E admit c (handle_output_offline E \<lparr>po_input = pl_input p', po_output = cos\<rparr> c)"
| output_sign:
  "Start_signer a s \<in> set (co_out c) \<Longrightarrow>
   node_step E admit c (handle_output_sign E \<lparr>po_input = sn_input s, po_output = sg\<rparr> c)"
| sent: "send_one send m c = (c', Ok ()) \<Longrightarrow> node_step E admit c c'"

inductive node_reachable ::
  "('db, 'sk, 'pk, 'sg, 'lk, 'kg, 'mk, 'off, 'mo, 'ps) cenv \<Rightarrow> (coordinator_message \<Rightarrow> bool) \<Rightarrow> 'sk \<Rightarrow> 'db \<Rightarrow>
   ('db, 'sk, 'lk, 'kg, 'mk, 'off, 'mo, 'cos, 'ps) coordinator \<Rightarrow> bool"
  for E admit sk db where
  start: "node_reachable E admit sk db (coordinator_new E sk db)"
| continue:
  "node_reachable E admit sk db c \<Longrightarrow> node_step E admit c c' \<Longrightarrow> node_reachable E admit sk db c'"

section \<open>What is trusted\<close>

text \<open>A message of another server whose signature is that server's.\<close>

definition genuine :: "('db, 'sk, 'pk, 'sg, 'lk, 'x) env_scheme \<Rightarrow> 'sk \<Rightarrow> wire_message \<Rightarrow> bool" where
  "genuine E sk w \<longleftrightarrow>
     signature_valid (env_crypto E) (w_sender_public_key w) (w_signature w) (w_payload w) \<and>
     w_sender_public_key w \<noteq> identity_of (env_crypto E) sk"

definition mentions_own :: "('db, 'sk, 'pk, 'sg, 'lk, 'x) env_scheme \<Rightarrow> 'sk \<Rightarrow> wire_message \<Rightarrow> bool" where
  "mentions_own E sk w \<longleftrightarrow>
     (case str_range (identity_of (env_crypto E) sk) 2 10 of
        None \<Rightarrow> False | Some own \<Rightarrow> str_contains (w_room w) own)"

text \<open>
  The sender is a member of the group that is stored for the room, and the message is for this
  server or for all.
\<close>

definition from_member ::
  "('db, 'sk, 'pk, 'sg, 'lk, 'x) env_scheme \<Rightarrow> ('db \<Rightarrow> string \<Rightarrow> string option) \<Rightarrow> 'db \<Rightarrow>
   wire_message \<Rightarrow> bool" where
  "from_member E view db w \<longleftrightarrow>
     (\<exists>gid bytes g m. extract_group_id (w_room w) = Ok gid \<and> view db gid = Some bytes \<and>
        de (env_group E) bytes = Some g \<and> w_sender_public_key w \<in> set (pg_public_keys g) \<and>
        de (env_gpm E) (w_payload w) = Some m \<and>
        (gpm_receiver m = None \<or> (\<exists>r. gpm_receiver m = Some r \<and> get_i g = Some r)))"

lemma from_memberI:
  "extract_group_id (w_room w) = Ok gid \<Longrightarrow> view db gid = Some bytes \<Longrightarrow>
   de (env_group E) bytes = Some g \<Longrightarrow> w_sender_public_key w \<in> set (pg_public_keys g) \<Longrightarrow>
   de (env_gpm E) (w_payload w) = Some m \<Longrightarrow>
   gpm_receiver m = None \<or> (\<exists>r. gpm_receiver m = Some r \<and> get_i g = Some r) \<Longrightarrow>
   from_member E view db w"
  unfolding from_member_def by (rule exI [of _ gid], rule exI [of _ bytes], rule exI [of _ g],
      rule exI [of _ m]) simp

lemma from_memberE:
  assumes "from_member E view db w"
  obtains gid bytes g m where "extract_group_id (w_room w) = Ok gid" "view db gid = Some bytes"
    "de (env_group E) bytes = Some g" "w_sender_public_key w \<in> set (pg_public_keys g)"
    "de (env_gpm E) (w_payload w) = Some m"
    "gpm_receiver m = None \<or> (\<exists>r. gpm_receiver m = Some r \<and> get_i g = Some r)"
  using assms unfolding from_member_def by (elim exE conjE)

text \<open>What a protocol actor may see: the opened form of such a message.\<close>

definition trusted ::
  "('db, 'sk, 'pk, 'sg, 'lk, 'x) env_scheme \<Rightarrow> ('db \<Rightarrow> string \<Rightarrow> string option) \<Rightarrow> 'sk \<Rightarrow> 'db \<Rightarrow>
   wire_message \<Rightarrow> bool" where
  "trusted E view sk db w \<longleftrightarrow>
     (\<exists>w0. genuine E sk w0 \<and> mentions_own E sk w0 \<and> from_member E view db w0 \<and>
        maybe_decrypt E sk w0 = Ok w)"

lemma valid_from_member:
  assumes "sled_laws (env_sled E) view" and "valid_sender_and_receiver E db w = Ok ()"
  shows "from_member E view db w"
proof -
  from assms(2) obtain g m where k: "known_message E db w g m"
    and r: "gpm_receiver m = None \<or> (\<exists>r. gpm_receiver m = Some r \<and> get_i g = Some r)"
    unfolding valid_sender_and_receiver_Ok_iff by blast
  from k obtain gid where gid: "extract_group_id (w_room w) = Ok gid" "retrieve_group E db gid = Ok g"
    "w_sender_public_key w \<in> set (pg_public_keys g)" "de (env_gpm E) (w_payload w) = Some m"
    by (auto simp: known_message_def)
  from gid(2) obtain bytes where "sled_get (env_sled E) db gid = Some (Some bytes)"
    "de (env_group E) bytes = Some g"
    by (auto simp: retrieve_group_def and_then_eq_Ok)
  moreover from sled_laws_get [OF assms(1) this(1)] have "view db gid = Some bytes" by simp
  ultimately show ?thesis
    using gid r by (intro from_memberI)
qed

section \<open>The invariant\<close>

definition view_grows :: "('db \<Rightarrow> string \<Rightarrow> string option) \<Rightarrow> 'db \<Rightarrow> 'db \<Rightarrow> bool" where
  "view_grows view db db' \<longleftrightarrow> (\<forall>k v. view db k = Some v \<longrightarrow> view db' k = Some v)"

lemma view_grows_refl [simp]: "view_grows view db db"
  by (simp add: view_grows_def)

lemma view_growsD: "view_grows view db db' \<Longrightarrow> view db k = Some v \<Longrightarrow> view db' k = Some v"
  by (simp add: view_grows_def)

lemma from_member_mono:
  "from_member E view db w \<Longrightarrow> view_grows view db db' \<Longrightarrow> from_member E view db' w"
  by (erule from_memberE, rule from_memberI) (auto dest: view_growsD)

lemma trusted_mono: "trusted E view sk db w \<Longrightarrow> view_grows view db db' \<Longrightarrow> trusted E view sk db' w"
  by (auto simp: trusted_def intro: from_member_mono)

fun start_addr :: "('lk, 'kg, 'mk, 'off, 'mo, 'cos, 'ps) effect \<Rightarrow> nat option" where
  "start_addr (Start_keygen a p) = Some a"
| "start_addr (Start_offline a p) = Some a"
| "start_addr (Start_signer a s) = Some a"
| "start_addr _ = None"

text \<open>A retry that has passed the check carries a trusted message, another one a genuine one.\<close>

fun retry_ok ::
  "('db, 'sk, 'pk, 'sg, 'lk, 'x) env_scheme \<Rightarrow> ('db \<Rightarrow> string \<Rightarrow> string option) \<Rightarrow> 'sk \<Rightarrow> 'db \<Rightarrow>
   coordinator_message \<Rightarrow> bool" where
  "retry_ok E view sk db (Retry r) =
     (if rm_check_passed r then trusted E view sk db (rm_message r)
      else genuine E sk (rm_message r) \<and> mentions_own E sk (rm_message r))"
| "retry_ok E view sk db _ = False"

definition keygen_started ::
  "('lk, 'kg, 'mk, 'off, 'mo, 'cos, 'ps) effect list \<Rightarrow> nat \<Rightarrow> string \<Rightarrow> bool" where
  "keygen_started out a room \<longleftrightarrow> (\<exists>p. Start_keygen a p \<in> set out \<and> pl_room p = room)"

definition offline_started ::
  "('lk, 'kg, 'mk, 'off, 'mo, 'cos, 'ps) effect list \<Rightarrow> nat \<Rightarrow> string \<Rightarrow> bool" where
  "offline_started out a room \<longleftrightarrow> (\<exists>p. Start_offline a p \<in> set out \<and> pl_room p = room)"

definition signer_of_room ::
  "('lk, 'kg, 'mk, 'off, 'mo, 'cos, 'ps) effect list \<Rightarrow> nat \<Rightarrow> string \<Rightarrow> bool" where
  "signer_of_room out a room \<longleftrightarrow> (\<exists>s. Start_signer a s \<in> set out \<and> st_room (sn_task s) = room)"

lemmas started_defs = keygen_started_def offline_started_def signer_of_room_def

lemma startedI:
  "Start_keygen a (player_new req room i sm) \<in> set out \<Longrightarrow> keygen_started out a room"
  "Start_offline a (player_new input room i sm') \<in> set out \<Longrightarrow> offline_started out a room"
  "Start_signer a (signer_new input task) \<in> set out \<Longrightarrow> signer_of_room out a (st_room task)"
  by (force simp: started_defs player_new_def signer_new_def)+

text \<open>An effect is good in the light of the effects so far and of the database.\<close>

fun effect_ok ::
  "('db, 'sk, 'pk, 'sg, 'lk, 'x) env_scheme \<Rightarrow> ('db \<Rightarrow> string \<Rightarrow> string option) \<Rightarrow> 'sk \<Rightarrow> 'db \<Rightarrow> nat \<Rightarrow>
   ('lk, 'kg, 'mk, 'off, 'mo, 'cos, 'ps) effect list \<Rightarrow>
   ('lk, 'kg, 'mk, 'off, 'mo, 'cos, 'ps) effect \<Rightarrow> bool" where
  "effect_ok E view sk db n out (Run_later d m) =
     (timer_ok (Run_later d m :: ('lk, 'kg, 'mk, 'off, 'mo, 'cos, 'ps) effect) \<and>
      retry_ok E view sk db m)"
| "effect_ok E view sk db n out (Deliver_keygen a im) =
     (trusted E view sk db (im_wire_message im) \<and> w_room (im_wire_message im) = im_room im \<and>
      keygen_started out a (im_room im))"
| "effect_ok E view sk db n out (Deliver_offline a im') =
     (trusted E view sk db (im_wire_message im') \<and> w_room (im_wire_message im') = im_room im' \<and>
      offline_started out a (im_room im'))"
| "effect_ok E view sk db n out (Deliver_signer a im'') =
     (trusted E view sk db (im_wire_message im'') \<and> w_room (im_wire_message im'') = im_room im'' \<and>
      signer_of_room out a (im_room im''))"
| "effect_ok E view sk db n out (Start_keygen a p) = (a < n)"
| "effect_ok E view sk db n out (Start_offline a p') = (a < n)"
| "effect_ok E view sk db n out (Start_signer a s) = (a < n)"
| "effect_ok E view sk db n out (Inc x) = True"
| "effect_ok E view sk db n out (Respond y) = True"
| "effect_ok E view sk db n out (Send_one z) = True"

definition routes_ok ::
  "('db, 'sk, 'lk, 'kg, 'mk, 'off, 'mo, 'cos, 'ps) coordinator \<Rightarrow> bool" where
  "routes_ok c \<longleftrightarrow>
     (\<forall>room a. co_keygen_runners c room = Some a \<longrightarrow> keygen_started (co_out c) a room) \<and>
     (\<forall>room a. co_offline_state_runners c room = Some a \<longrightarrow> offline_started (co_out c) a room) \<and>
     (\<forall>room a. co_signers c room = Some a \<longrightarrow> signer_of_room (co_out c) a room)"

definition node_inv ::
  "('db, 'sk, 'pk, 'sg, 'lk, 'kg, 'mk, 'off, 'mo, 'ps) cenv \<Rightarrow> ('db \<Rightarrow> string \<Rightarrow> string option) \<Rightarrow> 'sk \<Rightarrow>
   ('db, 'sk, 'lk, 'kg, 'mk, 'off, 'mo, 'cos, 'ps) coordinator \<Rightarrow> bool" where
  "node_inv E view sk c \<longleftrightarrow>
     co_pk_str c = identity_of (env_crypto E) sk \<and> co_sk c = sk \<and> co_sink c \<and>
     (\<forall>e \<in> set (co_out c). effect_ok E view sk (co_db c) (co_next_addr c) (co_out c) e) \<and>
     distinct (List.map_filter start_addr (co_out c)) \<and> routes_ok c"

lemma node_inv_effect:
  "node_inv E view sk c \<Longrightarrow> e \<in> set (co_out c) \<Longrightarrow>
   effect_ok E view sk (co_db c) (co_next_addr c) (co_out c) e"
  unfolding node_inv_def by blast

section \<open>How effects stay good\<close>

lemma retry_ok_mono:
  "retry_ok E view sk db m \<Longrightarrow> view_grows view db db' \<Longrightarrow> retry_ok E view sk db' m"
  by (cases m) (auto simp: trusted_mono split: if_splits)

lemma started_mono:
  "keygen_started out a room \<Longrightarrow> set out \<subseteq> set out' \<Longrightarrow> keygen_started out' a room"
  "offline_started out a room \<Longrightarrow> set out \<subseteq> set out' \<Longrightarrow> offline_started out' a room"
  "signer_of_room out a room \<Longrightarrow> set out \<subseteq> set out' \<Longrightarrow> signer_of_room out' a room"
  by (auto simp: started_defs)

lemma effect_ok_mono:
  assumes "effect_ok E view sk db n out e" and "view_grows view db db'" and "n \<le> n'"
    and "set out \<subseteq> set out'"
  shows "effect_ok E view sk db' n' out' e"
  using assms by (cases e) (auto intro: retry_ok_mono trusted_mono started_mono)

lemma map_filter_append: "List.map_filter f (xs @ ys) = List.map_filter f xs @ List.map_filter f ys"
  by (simp add: List.map_filter_def)

text \<open>
  A handler that adds \<open>es\<close>, possibly one new actor at the next free address, and otherwise only
  lets the database grow and changes routes to actors of the room.
\<close>

lemma node_inv_extend:
  assumes inv: "node_inv E view sk c"
    and pk: "co_pk_str c' = co_pk_str c" and sk: "co_sk c' = co_sk c" and sink: "co_sink c' = co_sink c"
    and out: "co_out c' = co_out c @ es"
    and db: "view_grows view (co_db c) (co_db c')" and n: "co_next_addr c \<le> co_next_addr c'"
    and es: "\<And>e. e \<in> set es \<Longrightarrow> effect_ok E view sk (co_db c') (co_next_addr c') (co_out c') e"
    and addr: "List.map_filter start_addr es = [] \<or> List.map_filter start_addr es = [co_next_addr c]"
    and routes: "routes_ok c'"
  shows "node_inv E view sk c'"
proof -
  let ?A = "List.map_filter start_addr"
  from inv have old: "\<forall>e \<in> set (co_out c). effect_ok E view sk (co_db c) (co_next_addr c) (co_out c) e"
    and dist: "distinct (?A (co_out c))"
    by (simp_all add: node_inv_def)
  have "effect_ok E view sk (co_db c') (co_next_addr c') (co_out c') e" if "e \<in> set (co_out c)" for e
    using effect_ok_mono [OF _ db n, of E sk "co_out c" e "co_out c'"] old that out by simp
  with es out have "\<forall>e \<in> set (co_out c'). effect_ok E view sk (co_db c') (co_next_addr c') (co_out c') e"
    by auto
  moreover have lt: "a < co_next_addr c" if "a \<in> set (?A (co_out c))" for a
  proof -
    from that obtain e where e: "e \<in> set (co_out c)" "start_addr e = Some a"
      by (auto simp: List.map_filter_def)
    with old have "effect_ok E view sk (co_db c) (co_next_addr c) (co_out c) e" by blast
    with e(2) show ?thesis by (cases e) auto
  qed
  have "distinct (?A (co_out c'))"
    using dist addr lt [of "co_next_addr c"] by (auto simp: out map_filter_append)
  ultimately show ?thesis
    using inv pk sk sink routes by (simp add: node_inv_def)
qed

lemma routes_ok_emit: "routes_ok c \<Longrightarrow> routes_ok (emit es c)"
  unfolding routes_ok_def using started_mono [of "co_out c" _ _ "co_out (emit es c)"] by simp

lemma node_inv_emit:
  assumes inv: "node_inv E view sk c"
    and es: "\<And>e. e \<in> set es \<Longrightarrow>
      start_addr e = None \<and> effect_ok E view sk (co_db c) (co_next_addr c) (co_out c) e"
  shows "node_inv E view sk (emit es c)"
proof (rule node_inv_extend [OF inv])
  show "effect_ok E view sk (co_db (emit es c)) (co_next_addr (emit es c)) (co_out (emit es c)) e"
    if "e \<in> set es" for e
    using es [OF that] effect_ok_mono [of E view sk "co_db c" "co_next_addr c" "co_out c" e]
    by simp
  have "List.map_filter start_addr es = []"
    using es by (auto simp: List.map_filter_def filter_empty_conv)
  then show "List.map_filter start_addr es = [] \<or> List.map_filter start_addr es = [co_next_addr c]" ..
  show "routes_ok (emit es c)"
    using inv by (simp add: node_inv_def routes_ok_emit)
qed simp_all

section \<open>Messages\<close>

lemma node_inv_retry:
  assumes inv: "node_inv E view sk c" and a: "1 \<le> rm_attempts r"
    and ok: "retry_ok E view sk (co_db c) (Retry r)"
  shows "node_inv E view sk (retry r c)"
  unfolding retry_eq_emit using a ok by (intro node_inv_emit [OF inv]) (auto split: if_splits)

lemma node_inv_unsafe:
  assumes inv: "node_inv E view sk c" and a: "a \<le> 33" and t: "trusted E view sk (co_db c) w"
  shows "node_inv E view sk (handle_incoming_unsafe E w ts a c)"
proof (cases "deliveries E w c = []")
  case True
  with t attempts_succ [OF a] show ?thesis
    by (simp add: handle_incoming_unsafe_eq node_inv_retry [OF inv])
next
  case False
  from inv have "routes_ok c" by (simp add: node_inv_def)
  then have "node_inv E view sk (emit (deliveries E w c) c)"
    using t by (intro node_inv_emit [OF inv]) (auto dest!: deliveries_cases simp: routes_ok_def)
  with False show ?thesis by (simp add: handle_incoming_unsafe_eq)
qed

lemma node_inv_incoming:
  assumes laws: "sled_laws (env_sled E) view" and inv: "node_inv E view sk c"
    and g: "genuine E sk w" and h: "handle_incoming E now w c = (c', Ok ())"
  shows "node_inv E view sk c'"
proof -
  from inv have pk: "co_pk_str c = identity_of (env_crypto E) sk" and csk: "co_sk c = sk"
    by (simp_all add: node_inv_def)
  from h obtain own where own: "str_range (co_pk_str c) 2 10 = Some own"
    by (cases "str_range (co_pk_str c) 2 10") (simp_all add: handle_incoming_def Let_def)
  let ?c = "emit [Inc MESSAGES_TOTAL_RECEIVED] c"
  have i1: "node_inv E view sk ?c" and i2: "node_inv E view sk (emit [Inc MESSAGES_DROPPED] ?c)"
    by (intro node_inv_emit inv; simp)+
  show ?thesis
  proof (cases "str_contains (w_room w) own")
    case False
    with h own i2 show ?thesis by (simp add: handle_incoming_eq Let_def)
  next
    case True
    with own pk have m: "mentions_own E sk w" by (simp add: mentions_own_def)
    show ?thesis
    proof (cases "valid_sender_and_receiver E (co_db c) w = Ok ()")
      case v: True
      have member: "from_member E view (co_db c) w" by (rule valid_from_member [OF laws v])
      show ?thesis
      proof (cases "maybe_decrypt E (co_sk c) w")
        case (Ok w')
        with g m member csk have "trusted E view sk (co_db ?c) w'"
          unfolding trusted_def by auto
        then have "node_inv E view sk (handle_incoming_unsafe E w' now 0 ?c)"
          by (intro node_inv_unsafe [OF i1]) simp_all
        with h own True v Ok show ?thesis by (simp add: handle_incoming_eq Let_def)
      next
        case (Err e)
        with h own True v i1 show ?thesis by (simp add: handle_incoming_eq Let_def)
      qed simp
    next
      case False
      have "node_inv E view sk (retry \<lparr>rm_initial_timestamp = now, rm_attempts = 1,
          rm_check_passed = False, rm_message = w\<rparr> ?c)"
        using g m by (intro node_inv_retry [OF i1]) simp_all
      with h own True False i2 show ?thesis
        by (simp add: handle_incoming_eq Let_def split: if_splits)
    qed
  qed
qed

lemma node_inv_handle_retry:
  assumes laws: "sled_laws (env_sled E) view" and inv: "node_inv E view sk c"
    and g: "genuine E sk (rm_message r)" and m: "mentions_own E sk (rm_message r)"
    and a: "rm_attempts r \<le> 33" and h: "handle_retry E r c = (c', Ok ())"
  shows "node_inv E view sk c'"
proof -
  from inv have csk: "co_sk c = sk" by (simp add: node_inv_def)
  show ?thesis
  proof (cases "precheck_message E (rm_message r) c")
    case (Ok w')
    then have v: "valid_sender_and_receiver E (co_db c) (rm_message r) = Ok ()"
      and d: "maybe_decrypt E (co_sk c) (rm_message r) = Ok w'"
      by (auto simp: precheck_message_def and_then_eq_Ok)
    with valid_from_member [OF laws v] g m csk have "trusted E view sk (co_db c) w'"
      unfolding trusted_def by blast
    then have "node_inv E view sk
        (handle_incoming_unsafe E w' (rm_initial_timestamp r) (rm_attempts r) c)"
      by (rule node_inv_unsafe [OF inv a])
    with h Ok show ?thesis by (simp add: handle_retry_def)
  next
    case (Err e)
    have "node_inv E view sk (retry (r\<lparr>rm_attempts := rm_attempts r + 1, rm_check_passed := False\<rparr>) c)"
      using g m attempts_succ [OF a] by (intro node_inv_retry [OF inv]) simp_all
    with h Err show ?thesis by (cases r) (simp add: handle_retry_def)
  next
    case Panic
    with h show ?thesis by (simp add: handle_retry_def)
  qed
qed

section \<open>Requests and outputs\<close>

lemma view_grows_save_group:
  "store_laws E view \<Longrightarrow> view_grows view db (fst (save_group E db g))"
  by (simp add: view_grows_def save_group_mono)

lemma view_grows_save_share:
  "store_laws E view \<Longrightarrow> view_grows view db (fst (save_share E db s))"
  by (simp add: view_grows_def save_share_mono)

lemma ignore_result_Ok: "ignore_result r = (c', Ok ()) \<longleftrightarrow> fst r = c' \<and> snd r \<noteq> Panic"
  by (cases r; cases "snd r") (auto simp: ignore_result_def)

lemma routes_okD:
  assumes "routes_ok c"
  shows "co_keygen_runners c room = Some a \<Longrightarrow> keygen_started (co_out c) a room"
    and "co_offline_state_runners c room = Some a \<Longrightarrow> offline_started (co_out c) a room"
    and "co_signers c room = Some a \<Longrightarrow> signer_of_room (co_out c) a room"
  using assms by (simp_all add: routes_ok_def)

text \<open>Routes that are old ones, or lead to an actor that was just started for the room.\<close>

lemma routes_ok_step:
  assumes old: "routes_ok c" and out: "set (co_out c) \<subseteq> set (co_out c')"
    and "\<And>room a. co_keygen_runners c' room = Some a \<Longrightarrow>
      co_keygen_runners c room = Some a \<or> keygen_started (co_out c') a room"
    and "\<And>room a. co_offline_state_runners c' room = Some a \<Longrightarrow>
      co_offline_state_runners c room = Some a \<or> offline_started (co_out c') a room"
    and "\<And>room a. co_signers c' room = Some a \<Longrightarrow>
      co_signers c room = Some a \<or> signer_of_room (co_out c') a room"
  shows "routes_ok c'"
  unfolding routes_ok_def
  using assms(3-5) started_mono [OF _ out] routes_okD [OF old] by metis

lemma node_inv_keygen_request:
  assumes laws: "store_laws E view" and inv: "node_inv E view sk c"
    and h: "ignore_result (handle_keygen_request E req c) = (c', Ok ())"
  shows "node_inv E view sk c'"
proof -
  let ?es = "[Inc REQUESTS_KEYGEN_HANDLED,
    Respond (mk_response (kr_request_id req) [] Keygen_type Processing)]"
  have simple: "node_inv E view sk (emit ?es c)"
    by (intro node_inv_emit inv) auto
  from h have c': "c' = fst (handle_keygen_request E req c)"
    and np: "snd (handle_keygen_request E req c) \<noteq> Panic"
    by (simp_all add: ignore_result_Ok)
  from np obtain g where g: "group_new (kr_participant_public_keys req) (ucast (kr_threshold req))
      (co_pk_str c) = Some g"
    by (cases "group_new (kr_participant_public_keys req) (ucast (kr_threshold req)) (co_pk_str c)")
      (simp_all add: handle_keygen_request_eq Let_def)
  with np obtain i where i: "get_i g = Some i"
    by (cases "get_i g") (simp_all add: handle_keygen_request_eq Let_def)
  show ?thesis
  proof (cases "ce_keygen_new E i (get_t g) (get_n g)")
    case None
    with c' g i simple show ?thesis by (simp add: handle_keygen_request_eq Let_def)
  next
    case (Some sm)
    let ?room = "make_room_id (kr_request_id req) (pg_group_id g)"
    let ?st = "Start_keygen (co_next_addr c) (player_new req ?room i sm)"
    from c' g i Some have e: "c' = emit (?es @ [?st]) (c\<lparr>co_next_addr := co_next_addr c + 1,
        co_db := fst (save_group E (co_db c) g),
        co_keygen_runners := (co_keygen_runners c)(?room \<mapsto> co_next_addr c)\<rparr>)"
      by (simp add: handle_keygen_request_eq Let_def emit_def)
    show ?thesis
    proof (rule node_inv_extend [OF inv, where es = "?es @ [?st]"])
      have "routes_ok c" using inv by (simp add: node_inv_def)
      moreover have "keygen_started (co_out c') (co_next_addr c) ?room"
        by (rule startedI(1) [of _ req _ i sm]) (simp add: e)
      ultimately show "routes_ok c'"
        by (elim routes_ok_step) (auto simp: e split: if_splits)
    qed (auto simp: e view_grows_save_group [OF laws] List.map_filter_def)
  qed
qed

lemma node_inv_sign_request:
  assumes laws: "store_laws E view" and inv: "node_inv E view sk c"
    and h: "ignore_result (handle_sign_request E req c) = (c', Ok ())"
  shows "node_inv E view sk c'"
proof (cases "retrieve_share E (co_sk c) (co_db c) (sr_public_key req)")
  case (Err e)
  have "node_inv E view sk (emit [Inc REQUESTS_SIGN_HANDLED] c)"
    by (intro node_inv_emit inv) auto
  with h show ?thesis by (simp add: ignore_result_Ok handle_sign_request_no_share [OF Err])
next
  case (Ok ls)
  note eq = handle_sign_request_eq [OF Ok refl]
  from h have c': "c' = fst (handle_sign_request E req c)"
    and np: "snd (handle_sign_request E req c) \<noteq> Panic"
    by (simp_all add: ignore_result_Ok)
  let ?t = "env_lk_t E (sls_share ls)"
  from np obtain g sub where g: "group_new (sls_public_keys ls) ?t (co_pk_str c) = Some g"
    and sub: "group_new (sr_participant_public_keys req) ?t (co_pk_str c) = Some sub"
    by (cases "group_new (sls_public_keys ls) ?t (co_pk_str c)";
        cases "group_new (sr_participant_public_keys req) ?t (co_pk_str c)")
      (simp_all add: eq)
  let ?c1 = "sign_subgroup_saved E sub c"
  have i1: "node_inv E view sk ?c1"
  proof (rule node_inv_extend [OF inv])
    have "routes_ok c" using inv by (simp add: node_inv_def)
    then show "routes_ok ?c1"
      by (rule routes_ok_step) (auto simp: sign_subgroup_saved_def)
  qed (auto simp: sign_subgroup_saved_def view_grows_save_group [OF laws] List.map_filter_def)
  let ?c2 = "respond (sr_request_id req) [] Sign_type Processing ?c1"
  have i2: "node_inv E view sk ?c2"
    unfolding respond_def by (intro node_inv_emit i1) auto
  show ?thesis
  proof (cases "participant_indices g ?t (sr_participant_public_keys req)")
    case (Err e)
    with c' g sub i1 show ?thesis by (simp add: eq Let_def)
  next
    case s_l: (Ok s_l)
    with np g sub obtain i0 i where i: "get_i g = Some i0" "get_i sub = Some i"
      by (cases "get_i g"; cases "get_i sub") (simp_all add: eq Let_def)
    let ?room = "make_room_id (sr_request_id req) (pg_group_id sub)"
    let ?in = "\<lparr>es_inner = req, es_room = ?room, es_i = i, es_s_l = s_l\<rparr>"
    show ?thesis
    proof (cases "ce_offline_new E i s_l (sls_share ls)")
      case None
      with c' g sub s_l i i2 show ?thesis by (simp add: eq Let_def)
    next
      case (Some sm)
      let ?st = "Start_offline (co_next_addr c) (player_new ?in ?room i sm)"
      from c' g sub s_l i Some have e: "c' = emit [?st] (?c2\<lparr>co_next_addr := co_next_addr c + 1,
          co_offline_state_runners := (co_offline_state_runners c)(?room \<mapsto> co_next_addr c)\<rparr>)"
        by (simp add: eq Let_def)
      show ?thesis
      proof (rule node_inv_extend [OF i2, where es = "[?st]"])
        have "routes_ok ?c2" using i2 by (simp add: node_inv_def)
        moreover have "offline_started (co_out c') (co_next_addr c) ?room"
          by (rule startedI(2) [of _ ?in _ i sm]) (simp add: e)
        ultimately show "routes_ok c'"
          by (elim routes_ok_step)
            (auto simp: e respond_def sign_subgroup_saved_def split: if_splits)
      qed (auto simp: e respond_def sign_subgroup_saved_def List.map_filter_def)
    qed
  qed simp
qed simp

lemma node_inv_output_keygen:
  assumes laws: "store_laws E view" and inv: "node_inv E view sk c"
    and h: "handle_output_keygen E msg c = (c', Ok ())"
  shows "node_inv E view sk c'"
proof -
  let ?in = "po_input msg"
  from h obtain g where g: "group_new (kr_participant_public_keys ?in) (ucast (kr_threshold ?in))
      (co_pk_str c) = Some g"
    by (cases "group_new (kr_participant_public_keys ?in) (ucast (kr_threshold ?in)) (co_pk_str c)")
      (simp_all add: handle_output_keygen_Panic)
  note e = handle_output_keygen_eq [OF g, of E]
  show ?thesis
  proof (rule node_inv_extend [OF inv])
    have "routes_ok c" using inv by (simp add: node_inv_def)
    then show "routes_ok c'"
      using h by (elim routes_ok_step) (auto simp: e split: if_splits)
    show "co_out c' = co_out c @ [Inc REQUESTS_KEYGEN_DONE,
       Respond (mk_response (kr_request_id ?in)
         (hex_encode (env_crypto E) (env_lk_public_key E (po_output msg))) Keygen_type Done)]"
      using h by (auto simp: e)
  qed (use h in \<open>auto simp: e view_grows_save_share [OF laws] List.map_filter_def\<close>)
qed

lemma node_inv_output_offline:
  assumes inv: "node_inv E view sk c"
  shows "node_inv E view sk (handle_output_offline E msg c)"
proof -
  have r: "routes_ok c" using inv by (simp add: node_inv_def)
  show ?thesis
  proof (cases "ce_from_hex E (sr_hash (es_inner (po_input msg)))")
    case None
    show ?thesis
    proof (rule node_inv_extend [OF inv])
      show "routes_ok (handle_output_offline E msg c)"
        using None by (intro routes_ok_step [OF r])
          (auto simp: handle_output_offline_eq Let_def split: if_splits)
      show "co_out (handle_output_offline E msg c) = co_out c @ [Inc REQUESTS_OFFLINE_DONE,
          Respond (mk_response (sr_request_id (es_inner (po_input msg))) [] Sign_type Error)]"
        using None by (simp add: handle_output_offline_eq Let_def)
    qed (use None in \<open>auto simp: handle_output_offline_eq Let_def List.map_filter_def\<close>)
  next
    case (Some message)
    let ?in = "po_input msg"
    show ?thesis
    proof (rule node_inv_extend [OF inv])
      have "signer_of_room (co_out (handle_output_offline E msg c)) (co_next_addr c) (es_room ?in)"
        using startedI(3) [of "co_next_addr c" ?in
            "\<lparr>st_room = es_room ?in, st_index = es_i ?in,
              st_t = word_of_nat (length (es_s_l ?in)) - 1, st_message = message,
              st_completed_offline_stage = po_output msg\<rparr>"
            "co_out (handle_output_offline E msg c)"]
        by (simp add: handle_output_offline_eq Let_def Some)
      then show "routes_ok (handle_output_offline E msg c)"
        using Some by (intro routes_ok_step [OF r])
          (auto simp: handle_output_offline_eq Let_def split: if_splits)
      show "co_out (handle_output_offline E msg c) = co_out c @ [Inc REQUESTS_OFFLINE_DONE,
          Start_signer (co_next_addr c) (signer_new ?in
                \<lparr>st_room = es_room ?in, st_index = es_i ?in,
                 st_t = word_of_nat (length (es_s_l ?in)) - 1, st_message = message,
                 st_completed_offline_stage = po_output msg\<rparr>),
          Respond (mk_response (sr_request_id (es_inner ?in)) [] Sign_type Processing)]"
        using Some by (simp add: handle_output_offline_eq Let_def)
    qed (use Some in \<open>auto simp: handle_output_offline_eq Let_def List.map_filter_def\<close>)
  qed
qed

section \<open>The invariant holds in every run\<close>

lemma node_inv_new: "node_inv E view sk (coordinator_new E sk db)"
  by (simp add: node_inv_def coordinator_new_def routes_ok_def List.map_filter_def)

lemma incoming_filter_genuine:
  assumes "r \<in> set (incoming_filter E own [Ok raw])" and "own = identity_of (env_crypto E) sk"
    and "r = Ok w"
  shows "genuine E sk w"
proof -
  from assms have "do_parse_signed E raw = Ok w" "take_non_owned own (Ok w)"
    by (auto simp: incoming_filter_single split: if_splits)
  with assms(2) show ?thesis
    by (simp add: genuine_def take_non_owned_def do_parse_signed_Ok_iff)
qed

lemma node_inv_protocol_error:
  assumes inv: "node_inv E view sk c" and t: "trusted E view sk (co_db c) (im_wire_message (pe_message err))"
  shows "node_inv E view sk (handle_protocol_error now err c)"
  using inv t by (auto simp: handle_protocol_error_def intro: node_inv_retry split: sm_error.split)

lemma node_inv_message:
  assumes laws: "store_laws E view" and inv: "node_inv E view sk c"
    and ok: "retry_ok E view sk (co_db c) m" "message_ok m"
    and h: "handle_coordinator_message E now m c = (c', Ok ())"
  shows "node_inv E view sk c'"
proof (cases m)
  case (Retry r)
  show ?thesis
  proof (cases "rm_check_passed r")
    case True
    with ok Retry have "node_inv E view sk
        (handle_incoming_unsafe E (rm_message r) (rm_initial_timestamp r) (rm_attempts r) c)"
      by (intro node_inv_unsafe [OF inv]) simp_all
    with h Retry True show ?thesis by simp
  next
    case False
    with ok h Retry show ?thesis
      by (intro node_inv_handle_retry [OF store_laws_sled [OF laws] inv]) simp_all
  qed
qed (use ok in simp_all)

lemma node_inv_step:
  assumes laws: "store_laws E view" and step: "node_step E admit c c'" and inv: "node_inv E view sk c"
  shows "node_inv E view sk c'"
proof -
  have pk: "co_pk_str c = identity_of (env_crypto E) sk"
    and eff: "\<And>e. e \<in> set (co_out c) \<Longrightarrow> effect_ok E view sk (co_db c) (co_next_addr c) (co_out c) e"
    using inv by (simp_all add: node_inv_def)
  from step show ?thesis
  proof cases
    case (stream r raw now)
    show ?thesis
    proof (cases r)
      case (Ok w)
      from incoming_filter_genuine [OF stream(1) pk Ok] have "genuine E sk w" .
      moreover from stream(2) Ok have "handle_incoming E now w c = (c', Ok ())"
        by (simp add: stream_handle_def)
      ultimately show ?thesis
        by (rule node_inv_incoming [OF store_laws_sled [OF laws] inv])
    qed (use stream(2) inv in \<open>simp_all add: stream_handle_def\<close>)
  next
    case (keygen_request kreq now)
    with node_inv_keygen_request [OF laws inv] show ?thesis by simp
  next
    case (sign_request sreq now)
    with node_inv_sign_request [OF laws inv] show ?thesis by simp
  next
    case (outgoing now m)
    then have "c' = c \<or> (\<exists>m'. c' = emit [Send_one m'] c)"
      by (auto split: outcome.splits)
    with inv show ?thesis
      by (auto intro!: node_inv_emit [OF inv])
  next
    case (timer d m now)
    from eff [OF timer(1)] have "retry_ok E view sk (co_db c) m" "message_ok m"
      by (cases m; simp)+
    with timer(2) show ?thesis by (intro node_inv_message [OF laws inv])
  next
    case (error_keygen a im now room e)
    with eff [OF error_keygen(2)] show ?thesis by (auto intro: node_inv_protocol_error [OF inv])
  next
    case (error_offline a im now room e)
    with eff [OF error_offline(2)] show ?thesis by (auto intro: node_inv_protocol_error [OF inv])
  next
    case (output_keygen a p lk)
    with node_inv_output_keygen [OF laws inv] show ?thesis by blast
  next
    case (output_offline a p cos)
    with node_inv_output_offline [OF inv] show ?thesis by blast
  next
    case (output_sign a s sg)
    then show ?thesis
      by (auto simp: handle_output_sign_eq intro!: node_inv_emit inv)
  next
    case sent
    with inv show ?thesis by (simp add: send_one_Ok)
  qed
qed

lemma node_inv_reachable:
  assumes "store_laws E view" and "node_reachable E admit sk db c"
  shows "node_inv E view sk c"
  using assms(2)
  by (induction rule: node_reachable.induct)
    (auto simp: node_inv_new intro: node_inv_step [OF assms(1)])

section \<open>The network cannot stop a server\<close>

text \<open>
  A panic of the coordinator ends the server's work. A message causes one when the group stored for
  its room does not have this server's key. \<open>named\<close> says that no such group is stored; a group is
  stored when a key generation has found its own index in it, or by a signing request, before any
  check. \<open>formats_disjoint\<close> is a fact of the JSON formats: a stored share lacks the fields of a
  group.
\<close>

definition named ::
  "('db, 'sk, 'pk, 'sg, 'lk, 'x) env_scheme \<Rightarrow> ('db \<Rightarrow> string \<Rightarrow> string option) \<Rightarrow> 'db \<Rightarrow> bool" where
  "named E view db \<longleftrightarrow>
     (\<forall>k b g. view db k = Some b \<longrightarrow> de (env_group E) b = Some g \<longrightarrow>
        pg_own_public_key g \<in> set (pg_public_keys g))"

definition formats_disjoint :: "('db, 'sk, 'pk, 'sg, 'lk, 'x) env_scheme \<Rightarrow> bool" where
  "formats_disjoint E \<longleftrightarrow> (\<forall>es s. ser (env_share E) es = Some s \<longrightarrow> de (env_group E) s = None)"

text \<open>The service hands over only signing requests in which this server takes part.\<close>

definition takes_part ::
  "('db, 'sk, 'pk, 'sg, 'lk, 'x) env_scheme \<Rightarrow> 'sk \<Rightarrow> coordinator_message \<Rightarrow> bool" where
  "takes_part E sk m \<longleftrightarrow>
     (case m of
        SignRequest r \<Rightarrow> identity_of (env_crypto E) sk \<in> set (sr_participant_public_keys r)
      | _ \<Rightarrow> True)"

lemma cas_view_cases:
  assumes "sled_laws (env_sled E) view"
    and "view (fst (sled_cas (env_sled E) db k0 None (Some v))) k = Some b"
  shows "view db k = Some b \<or> b = v"
proof -
  obtain d' r where c: "sled_cas (env_sled E) db k0 None (Some v) = (d', r)"
    by (cases "sled_cas (env_sled E) db k0 None (Some v)")
  from sled_laws_cas_any [OF assms(1) c] assms(2) c show ?thesis
    by (auto split: option.splits bool.splits if_splits)
qed

lemma named_save_group:
  assumes laws: "store_laws E view" and n: "named E view db"
    and own: "pg_own_public_key g \<in> set (pg_public_keys g)"
  shows "named E view (fst (save_group E db g))"
  unfolding named_def
proof (intro allI impI)
  fix k b h
  assume v: "view (fst (save_group E db g)) k = Some b" and d: "de (env_group E) b = Some h"
  show "pg_own_public_key h \<in> set (pg_public_keys h)"
  proof (cases "ser (env_group E) g")
    case None
    with v d n show ?thesis by (auto simp: fst_save_group named_def)
  next
    case (Some bytes)
    with v have "view db k = Some b \<or> b = bytes"
      using cas_view_cases [OF store_laws_sled [OF laws]] by (auto simp: fst_save_group)
    with d n own json_lawsD(3) [OF store_laws_json [OF laws] Some] show ?thesis
      by (auto simp: named_def)
  qed
qed

lemma named_save_share:
  assumes laws: "store_laws E view" and f: "formats_disjoint E" and n: "named E view db"
  shows "named E view (fst (save_share E db sh))"
  unfolding named_def
proof (intro allI impI)
  fix k b h
  assume v: "view (fst (save_share E db sh)) k = Some b" and d: "de (env_group E) b = Some h"
  have "view db k = Some b"
  proof (cases "\<exists>es out. encrypt_share E sh = Ok es \<and> ser (env_share E) es = Some out")
    case True
    then obtain es out where o': "encrypt_share E sh = Ok es" "ser (env_share E) es = Some out" by blast
    with v have "view db k = Some b \<or> b = out"
      using cas_view_cases [OF store_laws_sled [OF laws]] by (auto simp: fst_save_share)
    with f o'(2) d show ?thesis by (auto simp: formats_disjoint_def)
  next
    case False
    with v show ?thesis by (auto simp: fst_save_share split: outcome.splits option.splits)
  qed
  with n d show "pg_own_public_key h \<in> set (pg_public_keys h)" by (auto simp: named_def)
qed

lemma named_no_panic:
  assumes laws: "sled_laws (env_sled E) view" and n: "named E view db"
  shows "valid_sender_and_receiver E db w \<noteq> Panic"
proof
  assume "valid_sender_and_receiver E db w = Panic"
  then obtain g m where k: "known_message E db w g m"
    and own: "pg_own_public_key g \<notin> set (pg_public_keys g)"
    by (auto simp: valid_sender_and_receiver_Panic_iff)
  from k obtain gid bytes where "sled_get (env_sled E) db gid = Some (Some bytes)"
    and d: "de (env_group E) bytes = Some g"
    by (auto simp: known_message_def retrieve_group_def and_then_eq_Ok)
  from sled_laws_get [OF laws this(1)] have "view db gid = Some bytes" by simp
  with n d own show False by (auto simp: named_def)
qed

text \<open>Handlers of messages leave the database alone.\<close>

lemma same_routes_db: "same_routes c c' \<Longrightarrow> co_db c' = co_db c"
  by (auto simp: same_routes_def)

lemma co_db_messages [simp]:
  "co_db (fst (handle_incoming E now w c)) = co_db c"
  "co_db (fst (handle_retry E r c)) = co_db c"
  "co_db (handle_incoming_unsafe E w ts a c) = co_db c"
  "co_db (retry r c) = co_db c"
  by (rule same_routes_db, simp add: same_routes_handle_incoming same_routes_handle_retry)+

lemma co_db_not_request:
  assumes "retry_ok E' view sk db m \<or> (\<exists>x. m = Outgoing x) \<or> (\<exists>x. m = Incoming x)"
  shows "co_db (fst (handle_coordinator_message E now m c)) = co_db c"
  using assms by (cases m) (auto split: outcome.splits)

lemma named_keygen_request:
  assumes laws: "store_laws E view" and n: "named E view (co_db c)"
    and h: "ignore_result (handle_keygen_request E req c) = (c', Ok ())"
  shows "named E view (co_db c')"
proof -
  from h have c': "c' = fst (handle_keygen_request E req c)"
    and np: "snd (handle_keygen_request E req c) \<noteq> Panic"
    by (simp_all add: ignore_result_Ok)
  let ?g = "group_new (kr_participant_public_keys req) (ucast (kr_threshold req)) (co_pk_str c)"
  show ?thesis
  proof (cases ?g)
    case None
    with np show ?thesis by (simp add: handle_keygen_request_eq Let_def)
  next
    case (Some g)
    with np obtain i where i: "get_i g = Some i"
      by (cases "get_i g") (simp_all add: handle_keygen_request_eq Let_def)
    then have "pg_own_public_key g \<in> set (pg_public_keys g)"
      using get_i_None_iff [of g] by fastforce
    from named_save_group [OF laws n this] n c' Some i show ?thesis
      by (simp add: handle_keygen_request_eq Let_def split: option.splits)
  qed
qed

lemma named_sign_request:
  assumes laws: "store_laws E view" and n: "named E view (co_db c)"
    and part: "co_pk_str c \<in> set (sr_participant_public_keys req)"
  shows "named E view (co_db (fst (handle_sign_request E req c)))"
proof (cases "retrieve_share E (co_sk c) (co_db c) (sr_public_key req)")
  case (Err e)
  with n show ?thesis by (simp add: handle_sign_request_no_share)
next
  case (Ok ls)
  let ?t = "env_lk_t E (sls_share ls)"
  show ?thesis
  proof (cases "group_new (sr_participant_public_keys req) ?t (co_pk_str c)")
    case None
    with n show ?thesis
      by (simp add: handle_sign_request_eq [OF Ok refl] split: option.split)
  next
    case (Some sub)
    with part have "pg_own_public_key sub \<in> set (pg_public_keys sub)"
      using group_new_fields [OF Some] by simp
    from named_save_group [OF laws n this] n show ?thesis
      by (simp add: handle_sign_request_eq [OF Ok refl] Some Let_def sign_subgroup_saved_def
          respond_def split: option.split outcome.split)
  qed
qed simp

lemma named_step:
  assumes laws: "store_laws E view" and f: "formats_disjoint E"
    and step: "node_step E (takes_part E sk) c c'" and inv: "node_inv E view sk c"
    and n: "named E view (co_db c)"
  shows "named E view (co_db c')"
proof -
  have pk: "co_pk_str c = identity_of (env_crypto E) sk"
    and eff: "\<And>e. e \<in> set (co_out c) \<Longrightarrow> effect_ok E view sk (co_db c) (co_next_addr c) (co_out c) e"
    using inv by (simp_all add: node_inv_def)
  from step show ?thesis
  proof cases
    case (stream r raw now)
    have "co_db (fst (stream_handle E now r c)) = co_db c"
      by (simp add: stream_handle_def split: outcome.split)
    with stream(2) have "co_db c' = co_db c" by simp
    with n show ?thesis by simp
  next
    case (keygen_request kreq now)
    with named_keygen_request [OF laws n] show ?thesis by simp
  next
    case (sign_request sreq now)
    with named_sign_request [OF laws n, of sreq] pk show ?thesis
      by (auto simp: takes_part_def ignore_result_Ok)
  next
    case (outgoing now m)
    then have "co_db c' = co_db c" by (auto split: outcome.splits)
    with n show ?thesis by simp
  next
    case (timer d m now)
    from eff [OF timer(1)] have "retry_ok E view sk (co_db c) m" by simp
    from co_db_not_request [OF disjI1, OF this, of E now c] timer(2) n show ?thesis by simp
  next
    case (output_keygen a p lk)
    let ?in = "pl_input p"
    show ?thesis
    proof (cases "group_new (kr_participant_public_keys ?in) (ucast (kr_threshold ?in)) (co_pk_str c)")
      case None
      with output_keygen show ?thesis by (simp add: handle_output_keygen_Panic)
    next
      case (Some g)
      with output_keygen named_save_share [OF laws f n] show ?thesis
        by (auto simp: handle_output_keygen_eq)
    qed
  next
    case (output_offline a p cos)
    with n show ?thesis
      by (auto simp: handle_output_offline_eq Let_def split: option.split)
  next
    case (output_sign a s sg)
    with n show ?thesis by (simp add: handle_output_sign_eq)
  next
    case sent
    with n show ?thesis by (simp add: send_one_Ok)
  qed (use n in \<open>simp_all add: handle_protocol_error_def split: sm_error.split\<close>)
qed

lemma named_reachable:
  assumes laws: "store_laws E view" and f: "formats_disjoint E" and n: "named E view db"
    and r: "node_reachable E (takes_part E sk) sk db c"
  shows "named E view (co_db c)"
  using r
proof (induction rule: node_reachable.induct)
  case start
  with n show ?case by (simp add: coordinator_new_def)
next
  case (continue c c')
  from continue.hyps(1) have "node_inv E view sk c" by (rule node_inv_reachable [OF laws])
  from named_step [OF laws f continue.hyps(2) this continue.IH] show ?case .
qed

text \<open>
  So no message from the network, and no timer, makes the coordinator panic while the database names
  this server in every stored group.
\<close>

lemma network_never_panics:
  assumes laws: "store_laws E view" and inv: "node_inv E view sk c" and n: "named E view (co_db c)"
    and own: "str_range (identity_of (env_crypto E) sk) 2 10 \<noteq> None"
  shows "\<exists>c'. stream_handle E now r c = (c', Ok ())"
    and "Run_later d m \<in> set (co_out c) \<Longrightarrow> \<exists>c'. handle_coordinator_message E now m c = (c', Ok ())"
proof -
  have np: "valid_sender_and_receiver E (co_db c) w \<noteq> Panic" for w
    by (rule named_no_panic [OF store_laws_sled [OF laws] n])
  obtain p where "str_range (co_pk_str c) 2 10 = Some p"
    using own inv by (auto simp: node_inv_def)
  with np show "\<exists>c'. stream_handle E now r c = (c', Ok ())"
    by (cases r) (auto simp: stream_handle_def handle_incoming_eq Let_def split: outcome.split)
  assume t: "Run_later d m \<in> set (co_out c)"
  from node_inv_effect [OF inv t] obtain x where "m = Retry x" by (cases m) simp_all
  with np precheck_Panic_iff [of E "rm_message x" c] show "\<exists>c'. handle_coordinator_message E now m c = (c', Ok ())"
    by (cases "precheck_message E (rm_message x) c") (auto simp: handle_retry_def)
qed

end
