(* ===== verification/Joins.thy ===== *)
theory Joins
  imports Transport
begin

text \<open>
  How a server joins the others: \<open>join_computation_via_messenger\<close> (\<open>messenger.rs\<close>) and
  \<open>join_computation_via_redis\<close> (\<open>redis.rs\<close>), the clients they construct, and the sinks they
  return. What the network answers is an argument.
\<close>

section \<open>The clients\<close>

text \<open>
  A reply of \<open>surf\<close>: \<open>None\<close> when no answer came, otherwise its status, which neither \<open>broadcast\<close> nor
  \<open>subscribe\<close> looks at.
\<close>

definition surf_reply :: "nat option \<Rightarrow> unit result" where
  "surf_reply reply = (case reply of None \<Rightarrow> Err ''surf'' | Some status \<Rightarrow> Ok ())"

definition sm_client_new :: "(string \<Rightarrow> bool) \<Rightarrow> string \<Rightarrow> string result" where
  "sm_client_new accepts url = (if accepts url then Ok url else Err ''surf'')"

text \<open>The replies of Redis to \<open>open\<close>, the two connections, \<open>subscribe\<close> and \<open>publish\<close>.\<close>

record redis_replies =
  rr_open :: "string \<Rightarrow> bool"
  rr_connection :: bool
  rr_pubsub_connection :: bool
  rr_subscribed :: bool

definition redis_reply :: "bool \<Rightarrow> unit result" where
  "redis_reply ok = (if ok then Ok () else Err ''redis'')"

record redis_client =
  rc_channel_name :: string
  rc_client :: string

definition redis_client_new :: "redis_replies \<Rightarrow> string \<Rightarrow> redis_client result" where
  "redis_client_new w url =
     (let name = channel_name in
      and_then (redis_reply (rr_open w url)) (\<lambda>_.
      and_then (redis_reply (rr_connection w)) (\<lambda>_.
      Ok \<lparr>rc_channel_name = name, rc_client = url\<rparr>)))"

definition redis_subscribe :: "redis_replies \<Rightarrow> redis_client \<Rightarrow> string result" where
  "redis_subscribe w c =
     and_then (redis_reply (rr_pubsub_connection w)) (\<lambda>_.
     and_then (redis_reply (rr_subscribed w)) (\<lambda>_. Ok (rc_channel_name c)))"

section \<open>Joining\<close>

text \<open>
  The state of the sink is the client with the key pair; the stream is given by the own public key,
  which its filter compares with.
\<close>

record ('client, 'sk) link =
  ln_client :: 'client
  ln_key :: 'sk
  ln_pub_key :: string

definition join_computation_via_messenger ::
  "('db, 'sk, 'pk, 'sg, 'lk, 'x) env_scheme \<Rightarrow> (string \<Rightarrow> bool) \<Rightarrow> nat option \<Rightarrow> string \<Rightarrow> 'sk \<Rightarrow>
   (string \<times> (string, 'sk) link) result" where
  "join_computation_via_messenger E accepts reply url key =
     (let pub_key = identity_of (env_crypto E) key in
      and_then (in_context ''construct SmClient'' (sm_client_new accepts url)) (\<lambda>client.
      and_then (in_context ''subscribe'' (surf_reply reply)) (\<lambda>_.
      Ok (pub_key, \<lparr>ln_client = client, ln_key = key, ln_pub_key = pub_key\<rparr>))))"

definition join_computation_via_redis ::
  "('db, 'sk, 'pk, 'sg, 'lk, 'x) env_scheme \<Rightarrow> redis_replies \<Rightarrow> string \<Rightarrow> 'sk \<Rightarrow>
   (string \<times> (redis_client, 'sk) link) result" where
  "join_computation_via_redis E w url key =
     (let pub_key = identity_of (env_crypto E) key in
      and_then (in_context ''construct RedisClient'' (redis_client_new w url)) (\<lambda>client.
      and_then (in_context ''subscribe'' (redis_subscribe w client)) (\<lambda>_.
      Ok (pub_key, \<lparr>ln_client = client, ln_key = key, ln_pub_key = pub_key\<rparr>))))"

section \<open>The sinks\<close>

text \<open>
  The closures that \<open>sink::unfold\<close> runs for a message: what they ask of the network, and the state they
  return for the next message. They own the state they are called with, so an error drops it.
\<close>

definition unfold_messenger ::
  "('db, 'sk, 'pk, 'sg, 'lk, 'x) env_scheme \<Rightarrow> nat option \<Rightarrow> (string, 'sk) link \<Rightarrow> core_message \<Rightarrow>
   http_request list \<times> (string, 'sk) link result" where
  "unfold_messenger E reply st unsigned_msg =
     (case outgoing_text E (ln_key st) (ln_pub_key st) unsigned_msg of
        Ok serialized \<Rightarrow>
          ([sm_broadcast serialized],
           and_then (in_context ''broadcast message'' (surf_reply reply)) (\<lambda>_. Ok st))
      | Err e \<Rightarrow> ([], Err e)
      | Panic \<Rightarrow> ([], Panic))"

definition unfold_redis ::
  "('db, 'sk, 'pk, 'sg, 'lk, 'x) env_scheme \<Rightarrow> bool \<Rightarrow> (redis_client, 'sk) link \<Rightarrow> core_message \<Rightarrow>
   redis_command list \<times> (redis_client, 'sk) link result" where
  "unfold_redis E ok st unsigned_msg =
     (case outgoing_text E (ln_key st) (ln_pub_key st) unsigned_msg of
        Ok serialized \<Rightarrow>
          ([Publish (rc_channel_name (ln_client st)) serialized],
           and_then (in_context ''broadcast message'' (redis_reply ok)) (\<lambda>_. Ok st))
      | Err e \<Rightarrow> ([], Err e)
      | Panic \<Rightarrow> ([], Panic))"

text \<open>
  What \<open>sink::unfold\<close> of \<open>futures\<close> 0.3.25, the version that \<open>Cargo.lock\<close> pins, makes of a closure: a sink
  that calls it with the state that it returned last. After an error there is no state, and the next
  \<open>send\<close> panics, in \<open>start_send\<close>. The result is the state for the next message.
\<close>

definition sink_send ::
  "('r \<Rightarrow> 's \<Rightarrow> core_message \<Rightarrow> 'w list \<times> 's result) \<Rightarrow> 'r \<Rightarrow> core_message \<Rightarrow> 's option \<Rightarrow>
   'w list \<times> 's option result" where
  "sink_send closure reply m st =
     (case st of
        None \<Rightarrow> ([], Panic)
      | Some s \<Rightarrow> (case closure reply s m of (ws, r) \<Rightarrow>
          (ws, case r of Ok s' \<Rightarrow> Ok (Some s') | Err e \<Rightarrow> Ok None | Panic \<Rightarrow> Panic)))"

text \<open>Messages sent one after the other, their results ignored as in \<open>send_one\<close>, until one panics.\<close>

fun sink_run ::
  "('r \<Rightarrow> 's \<Rightarrow> core_message \<Rightarrow> 'w list \<times> 's result) \<Rightarrow> ('r \<times> core_message) list \<Rightarrow> 's option \<Rightarrow>
   'w list \<times> 's option result" where
  "sink_run closure [] st = ([], Ok st)"
| "sink_run closure ((reply, m) # rms) st =
     (case sink_send closure reply m st of
        (ws, Ok st') \<Rightarrow> (case sink_run closure rms st' of (ws', r) \<Rightarrow> (ws @ ws', r))
      | (ws, r) \<Rightarrow> (ws, r))"

section \<open>Facts\<close>

lemma surf_reply_Ok [simp]: "surf_reply reply = Ok u \<longleftrightarrow> reply \<noteq> None"
  by (simp add: surf_reply_def split: option.split)

lemma redis_reply_Ok [simp]: "redis_reply ok = Ok u \<longleftrightarrow> ok"
  by (simp add: redis_reply_def)

lemma sink_run_append:
  "sink_run closure (xs @ ys) st =
     (case sink_run closure xs st of
        (ws, Ok st') \<Rightarrow> (case sink_run closure ys st' of (ws', r) \<Rightarrow> (ws @ ws', r))
      | (ws, r) \<Rightarrow> (ws, r))"
  by (induction closure xs st rule: sink_run.induct) (simp_all split: prod.split outcome.split)

lemma sink_send_None [simp]: "sink_send closure reply m None = ([], Panic)"
  by (simp add: sink_send_def)

lemma sink_run_None: "sink_run closure rms None = ([], if rms = [] then Ok None else Panic)"
  by (cases rms) (auto simp: sink_send_None)

text \<open>What each of the closures does, in the terms of \<open>messenger_outgoing\<close> and \<open>redis_outgoing\<close>.\<close>

definition link_of :: "('db, 'sk, 'pk, 'sg, 'lk, 'x) env_scheme \<Rightarrow> 'c \<Rightarrow> 'sk \<Rightarrow> ('c, 'sk) link" where
  "link_of E client key =
     \<lparr>ln_client = client, ln_key = key, ln_pub_key = identity_of (env_crypto E) key\<rparr>"

definition redis_client_of :: "string \<Rightarrow> redis_client" where
  "redis_client_of url = \<lparr>rc_channel_name = channel_name, rc_client = url\<rparr>"

lemma link_of_simps [simp]:
  "ln_client (link_of E client key) = client" "ln_key (link_of E client key) = key"
  "ln_pub_key (link_of E client key) = identity_of (env_crypto E) key"
  "rc_channel_name (redis_client_of url) = channel_name"
  by (simp_all add: link_of_def redis_client_of_def)

lemma join_via_messenger_Ok:
  "join_computation_via_messenger E accepts reply url key = Ok (own, st) \<longleftrightarrow>
     accepts url \<and> reply \<noteq> None \<and> own = identity_of (env_crypto E) key \<and> st = link_of E url key"
  by (auto simp: join_computation_via_messenger_def Let_def and_then_eq_Ok sm_client_new_def link_of_def
      split: if_splits)

lemma join_via_redis_Ok:
  "join_computation_via_redis E w url key = Ok (own, st) \<longleftrightarrow>
     rr_open w url \<and> rr_connection w \<and> rr_pubsub_connection w \<and> rr_subscribed w \<and>
     own = identity_of (env_crypto E) key \<and> st = link_of E (redis_client_of url) key"
  by (auto simp: join_computation_via_redis_def Let_def and_then_eq_Ok redis_client_new_def
      redis_subscribe_def link_of_def redis_client_of_def)

section \<open>The contract of the sinks\<close>

text \<open>
  A closure that asks for \<open>asks s m\<close> and gives its state back exactly when there was something to ask
  and the network took it (\<open>up\<close>).
\<close>

locale fallible_sink =
  fixes closure :: "'r \<Rightarrow> 's \<Rightarrow> core_message \<Rightarrow> 'w list \<times> 's result"
    and asks :: "'s \<Rightarrow> core_message \<Rightarrow> 'w list" and up :: "'r \<Rightarrow> bool"
  assumes asked: "fst (closure r s m) = asks s m"
    and kept: "snd (closure r s m) = Ok s' \<longleftrightarrow> up r \<and> asks s m \<noteq> [] \<and> s' = s"
    and returns: "snd (closure r s m) \<noteq> Panic"
begin

lemma send_cases:
  "sink_send closure r m (Some s) = (asks s m, Ok (if up r \<and> asks s m \<noteq> [] then Some s else None))"
proof -
  obtain b where b: "closure r s m = (asks s m, b)" using asked [of r s m] by (cases "closure r s m") simp
  with kept [of r s m] returns [of r s m] show ?thesis by (cases b) (auto simp: sink_send_def)
qed

lemma sends_while_up:
  assumes "\<forall>(r, m) \<in> set rms. up r \<and> asks s m \<noteq> []"
  shows "sink_run closure rms (Some s) = (concat (map (\<lambda>(r, m). asks s m) rms), Ok (Some s))"
  using assms by (induction rms) (auto simp: send_cases)

lemma run_cases:
  "\<exists>ws r. sink_run closure rms (Some s) = (ws, r) \<and> (r = Ok (Some s) \<or> r = Ok None \<or> r = Panic)"
  by (induction rms) (auto simp: send_cases sink_run_None)

lemma panics_after_failure:
  assumes "\<not> up r" and "later \<noteq> []"
  shows "sink_run closure (rms @ (r, m) # later) (Some s) =
    (fst (sink_run closure (rms @ [(r, m)]) (Some s)), Panic)"
proof -
  obtain ws r' where "sink_run closure rms (Some s) = (ws, r')" "r' = Ok (Some s) \<or> r' = Ok None \<or> r' = Panic"
    using run_cases by blast
  with assms show ?thesis by (auto simp: sink_run_append send_cases sink_run_None)
qed

end

interpretation messenger_sink: fallible_sink "unfold_messenger E"
    "\<lambda>st m. case outgoing_text E (ln_key st) (ln_pub_key st) m of Ok t \<Rightarrow> [sm_broadcast t] | _ \<Rightarrow> []"
    "\<lambda>reply. reply \<noteq> None"
  for E :: "('db, 'sk, 'pk, 'sg, 'lk, 'x) env_scheme"
  by unfold_locales (auto simp: unfold_messenger_def and_then_eq_Ok and_then_eq_Panic surf_reply_def
      split: outcome.splits option.splits)

interpretation redis_sink: fallible_sink "unfold_redis E"
    "\<lambda>st m. case outgoing_text E (ln_key st) (ln_pub_key st) m of
       Ok t \<Rightarrow> [Publish (rc_channel_name (ln_client st)) t] | _ \<Rightarrow> []"
    "\<lambda>ok. ok"
  for E :: "('db, 'sk, 'pk, 'sg, 'lk, 'x) env_scheme"
  by unfold_locales (auto simp: unfold_redis_def and_then_eq_Ok and_then_eq_Panic redis_reply_def
      split: outcome.splits)

text \<open>Both sinks ask for the same texts, as long as and after the network is up.\<close>

fun posted_text :: "http_request \<Rightarrow> string option" where
  "posted_text (Post path text) = Some text"
| "posted_text (Get path) = None"

fun published_text :: "redis_command \<Rightarrow> string option" where
  "published_text (Publish channel text) = Some text"

lemma same_sends:
  "map posted_text (fst (sink_run (unfold_messenger E) (map (\<lambda>(up, m). (if up then Some status else None, m)) rms)
       (map_option (\<lambda>_. link_of E url key) st))) =
   map published_text (fst (sink_run (unfold_redis E) rms (map_option (\<lambda>_. link_of E client key) st)))"
proof (induction rms arbitrary: st)
  case (Cons rm rms)
  obtain up m where rm: "rm = (up, m)" by (cases rm)
  show ?case
  proof (cases st)
    case None
    then show ?thesis by (simp add: rm)
  next
    case (Some u)
    show ?thesis
    proof (cases "outgoing_text E key (identity_of (env_crypto E) key) m")
      case (Ok t)
      with Cons.IH [of "if up then Some u else None"] Some rm show ?thesis
        by (cases up) (auto simp: messenger_sink.send_cases redis_sink.send_cases sm_broadcast_def split: prod.splits)
    qed (use Some rm Cons.IH [of None] in \<open>auto simp: messenger_sink.send_cases redis_sink.send_cases split: prod.splits\<close>)
  qed
qed simp

lemma same_arrivals:
  "messenger_incoming E own (map (\<lambda>t. Some (Sse_message t)) ts) =
   redis_incoming E own (map (\<lambda>t. if valid_utf8 t then Some t else None) ts)"
proof (induction ts)
  case Nil
  show ?case by (simp add: messenger_incoming_def redis_incoming_def List.map_filter_def)
next
  case (Cons t ts)
  have "messenger_incoming E own [Some (Sse_message t)] =
      redis_incoming E own [if valid_utf8 t then Some t else None]"
    by (simp add: messenger_incoming_def redis_incoming_def sm_event_def redis_payload_def from_utf8_def
        incoming_filter_def parse_signed_def List.map_filter_def)
  with Cons show ?case
    using via_messenger.incoming_append [of E own "[Some (Sse_message t)]" "map (\<lambda>t. Some (Sse_message t)) ts"]
      via_redis.incoming_append [of E own "[if valid_utf8 t then Some t else None]"
        "map (\<lambda>t. if valid_utf8 t then Some t else None) ts"]
    by simp
qed

end
