(* ===== verification/Startup.thy ===== *)
theory Startup
  imports Server Joins Messenger_Facts
begin

text \<open>
  The programs as they are started: \<open>main\<close> of \<open>src/src/main.rs\<close>, whose message queue is one of the
  two of \<open>Joins\<close>, \<open>main\<close> of \<open>src/messenger/src/main.rs\<close>, with the routes that it mounts, and the
  small tool that draws a key pair.
\<close>

section \<open>The server\<close>

text \<open>
  \<open>use_messenger\<close> and \<open>use_redis\<close> join with the address that they unwrap; \<open>bootstrap\<close> is the choice
  between them. \<open>joins\<close> turns what the network answers into the answers that \<open>bootstrap\<close> asks for.
\<close>

record network =
  nw_outside :: outside
  nw_accepts :: "string \<Rightarrow> bool"
  nw_subscribe :: "nat option"
  nw_redis :: redis_replies

definition joins ::
  "('db, 'sk, 'pk, 'sg, 'lk, 'x) env_scheme \<Rightarrow> network \<Rightarrow> 'sk \<Rightarrow> outside" where
  "joins E w sk =
     (nw_outside w)
       \<lparr>os_join_messenger := (\<lambda>url. is_ok (join_computation_via_messenger E (nw_accepts w) (nw_subscribe w) url sk)),
        os_join_redis := (\<lambda>url. is_ok (join_computation_via_redis E (nw_redis w) url sk))\<rparr>"

text \<open>
  \<open>main\<close> up to the servers: the database of the results and the check of the configuration are
  unwrapped; then the service gets the sending ends of its channels, and \<open>bootstrap\<close> runs in a thread
  of its own, so that its panic does not stop the service. \<open>rx\<close> are the requests it will receive.
\<close>

definition server_main ::
  "network \<Rightarrow> ('db, 'sk, 'pk, 'sg, 'lk, 'x) env_scheme \<Rightarrow> file_system \<Rightarrow>
   (string \<Rightarrow> string \<Rightarrow> string option) \<Rightarrow> 'db option \<Rightarrow> 'db option \<Rightarrow> cli \<Rightarrow> request list \<Rightarrow>
   (anyhow, 'db mpc_imp \<times>
     (anyhow, (('db, 'sk, 'lk, 'kg, 'mk, 'off, 'mo, 'cos, 'ps) coordinator \<times>
       (counter \<times> coordinator_message) list) option) outcome) outcome" where
  "server_main w E fs decrypt_key results_opened shares_opened args rx =
     and_then (unwrap results_opened) (\<lambda>results_db.
     case precheck (nw_outside w) args of
       Ok _ \<Rightarrow>
         (let keys = get_secret_key (env_crypto E) fs decrypt_key (cli_keystore_path args)
                       (cli_password_path args);
              w' = (case keys of Ok (sk, _) \<Rightarrow> joins E w sk | _ \<Rightarrow> nw_outside w) in
          Ok (mpc_imp_new results_db, bootstrap w' E fs decrypt_key shares_opened args rx))
     | _ \<Rightarrow> Panic)"

text \<open>What \<open>bootstrap\<close> comes to when the configuration has passed the check.\<close>

lemma prechecked_bootstrap:
  assumes "precheck w args = Ok ()"
    and "keys = get_secret_key (env_crypto E) fs dk (cli_keystore_path args) (cli_password_path args)"
  shows "(cli_messenger_address args = None \<longleftrightarrow> cli_redis_url args \<noteq> None) \<and>
    (case bootstrap w E fs dk opened args rx of
       Panic \<Rightarrow> \<not> is_ok keys \<or> opened = None
     | Err e \<Rightarrow> False
     | Ok None \<Rightarrow> is_ok keys \<and> opened \<noteq> None
     | Ok (Some (c, handed)) \<Rightarrow> handed = map handle rx \<and>
         (\<exists>sk pk db. keys = Ok (sk, pk) \<and> opened = Some db \<and> c = coordinator_new E sk db))"
proof -
  have one: "cli_messenger_address args = None \<longleftrightarrow> cli_redis_url args \<noteq> None"
    using assms(1) by (auto simp: precheck_def split: option.splits)
  have serve: "case serve_requests E keys opened joined rx of
      Panic \<Rightarrow> \<not> is_ok keys \<or> opened = None
     | Err e \<Rightarrow> False
     | Ok None \<Rightarrow> is_ok keys \<and> opened \<noteq> None
     | Ok (Some (c, handed)) \<Rightarrow> handed = map handle rx \<and>
         (\<exists>sk pk db. keys = Ok (sk, pk) \<and> opened = Some db \<and> c = coordinator_new E sk db)" for joined
    by (cases keys; cases opened) (auto simp: serve_requests_def)
  show ?thesis
  proof (cases "cli_messenger_address args")
    case None
    with one obtain url where u: "cli_redis_url args = Some url" by auto
    with None one serve [of "os_join_redis w url"] show ?thesis
      by (simp add: bootstrap_def Let_def assms(2))
  next
    case (Some url)
    with one have "cli_redis_url args = None" by auto
    with Some one serve [of "os_join_messenger w url"] show ?thesis
      by (simp add: bootstrap_def Let_def assms(2))
  qed
qed

text \<open>Whether the queue that is configured can be joined.\<close>

definition queue_up :: "network \<Rightarrow> cli \<Rightarrow> bool" where
  "queue_up w args \<longleftrightarrow>
     (case (cli_messenger_address args, cli_redis_url args) of
        (Some url, None) \<Rightarrow> nw_accepts w url \<and> nw_subscribe w \<noteq> None
      | (None, Some url) \<Rightarrow> rr_open (nw_redis w) url \<and> rr_connection (nw_redis w) \<and>
          rr_pubsub_connection (nw_redis w) \<and> rr_subscribed (nw_redis w)
      | _ \<Rightarrow> False)"

lemma precheck_joins [simp]: "precheck (joins E w sk) args = precheck (nw_outside w) args"
  by (simp add: precheck_def joins_def split: option.split)

lemma joins_up:
  "os_join_messenger (joins E w sk) url \<longleftrightarrow> nw_accepts w url \<and> nw_subscribe w \<noteq> None"
  "os_join_redis (joins E w sk) url \<longleftrightarrow> rr_open (nw_redis w) url \<and> rr_connection (nw_redis w) \<and>
     rr_pubsub_connection (nw_redis w) \<and> rr_subscribed (nw_redis w)"
  by (auto simp: joins_def is_ok_iff join_via_messenger_Ok join_via_redis_Ok)

lemma bootstrap_joined:
  assumes "get_secret_key (env_crypto E) fs dk (cli_keystore_path args) (cli_password_path args) = Ok (sk, pk)"
    and "bootstrap (joins E w sk) E fs dk opened args rx = Ok r"
  shows "r = None \<longleftrightarrow> \<not> queue_up w args"
  using assms by (auto simp: bootstrap_def serve_requests_def queue_up_def joins_up and_then_eq_Ok
      split: option.splits if_splits)

text \<open>
  The two servers: the metrics server is bound 100 ports above and unwraps; the address of the
  service is formatted and parsed again, and unwraps; then both run.
\<close>

definition run_servers ::
  "(string \<Rightarrow> u16 \<Rightarrow> bool) \<Rightarrow> (string \<Rightarrow> 'addr option) \<Rightarrow> bool \<Rightarrow> bool \<Rightarrow> cli \<Rightarrow> (app_error, unit) outcome" where
  "run_servers binds parse_addr metrics_ok mpc_ok args =
     (if \<not> binds (cli_address args) (metrics_port args) then Panic
      else case parse_addr (cli_address args @ '':'' @ to_decimal (unat (cli_port args))) of
        None \<Rightarrow> Panic
      | Some addr \<Rightarrow> combined metrics_ok mpc_ok)"

lemma run_servers_Ok:
  "run_servers binds parse_addr metrics_ok mpc_ok args = Ok () \<longleftrightarrow>
     binds (cli_address args) (metrics_port args) \<and>
     parse_addr (cli_address args @ '':'' @ to_decimal (unat (cli_port args))) \<noteq> None \<and> metrics_ok \<and> mpc_ok"
  by (simp add: run_servers_def combined_def split: option.split)

text \<open>
  An IPv6 address is displayed without brackets, and a socket address with two colons is parsed only
  with brackets: such an address makes \<open>main\<close> panic.
\<close>

lemma ipv6_address_panics:
  assumes "\<And>t. hd t \<noteq> CHR ''['' \<Longrightarrow> 2 \<le> length (filter (\<lambda>c. c = CHR '':'') t) \<Longrightarrow> parse_addr t = None"
    and "CHR '':'' \<in> set (cli_address args)" and "hd (cli_address args) \<noteq> CHR ''[''"
  shows "run_servers binds parse_addr metrics_ok mpc_ok args = Panic"
proof -
  have "cli_address args \<noteq> []" using assms(2) by auto
  moreover have "1 \<le> length (filter (\<lambda>c. c = CHR '':'') (cli_address args))"
    using assms(2) by (auto simp: Suc_le_eq filter_empty_conv)
  ultimately have "parse_addr (cli_address args @ '':'' @ to_decimal (unat (cli_port args))) = None"
    using assms(3) by (intro assms(1)) simp_all
  then show ?thesis by (simp add: run_servers_def)
qed

section \<open>The key tool\<close>

text \<open>
  \<open>main\<close> of \<open>src/secp256k1-id/src/main.rs\<close>, for the secret key that was drawn: the key pair is written
  to two files, each created or truncated; \<open>writable\<close> says which paths can be.
\<close>

definition key_tool_main ::
  "('sk, 'pk, 'sg) crypto \<Rightarrow> (string \<Rightarrow> bool) \<Rightarrow> 'sk \<Rightarrow> string \<Rightarrow> string \<Rightarrow>
   (string \<rightharpoonup> string) \<Rightarrow> (string \<rightharpoonup> string) \<times> unit result" where
  "key_tool_main C writable secret_key secret_key_path public_key_path files =
     (let public_key = pk_from_secret_key C secret_key in
      if \<not> writable secret_key_path then (files, Err ''io'')
      else
        let files = files(secret_key_path \<mapsto> hex_encode C (sk_serialize C secret_key)) in
        if \<not> writable public_key_path then (files, Err ''io'')
        else (files(public_key_path \<mapsto> hex_encode C (pk_serialize_compressed C public_key)), Ok ()))"

text \<open>
  The public key file holds the identity under which a server with that secret key is known to the
  others; the secret key can be read back, unless both paths are the same, when it is lost.
\<close>

lemma key_tool_identity:
  assumes "key_tool_main C writable sk spath ppath files = (files', Ok ())"
  shows "files' ppath = Some (identity_of C sk)"
    and "spath \<noteq> ppath \<Longrightarrow> files' spath = Some (hex_encode C (sk_serialize C sk))"
  using assms by (auto simp: key_tool_main_def Let_def identity_of_def split: if_splits)

section \<open>The broker\<close>

record broker_cli =
  bc_address :: string
  bc_port :: u16

text \<open>\<open>100.megabytes()\<close>, the limit that \<open>main\<close> sets for a text that is posted.\<close>

definition string_limit :: nat where
  "string_limit = 100 * 1000 * 1000"

text \<open>
  The routes that are mounted at \<open>/\<close>, for the paths as the client names them. \<open>Refused\<close> is an answer of
  Rocket itself: no route, a text over the limit, or bytes that are no text.
\<close>

datatype broker_reply = Streams subscription | Answers nat string | Refused

definition broker_serve :: "string option \<Rightarrow> http_request \<Rightarrow> broker \<Rightarrow> broker \<times> broker_reply" where
  "broker_serve header request db =
     (case request of
        Get path \<Rightarrow>
          if path = ''subscribe'' then
            (case subscribe header db of
               (db', Inr s) \<Rightarrow> (db', Streams s)
             | (db', Inl status) \<Rightarrow> (db', Answers status []))
          else if path = ''healthcheck'' then (db, Answers 200 healthcheck)
          else (db, Refused)
      | Post path body \<Rightarrow>
          if path = ''broadcast'' \<and> length body \<le> string_limit \<and> valid_utf8 body then
            (case broadcast body db of (db', status) \<Rightarrow> (db', Answers status []))
          else (db, Refused))"

text \<open>The requests of \<open>SmClient\<close> and of \<open>precheck\<close> are those that the broker has routes for.\<close>

lemma client_routes:
  "broker_serve header (sm_broadcast text) db =
     (if length text \<le> string_limit \<and> valid_utf8 text
      then (fst (broadcast text db), Answers 200 []) else (db, Refused))"
  "broker_serve None sm_subscribe db =
     (case get_room_or_create_empty ROOM_ID db of
        (db', a) \<Rightarrow> (case room_subscribe a None db' of (db'', s) \<Rightarrow> (db'', Streams s)))"
  "broker_serve header (Get ''healthcheck'') db = (db, Answers 200 ''OK'')"
  by (simp_all add: broker_serve_def sm_broadcast_def sm_subscribe_def subscribe_def last_event_id_def
      broadcast_def healthcheck_def split: prod.split)

lemma refused_keeps_broker: "broker_serve header request db = (db', Refused) \<Longrightarrow> db' = db"
  by (auto simp: broker_serve_def split: http_request.splits if_splits prod.splits sum.splits)

end
