(* ===== verification/Whole_Server.thy ===== *)
theory Whole_Server
  imports Server Node
begin

text \<open>
  One server as a whole: the gRPC service with its two channels and the database of results, the
  loop that hands requests over, the coordinator, and the players and signers that it starts, each
  with its mailbox. A step is one handler, one call of the service, or one message taken from a
  channel; the events name them, so that a run is a list of events.
\<close>

section \<open>Actors and their mailboxes\<close>

text \<open>
  An actor that was started, the number of messages it has taken from its mailbox, and the number of
  its own messages that the coordinator has handled. Mailboxes are queues: what the coordinator has
  delivered to an actor is read in order, what an actor has sent is handled in order.
\<close>

record 'p actor =
  ac_state :: 'p
  ac_read :: nat
  ac_sent :: nat

text \<open>The messages of the effects, by receiver, and the actors that were started.\<close>

definition responses ::
  "('lk, 'kg, 'mk, 'off, 'mo, 'cos, 'ps) effect list \<Rightarrow> check_result_response list" where
  "responses = List.map_filter (\<lambda>e. case e of Respond r \<Rightarrow> Some r | _ \<Rightarrow> None)"

definition outbox ::
  "('lk, 'kg, 'mk, 'off, 'mo, 'cos, 'ps) effect list \<Rightarrow> core_message list" where
  "outbox = List.map_filter (\<lambda>e. case e of Send_one m \<Rightarrow> Some m | _ \<Rightarrow> None)"

definition inbox_keygen ::
  "nat \<Rightarrow> ('lk, 'kg, 'mk, 'off, 'mo, 'cos, 'ps) effect list \<Rightarrow> 'mk msg incoming_message list" where
  "inbox_keygen a = List.map_filter
     (\<lambda>e. case e of Deliver_keygen b im \<Rightarrow> if b = a then Some im else None | _ \<Rightarrow> None)"

definition inbox_offline ::
  "nat \<Rightarrow> ('lk, 'kg, 'mk, 'off, 'mo, 'cos, 'ps) effect list \<Rightarrow> 'mo msg incoming_message list" where
  "inbox_offline a = List.map_filter
     (\<lambda>e. case e of Deliver_offline b im \<Rightarrow> if b = a then Some im else None | _ \<Rightarrow> None)"

definition inbox_signer ::
  "nat \<Rightarrow> ('lk, 'kg, 'mk, 'off, 'mo, 'cos, 'ps) effect list \<Rightarrow> 'ps msg incoming_message list" where
  "inbox_signer a = List.map_filter
     (\<lambda>e. case e of Deliver_signer b im \<Rightarrow> if b = a then Some im else None | _ \<Rightarrow> None)"

definition started_keygen ::
  "nat \<Rightarrow> ('lk, 'kg, 'mk, 'off, 'mo, 'cos, 'ps) effect list \<Rightarrow>
   (keygen_request, 'kg, 'mk msg, 'lk) player list" where
  "started_keygen a = List.map_filter
     (\<lambda>e. case e of Start_keygen b p \<Rightarrow> if b = a then Some p else None | _ \<Rightarrow> None)"

definition started_offline ::
  "nat \<Rightarrow> ('lk, 'kg, 'mk, 'off, 'mo, 'cos, 'ps) effect list \<Rightarrow>
   (enriched_sign_request, 'off, 'mo msg, 'cos) player list" where
  "started_offline a = List.map_filter
     (\<lambda>e. case e of Start_offline b p \<Rightarrow> if b = a then Some p else None | _ \<Rightarrow> None)"

definition started_signer ::
  "nat \<Rightarrow> ('lk, 'kg, 'mk, 'off, 'mo, 'cos, 'ps) effect list \<Rightarrow>
   (enriched_sign_request, 'cos, 'ps) signer list" where
  "started_signer a = List.map_filter
     (\<lambda>e. case e of Start_signer b s \<Rightarrow> if b = a then Some s else None | _ \<Rightarrow> None)"

section \<open>The state\<close>

text \<open>
  The service holds the sending ends of both channels; \<open>wh_taken\<close> and \<open>wh_stored\<close> count what the
  receiving ends have taken. \<open>wh_fired\<close> has the positions of the timers that have fired,
  \<open>wh_posted\<close> the positions in the outbox of the messages that were given to the sink, in this order.
  \<open>wh_lost\<close> is set when the sink has failed and with it lost its state. \<open>wh_stopped\<close> is set when the stream of
  the transport has ended: \<open>StreamHandler::finished\<close>, which the coordinator does not override, stops
  the actor.
\<close>

record ('db, 'sk, 'lk, 'kg, 'mk, 'off, 'mo, 'cos, 'ps) whole =
  wh_imp :: "'db mpc_imp"
  wh_node :: "('db, 'sk, 'lk, 'kg, 'mk, 'off, 'mo, 'cos, 'ps) coordinator"
  wh_taken :: nat
  wh_stored :: nat
  wh_fired :: "nat list"
  wh_posted :: "nat list"
  wh_lost :: bool
  wh_stopped :: bool
  wh_kg :: "nat \<Rightarrow> (keygen_request, 'kg, 'mk msg, 'lk) player actor option"
  wh_off :: "nat \<Rightarrow> (enriched_sign_request, 'off, 'mo msg, 'cos) player actor option"
  wh_sig :: "nat \<Rightarrow> (enriched_sign_request, 'cos, 'ps) signer actor option"

text \<open>The state after \<open>main\<close> has started its tasks, with the databases it opened.\<close>

definition whole_new ::
  "('db, 'sk, 'pk, 'sg, 'lk, 'x) env_scheme \<Rightarrow> 'sk \<Rightarrow> 'db \<Rightarrow> 'db \<Rightarrow>
   ('db, 'sk, 'lk, 'kg, 'mk, 'off, 'mo, 'cos, 'ps) whole" where
  "whole_new E sk local_shares results =
     \<lparr>wh_imp = mpc_imp_new results, wh_node = coordinator_new E sk local_shares,
      wh_taken = 0, wh_stored = 0, wh_fired = [], wh_posted = [], wh_lost = False, wh_stopped = False,
      wh_kg = Map.empty, wh_off = Map.empty, wh_sig = Map.empty\<rparr>"

text \<open>The libraries that run the rounds of the protocols.\<close>

record ('lk, 'kg, 'mk, 'off, 'mo, 'cos, 'man, 'ps) machines =
  mc_keygen :: "('kg, 'mk, 'lk) sm_api"
  mc_offline :: "('off, 'mo, 'cos) sm_api"
  mc_sign :: "('cos, 'man, 'ps) sign_api"

section \<open>Steps\<close>

text \<open>
  The coordinator runs a handler: what it reports goes into the channel of the responses, whose
  sending end it shares with the service. A panic ends it: there is no next state; and a stopped
  coordinator runs no handler.
\<close>

definition node_moves ::
  "('db, 'sk, 'lk, 'kg, 'mk, 'off, 'mo, 'cos, 'ps) coordinator \<times> unit result \<Rightarrow>
   ('db, 'sk, 'lk, 'kg, 'mk, 'off, 'mo, 'cos, 'ps) whole \<Rightarrow>
   ('db, 'sk, 'lk, 'kg, 'mk, 'off, 'mo, 'cos, 'ps) whole option" where
  "node_moves r s =
     (if wh_stopped s then None else
      case r of
        (c, Ok _) \<Rightarrow>
          Some (s\<lparr>wh_node := c,
                  wh_imp := fold tx_res_send
                    (responses (drop (length (co_out (wh_node s))) (co_out c))) (wh_imp s)\<rparr>)
      | _ \<Rightarrow> None)"

text \<open>What the coordinator does with a message of a player or a signer.\<close>

fun react_keygen ::
  "('db, 'sk, 'pk, 'sg, 'lk, 'kg, 'mk, 'off, 'mo, 'ps) cenv \<Rightarrow> nat \<Rightarrow>
   (keygen_request, 'mk msg, 'lk) player_out \<Rightarrow>
   ('db, 'sk, 'lk, 'kg, 'mk, 'off, 'mo, 'cos, 'ps) coordinator \<Rightarrow>
   ('db, 'sk, 'lk, 'kg, 'mk, 'off, 'mo, 'cos, 'ps) coordinator \<times> unit result" where
  "react_keygen E now (To_coordinator e) c = (handle_protocol_error now e c, Ok ())"
| "react_keygen E now (To_broker m) c = handle_coordinator_message E now m c"
| "react_keygen E now (To_collector out) c = handle_output_keygen E out c"
| "react_keygen E now Notify_maybe_proceed c = (c, Ok ())"
| "react_keygen E now (Later_maybe_proceed ms) c = (c, Ok ())"

fun react_offline ::
  "('db, 'sk, 'pk, 'sg, 'lk, 'kg, 'mk, 'off, 'mo, 'ps) cenv \<Rightarrow> nat \<Rightarrow>
   (enriched_sign_request, 'mo msg, 'cos) player_out \<Rightarrow>
   ('db, 'sk, 'lk, 'kg, 'mk, 'off, 'mo, 'cos, 'ps) coordinator \<Rightarrow>
   ('db, 'sk, 'lk, 'kg, 'mk, 'off, 'mo, 'cos, 'ps) coordinator \<times> unit result" where
  "react_offline E now (To_coordinator e) c = (handle_protocol_error now e c, Ok ())"
| "react_offline E now (To_broker m) c = handle_coordinator_message E now m c"
| "react_offline E now (To_collector out) c = (handle_output_offline E out c, Ok ())"
| "react_offline E now Notify_maybe_proceed c = (c, Ok ())"
| "react_offline E now (Later_maybe_proceed ms) c = (c, Ok ())"

fun react_signer ::
  "('db, 'sk, 'pk, 'sg, 'lk, 'kg, 'mk, 'off, 'mo, 'ps) cenv \<Rightarrow> nat \<Rightarrow>
   enriched_sign_request signer_out \<Rightarrow>
   ('db, 'sk, 'lk, 'kg, 'mk, 'off, 'mo, 'cos, 'ps) coordinator \<Rightarrow>
   ('db, 'sk, 'lk, 'kg, 'mk, 'off, 'mo, 'cos, 'ps) coordinator \<times> unit result" where
  "react_signer E now (Signer_outgoing m) c = handle_coordinator_message E now (Outgoing m) c"
| "react_signer E now (Signer_result out) c = (handle_output_sign E out c, Ok ())"

text \<open>An actor takes a message, is polled, or has one of its messages handled.\<close>

definition takes_message :: "('m \<Rightarrow> 'p \<Rightarrow> 'p) \<Rightarrow> 'm list \<Rightarrow> 'p actor \<Rightarrow> 'p actor option" where
  "takes_message handler mailbox ac =
     (if ac_read ac < length mailbox
      then Some (ac\<lparr>ac_state := handler (mailbox ! ac_read ac) (ac_state ac), ac_read := ac_read ac + 1\<rparr>)
      else None)"

definition handled :: "'p actor \<Rightarrow> 'p actor" where
  "handled ac = ac\<lparr>ac_sent := ac_sent ac + 1\<rparr>"

datatype whole_event =
    Call_keygen keygen_request | Call_sign sign_request | Store
  | Take nat | Arrive string nat | Stream_ends | Fire nat nat | Post nat bool
  | Begin_keygen nat | Read_keygen nat nat | Poll_keygen nat nat | Emit_keygen nat nat
  | Begin_offline nat | Read_offline nat nat | Poll_offline nat nat | Emit_offline nat nat
  | Begin_signer nat | Read_signer nat | Emit_signer nat nat

text \<open>
  What \<open>sink.send\<close> returns, as far as \<open>send_one\<close> can tell: a panic when the sink has lost its state, and
  otherwise what the network makes of it.
\<close>

definition sink_result :: "bool \<Rightarrow> bool \<Rightarrow> core_message \<Rightarrow> unit result" where
  "sink_result lost ok envelope = (if lost then Panic else if ok then Ok () else Err ''send'')"

text \<open>
  The numbers of the events are the address of an actor, the position of a timer or of a message to be
  sent, and the time. The tasks of \<open>send_one\<close> take the sink in any order, one at a time.
  \<open>None\<close> is an event that cannot happen in the state, or a panic. The loop of \<open>use_messenger\<close> and
  \<open>use_redis\<close> goes on when the coordinator has stopped: \<open>do_send\<close> drops what it takes.
\<close>

fun whole_step ::
  "('db, 'sk, 'pk, 'sg, 'lk, 'kg, 'mk, 'off, 'mo, 'ps) cenv \<Rightarrow>
   ('lk, 'kg, 'mk, 'off, 'mo, 'cos, 'man, 'ps) machines \<Rightarrow> whole_event \<Rightarrow>
   ('db, 'sk, 'lk, 'kg, 'mk, 'off, 'mo, 'cos, 'ps) whole \<Rightarrow>
   ('db, 'sk, 'lk, 'kg, 'mk, 'off, 'mo, 'cos, 'ps) whole option" where
  "whole_step E M (Call_keygen req) s = Some (s\<lparr>wh_imp := fst (keygen E req (wh_imp s))\<rparr>)"
| "whole_step E M (Call_sign req) s = Some (s\<lparr>wh_imp := fst (sign E req (wh_imp s))\<rparr>)"
| "whole_step E M Store s =
     (if wh_stored s < length (mi_tx_res (wh_imp s))
      then Some (s\<lparr>wh_stored := wh_stored s + 1,
             wh_imp := (wh_imp s)\<lparr>mi_results_db := fst (save_result E (mi_results_db (wh_imp s))
               (mi_tx_res (wh_imp s) ! wh_stored s))\<rparr>\<rparr>)
      else None)"
| "whole_step E M (Take now) s =
     (if wh_taken s < length (mi_tx (wh_imp s))
      then if wh_stopped s then Some (s\<lparr>wh_taken := wh_taken s + 1\<rparr>)
           else node_moves (handle_coordinator_message E now
             (snd (handle (mi_tx (wh_imp s) ! wh_taken s))) (wh_node s)) (s\<lparr>wh_taken := wh_taken s + 1\<rparr>)
      else None)"
| "whole_step E M Stream_ends s = Some (s\<lparr>wh_stopped := True\<rparr>)"
| "whole_step E M (Arrive raw now) s =
     (case incoming_filter E (co_pk_str (wh_node s)) [Ok raw] of
        [] \<Rightarrow> if wh_stopped s then None else Some s
      | r # _ \<Rightarrow> node_moves (stream_handle E now r (wh_node s)) s)"
| "whole_step E M (Fire i now) s =
     (if i < length (co_out (wh_node s)) \<and> i \<notin> set (wh_fired s)
      then (case co_out (wh_node s) ! i of
              Run_later d m \<Rightarrow> node_moves (handle_coordinator_message E now m (wh_node s))
                (s\<lparr>wh_fired := i # wh_fired s\<rparr>)
            | _ \<Rightarrow> None)
      else None)"
| "whole_step E M (Post p ok) s =
     (if p < length (outbox (co_out (wh_node s))) \<and> p \<notin> set (wh_posted s)
      then node_moves (send_one (sink_result (wh_lost s) ok) (outbox (co_out (wh_node s)) ! p) (wh_node s))
             (s\<lparr>wh_posted := wh_posted s @ [p], wh_lost := \<not> ok\<rparr>)
      else None)"
| "whole_step E M (Begin_keygen a) s =
     (case (wh_kg s a, started_keygen a (co_out (wh_node s))) of
        (None, p # _) \<Rightarrow> Some (s\<lparr>wh_kg := (wh_kg s)(a \<mapsto>
          \<lparr>ac_state = player_started p, ac_read = 0, ac_sent = 0\<rparr>)\<rparr>)
      | _ \<Rightarrow> None)"
| "whole_step E M (Read_keygen a now) s =
     Option.bind (wh_kg s a) (\<lambda>ac.
     map_option (\<lambda>ac'. s\<lparr>wh_kg := (wh_kg s)(a \<mapsto> ac')\<rparr>)
       (takes_message (player_handle_message (mc_keygen M) now)
         (inbox_keygen a (co_out (wh_node s))) ac))"
| "whole_step E M (Poll_keygen a now) s =
     map_option (\<lambda>ac. s\<lparr>wh_kg := (wh_kg s)(a \<mapsto>
         ac\<lparr>ac_state := player_handle_maybe_proceed (mc_keygen M) now (ac_state ac)\<rparr>)\<rparr>) (wh_kg s a)"
| "whole_step E M (Emit_keygen a now) s =
     Option.bind (wh_kg s a) (\<lambda>ac.
       if ac_sent ac < length (pl_out (ac_state ac))
       then node_moves (react_keygen E now (pl_out (ac_state ac) ! ac_sent ac) (wh_node s))
              (s\<lparr>wh_kg := (wh_kg s)(a \<mapsto> handled ac)\<rparr>)
       else None)"
| "whole_step E M (Begin_offline a) s =
     (case (wh_off s a, started_offline a (co_out (wh_node s))) of
        (None, p # _) \<Rightarrow> Some (s\<lparr>wh_off := (wh_off s)(a \<mapsto>
          \<lparr>ac_state = player_started p, ac_read = 0, ac_sent = 0\<rparr>)\<rparr>)
      | _ \<Rightarrow> None)"
| "whole_step E M (Read_offline a now) s =
     Option.bind (wh_off s a) (\<lambda>ac.
     map_option (\<lambda>ac'. s\<lparr>wh_off := (wh_off s)(a \<mapsto> ac')\<rparr>)
       (takes_message (player_handle_message (mc_offline M) now)
         (inbox_offline a (co_out (wh_node s))) ac))"
| "whole_step E M (Poll_offline a now) s =
     map_option (\<lambda>ac. s\<lparr>wh_off := (wh_off s)(a \<mapsto>
         ac\<lparr>ac_state := player_handle_maybe_proceed (mc_offline M) now (ac_state ac)\<rparr>)\<rparr>) (wh_off s a)"
| "whole_step E M (Emit_offline a now) s =
     Option.bind (wh_off s a) (\<lambda>ac.
       if ac_sent ac < length (pl_out (ac_state ac))
       then node_moves (react_offline E now (pl_out (ac_state ac) ! ac_sent ac) (wh_node s))
              (s\<lparr>wh_off := (wh_off s)(a \<mapsto> handled ac)\<rparr>)
       else None)"
| "whole_step E M (Begin_signer a) s =
     (case (wh_sig s a, started_signer a (co_out (wh_node s))) of
        (None, g # _) \<Rightarrow> Some (s\<lparr>wh_sig := (wh_sig s)(a \<mapsto>
          \<lparr>ac_state = signer_started (mc_sign M) g, ac_read = 0, ac_sent = 0\<rparr>)\<rparr>)
      | _ \<Rightarrow> None)"
| "whole_step E M (Read_signer a) s =
     Option.bind (wh_sig s a) (\<lambda>ac.
     map_option (\<lambda>ac'. s\<lparr>wh_sig := (wh_sig s)(a \<mapsto> ac')\<rparr>)
       (takes_message (signer_handle (mc_sign M)) (inbox_signer a (co_out (wh_node s))) ac))"
| "whole_step E M (Emit_signer a now) s =
     Option.bind (wh_sig s a) (\<lambda>ac.
       if ac_sent ac < length (sn_out (ac_state ac))
       then node_moves (react_signer E now (sn_out (ac_state ac) ! ac_sent ac) (wh_node s))
              (s\<lparr>wh_sig := (wh_sig s)(a \<mapsto> handled ac)\<rparr>)
       else None)"

fun whole_run ::
  "('db, 'sk, 'pk, 'sg, 'lk, 'kg, 'mk, 'off, 'mo, 'ps) cenv \<Rightarrow>
   ('lk, 'kg, 'mk, 'off, 'mo, 'cos, 'man, 'ps) machines \<Rightarrow> whole_event list \<Rightarrow>
   ('db, 'sk, 'lk, 'kg, 'mk, 'off, 'mo, 'cos, 'ps) whole \<Rightarrow>
   ('db, 'sk, 'lk, 'kg, 'mk, 'off, 'mo, 'cos, 'ps) whole option" where
  "whole_run E M [] s = Some s"
| "whole_run E M (e # es) s = Option.bind (whole_step E M e s) (whole_run E M es)"

inductive whole_reachable ::
  "('db, 'sk, 'pk, 'sg, 'lk, 'kg, 'mk, 'off, 'mo, 'ps) cenv \<Rightarrow>
   ('lk, 'kg, 'mk, 'off, 'mo, 'cos, 'man, 'ps) machines \<Rightarrow> 'sk \<Rightarrow> 'db \<Rightarrow> 'db \<Rightarrow>
   ('db, 'sk, 'lk, 'kg, 'mk, 'off, 'mo, 'cos, 'ps) whole \<Rightarrow> bool"
  for E M sk shares results where
  begin_whole: "whole_reachable E M sk shares results (whole_new E sk shares results)"
| continue_whole:
  "whole_reachable E M sk shares results s \<Longrightarrow> whole_step E M e s = Some s' \<Longrightarrow>
   whole_reachable E M sk shares results s'"

lemma whole_reachable_run:
  "whole_reachable E M sk shares results s \<Longrightarrow> whole_run E M es s = Some s' \<Longrightarrow>
   whole_reachable E M sk shares results s'"
  by (induction es arbitrary: s) (auto simp: bind_eq_Some_conv intro: continue_whole)

lemma whole_run_append:
  "whole_run E M (es @ fs) s = Option.bind (whole_run E M es s) (whole_run E M fs)"
  by (induction es arbitrary: s) (auto split: bind_split)

end
