(* ===== verification/Whole_Facts.thy ===== *)
theory Whole_Facts
  imports Whole_Server
begin

text \<open>
  Lemmas about the runs of a whole server: what each handler of the coordinator adds to its effects,
  that every run of the whole is a run of the node in the sense of \<open>Node\<close>, how the actors are linked
  to the coordinator that started them, and where a request is at each moment.
\<close>

section \<open>What the handlers add\<close>

fun is_request :: "coordinator_message \<Rightarrow> bool" where
  "is_request (KeygenRequest r) = True"
| "is_request (SignRequest r) = True"
| "is_request _ = False"

text \<open>
  The effects of the handlers of messages: neither a response nor a new actor, and no request is
  set aside for later.
\<close>

fun quiet :: "('lk, 'kg, 'mk, 'off, 'mo, 'cos, 'ps) effect \<Rightarrow> bool" where
  "quiet (Respond r) = False"
| "quiet (Start_keygen a p) = False"
| "quiet (Start_offline a p) = False"
| "quiet (Start_signer a s) = False"
| "quiet (Run_later d m) = (\<not> is_request m)"
| "quiet _ = True"

definition quietly ::
  "('db, 'sk, 'lk, 'kg, 'mk, 'off, 'mo, 'cos, 'ps) coordinator \<Rightarrow>
   ('db, 'sk, 'lk, 'kg, 'mk, 'off, 'mo, 'cos, 'ps) coordinator \<Rightarrow> bool" where
  "quietly c c' \<longleftrightarrow> (\<exists>es. c' = emit es c \<and> list_all quiet es)"

lemma quietly_emit [simp, intro]: "list_all quiet es \<Longrightarrow> quietly c (emit es c)"
  by (auto simp: quietly_def)

lemma quietly_refl [simp]: "quietly c c"
  using quietly_emit [of "[]" c] by simp

lemma quietly_trans: "quietly c d \<Longrightarrow> quietly d e \<Longrightarrow> quietly c e"
  by (auto simp: quietly_def)

lemma quiet_deliveries [simp]: "list_all quiet (deliveries E w c)"
  by (simp add: deliveries_def split: option.splits)

lemma quietly_retry [simp]: "quietly c (retry m c)"
  by (simp add: retry_eq_emit)

lemma quietly_unsafe [simp]: "quietly c (handle_incoming_unsafe E w ts a c)"
  by (simp add: handle_incoming_unsafe_eq)

lemma quietly_from_emit:
  "list_all quiet es \<Longrightarrow> quietly c (retry m (emit es c))"
  "list_all quiet es \<Longrightarrow> quietly c (handle_incoming_unsafe E w ts a (emit es c))"
  using quietly_trans quietly_emit quietly_retry quietly_unsafe by blast+

lemma quietly_incoming: "quietly c (fst (handle_incoming E now w c))"
  by (cases "str_range (co_pk_str c) 2 10")
    (simp_all add: handle_incoming_def Let_def quietly_from_emit
      split: outcome.splits coordinator_error.splits)

lemma quietly_handle_retry: "quietly c (fst (handle_retry E m c))"
  by (simp add: handle_retry_def split: outcome.splits)

lemma quietly_message:
  "\<not> is_request m \<Longrightarrow> quietly c (fst (handle_coordinator_message E now m c))"
  by (cases m) (simp_all add: quietly_incoming quietly_handle_retry split: outcome.splits)

lemma quietly_stream: "quietly c (fst (stream_handle E now r c))"
  by (simp add: stream_handle_def quietly_incoming split: outcome.split)

lemma quietly_protocol_error: "quietly c (handle_protocol_error now e c)"
  by (simp add: handle_protocol_error_def split: sm_error.split)

text \<open>A request handler that does not panic: nothing more than its own status and one actor.\<close>

lemma keygen_request_adds:
  assumes "handle_coordinator_message E now (KeygenRequest req) c = (c', Ok ())"
  shows "\<exists>es. co_out c' = co_out c @ [Inc REQUESTS_KEYGEN_HANDLED,
      Respond (mk_response (kr_request_id req) [] Keygen_type Processing)] @ es \<and>
    (es = [] \<or> (\<exists>room i sm. es = [Start_keygen (co_next_addr c) (player_new req room i sm)] \<and>
       push_prefixes (kr_participant_public_keys req) [] \<noteq> None))"
proof -
  have "\<exists>h. handle_keygen_request E req c = (c', h) \<and> h \<noteq> Panic"
    using assms by (auto simp: ignore_result_def split: prod.splits outcome.splits)
  then show ?thesis
    by (force simp: handle_keygen_request_eq Let_def group_new_def split: option.splits)
qed

lemma sign_request_adds:
  assumes "handle_coordinator_message E now (SignRequest req) c = (c', Ok ())"
  shows "\<exists>es. co_out c' = co_out c @ [Inc REQUESTS_SIGN_HANDLED] @ es \<and>
    (es = [] \<or> es = [Respond (mk_response (sr_request_id req) [] Sign_type Processing)] \<or>
     (\<exists>input room i sm. es_inner input = req \<and>
        es = [Respond (mk_response (sr_request_id req) [] Sign_type Processing),
              Start_offline (co_next_addr c) (player_new input room i sm)]))"
proof -
  obtain h where h: "handle_sign_request E req c = (c', h)" "h \<noteq> Panic"
    using assms by (auto simp: ignore_result_def split: prod.splits outcome.splits)
  show ?thesis
  proof (cases "retrieve_share E (co_sk c) (co_db c) (sr_public_key req)")
    case (Ok ls)
    let ?t = "env_lk_t E (sls_share ls)"
    obtain g where g: "group_new (sls_public_keys ls) ?t (co_pk_str c) = Some g"
      using h by (cases "group_new (sls_public_keys ls) ?t (co_pk_str c)")
        (auto simp: handle_sign_request_eq [OF Ok refl])
    obtain sub where sub: "group_new (sr_participant_public_keys req) ?t (co_pk_str c) = Some sub"
      using h g by (cases "group_new (sr_participant_public_keys req) ?t (co_pk_str c)")
        (auto simp: handle_sign_request_eq [OF Ok refl])
    show ?thesis
      using h unfolding handle_sign_request_eq [OF Ok refl] g sub
      by (cases "participant_indices g ?t (sr_participant_public_keys req)"; cases "get_i g"; cases "get_i sub")
        (force simp: Let_def sign_subgroup_saved_def respond_def split: option.splits)+
  next
    case (Err e)
    with h show ?thesis by (auto simp: handle_sign_request_no_share)
  next
    case Panic
    with h show ?thesis by (auto simp: handle_sign_request_def Let_def)
  qed
qed

lemma output_keygen_adds:
  assumes "handle_output_keygen E msg c = (c', Ok ())"
  shows "\<exists>key. co_out c' = co_out c @ [Inc REQUESTS_KEYGEN_DONE,
    Respond (mk_response (kr_request_id (po_input msg)) key Keygen_type Done)]"
proof (cases "group_new (kr_participant_public_keys (po_input msg)) (ucast (kr_threshold (po_input msg)))
    (co_pk_str c)")
  case None
  with assms show ?thesis by (simp add: handle_output_keygen_Panic)
next
  case (Some g)
  from assms show ?thesis by (auto simp: handle_output_keygen_eq [OF Some])
qed

lemma output_offline_adds:
  "\<exists>es. co_out (handle_output_offline E msg c) = co_out c @ [Inc REQUESTS_OFFLINE_DONE] @ es \<and>
    (es = [Respond (mk_response (sr_request_id (es_inner (po_input msg))) [] Sign_type Error)] \<or>
     (\<exists>task. es = [Start_signer (co_next_addr c) (signer_new (po_input msg) task),
        Respond (mk_response (sr_request_id (es_inner (po_input msg))) [] Sign_type Processing)]))"
  by (auto simp: handle_output_offline_eq Let_def split: option.split)

lemma output_sign_adds:
  "\<exists>sig. co_out (handle_output_sign E msg c) = co_out c @ [Inc REQUESTS_SIGN_DONE,
    Respond (mk_response (sr_request_id (es_inner (po_input msg))) sig Sign_type Done)]"
  by (auto simp: handle_output_sign_eq)

section \<open>Every handler only adds\<close>

text \<open>An actor is started with nothing sent, and for a key generation whose keys make a group id.\<close>

fun newborn :: "('lk, 'kg, 'mk, 'off, 'mo, 'cos, 'ps) effect \<Rightarrow> bool" where
  "newborn (Start_keygen a p) =
     (pl_out p = [] \<and> push_prefixes (kr_participant_public_keys (pl_input p)) [] \<noteq> None)"
| "newborn (Start_offline a p) = (pl_out p = [])"
| "newborn (Start_signer a s) = (sn_out s = [] \<and> sn_partial_sigs s = [])"
| "newborn (Run_later d m) = (\<not> is_request m)"
| "newborn _ = True"

lemma quiet_newborn: "quiet e \<Longrightarrow> newborn e"
  by (cases e) simp_all

lemma new_out [simp]:
  "pl_out (player_new input room i sm) = []" "pl_input (player_new input room i sm) = input"
  "sn_out (signer_new input' task) = []" "sn_partial_sigs (signer_new input' task) = []"
  by (simp_all add: player_new_def signer_new_def)

definition adds ::
  "('db, 'sk, 'lk, 'kg, 'mk, 'off, 'mo, 'cos, 'ps) coordinator \<Rightarrow>
   ('db, 'sk, 'lk, 'kg, 'mk, 'off, 'mo, 'cos, 'ps) coordinator \<Rightarrow> bool" where
  "adds c c' \<longleftrightarrow> (\<exists>es. co_out c' = co_out c @ es \<and> list_all newborn es)"

lemma addsI: "co_out c' = co_out c @ es \<Longrightarrow> list_all newborn es \<Longrightarrow> adds c c'"
  by (auto simp: adds_def)

lemma quietly_adds: "quietly c c' \<Longrightarrow> adds c c'"
  by (auto simp: quietly_def adds_def list_all_iff quiet_newborn)

lemma adds_request:
  assumes "handle_coordinator_message E now m c = (c', Ok ())" shows "adds c c'"
proof (cases m)
  case (KeygenRequest req)
  from keygen_request_adds [OF assms [unfolded this]] show ?thesis
    by (auto intro!: addsI)
next
  case (SignRequest req)
  from sign_request_adds [OF assms [unfolded this]] show ?thesis
    by (auto intro!: addsI)
qed (use quietly_message [of m c E now] assms in \<open>simp_all add: quietly_adds\<close>)

lemma node_step_adds:
  assumes "node_step E admit c c'" shows "adds c c'"
  using assms
proof cases
  case (stream r raw now)
  then show ?thesis using quietly_stream [of c E now r] by (simp add: quietly_adds)
next
  case (output_keygen a p lk)
  from output_keygen_adds [OF output_keygen(2)] show ?thesis by (auto intro!: addsI)
next
  case (output_offline a p cos)
  from output_offline_adds [of E "\<lparr>po_input = pl_input p, po_output = cos\<rparr>" c] show ?thesis
    unfolding output_offline(1) by (auto intro!: addsI)
next
  case (output_sign a s sg)
  from output_sign_adds [of E "\<lparr>po_input = sn_input s, po_output = sg\<rparr>" c] show ?thesis
    unfolding output_sign(1) by (auto intro!: addsI)
next
  case sent
  then show ?thesis by (intro addsI [of c' c "[]"]) (simp_all add: send_one_Ok)
qed (auto simp del: handle_coordinator_message.simps
    intro: adds_request quietly_adds quietly_protocol_error)

section \<open>Mailboxes\<close>

lemma map_filter_member: "y \<in> set (List.map_filter f xs) \<longleftrightarrow> (\<exists>x \<in> set xs. f x = Some y)"
  by (force simp: List.map_filter_def)

text \<open>What each mailbox picks out of the effects.\<close>

lemma picks:
  "(case e of Deliver_keygen b im \<Rightarrow> if b = a then Some im else None | _ \<Rightarrow> None) = Some x1 \<longleftrightarrow>
     e = Deliver_keygen a x1"
  "(case e of Deliver_offline b im \<Rightarrow> if b = a then Some im else None | _ \<Rightarrow> None) = Some x2 \<longleftrightarrow>
     e = Deliver_offline a x2"
  "(case e of Deliver_signer b im \<Rightarrow> if b = a then Some im else None | _ \<Rightarrow> None) = Some x3 \<longleftrightarrow>
     e = Deliver_signer a x3"
  "(case e of Start_keygen b p \<Rightarrow> if b = a then Some p else None | _ \<Rightarrow> None) = Some x4 \<longleftrightarrow>
     e = Start_keygen a x4"
  "(case e of Start_offline b p \<Rightarrow> if b = a then Some p else None | _ \<Rightarrow> None) = Some x5 \<longleftrightarrow>
     e = Start_offline a x5"
  "(case e of Start_signer b g \<Rightarrow> if b = a then Some g else None | _ \<Rightarrow> None) = Some x6 \<longleftrightarrow>
     e = Start_signer a x6"
  "(case e of Respond r \<Rightarrow> Some r | _ \<Rightarrow> None) = Some x7 \<longleftrightarrow> e = Respond x7"
  "(case e of Send_one m \<Rightarrow> Some m | _ \<Rightarrow> None) = Some x8 \<longleftrightarrow> e = Send_one x8"
  by (cases e; auto)+

lemma mailbox_member [simp]:
  "im \<in> set (inbox_keygen a out) \<longleftrightarrow> Deliver_keygen a im \<in> set out"
  "im' \<in> set (inbox_offline a out) \<longleftrightarrow> Deliver_offline a im' \<in> set out"
  "im'' \<in> set (inbox_signer a out) \<longleftrightarrow> Deliver_signer a im'' \<in> set out"
  "p \<in> set (started_keygen a out) \<longleftrightarrow> Start_keygen a p \<in> set out"
  "p' \<in> set (started_offline a out) \<longleftrightarrow> Start_offline a p' \<in> set out"
  "g \<in> set (started_signer a out) \<longleftrightarrow> Start_signer a g \<in> set out"
  "r \<in> set (responses out) \<longleftrightarrow> Respond r \<in> set out"
  "m \<in> set (outbox out) \<longleftrightarrow> Send_one m \<in> set out"
  unfolding inbox_keygen_def inbox_offline_def inbox_signer_def started_keygen_def
    started_offline_def started_signer_def responses_def outbox_def map_filter_member picks
  by simp_all

lemma mailbox_append [simp]:
  "inbox_keygen a (xs @ ys) = inbox_keygen a xs @ inbox_keygen a ys"
  "inbox_offline a (xs @ ys) = inbox_offline a xs @ inbox_offline a ys"
  "inbox_signer a (xs @ ys) = inbox_signer a xs @ inbox_signer a ys"
  "started_keygen a (xs @ ys) = started_keygen a xs @ started_keygen a ys"
  "started_offline a (xs @ ys) = started_offline a xs @ started_offline a ys"
  "started_signer a (xs @ ys) = started_signer a xs @ started_signer a ys"
  "responses (xs @ ys) = responses xs @ responses ys"
  "outbox (xs @ ys) = outbox xs @ outbox ys"
  by (simp_all add: inbox_keygen_def inbox_offline_def inbox_signer_def started_keygen_def
      started_offline_def started_signer_def responses_def outbox_def map_filter_append)

section \<open>Players and signers stay linked to their origin\<close>

definition player_linked ::
  "'m msg incoming_message list \<Rightarrow> ('i, 'sm, 'm msg, 'o) player \<Rightarrow> ('i, 'sm, 'm msg, 'o) player \<Rightarrow> bool" where
  "player_linked mailbox p q \<longleftrightarrow> player_frame p q \<and> player_inv q \<and>
     (\<forall>err. To_coordinator err \<in> set (pl_out q) \<longrightarrow> pe_message err \<in> set mailbox)"

lemma player_linked_append: "player_linked mb p q \<Longrightarrow> player_linked (mb @ mb') p q"
  by (auto simp: player_linked_def)

lemma player_linked_started: "pl_out p = [] \<Longrightarrow> player_linked mb p (player_started p)"
  by (simp add: player_linked_def player_frame_def player_inv_def player_started_def)

lemma no_errors_out [simp]:
  "To_coordinator err \<notin> set (queue_out SM room s)"
  "To_coordinator err \<notin> set (result_out input r)"
  "To_coordinator err \<notin> set (proceed_out SM input room s)"
  by (auto simp: queue_out_def result_out_def proceed_out_def split: option.splits prod.splits sum.splits)

lemma error_out_message: "To_coordinator err \<in> set (error_out room msg r) \<Longrightarrow> pe_message err = msg"
  by (auto simp: error_out_def split: sum.splits)

lemma player_linked_message:
  assumes l: "player_linked mb p q" and m: "msg \<in> set mb"
  shows "player_linked mb p (player_handle_message SM now msg q)"
proof (cases "accepts (pl_index q) (im_message msg)")
  case True
  have "player_frame p (player_handle_message SM now msg q)"
    using l by (simp add: player_linked_def player_frame_def player_handle_message_simps)
  moreover have "player_inv (player_handle_message SM now msg q)"
    using l player_step_inv [of q SM "Arrived msg now"] by (simp add: player_linked_def)
  moreover have "pe_message err \<in> set mb"
    if "To_coordinator err \<in> set (pl_out (player_handle_message SM now msg q))" for err
    using that l m by (auto simp: player_handle_message_out [OF True refl] player_linked_def
        dest: error_out_message)
  ultimately show ?thesis by (simp add: player_linked_def)
next
  case False
  with l show ?thesis by (simp add: player_handle_message_ignored)
qed

lemma player_linked_poll:
  assumes l: "player_linked mb p q"
  shows "player_linked mb p (player_handle_maybe_proceed SM now q)"
  using l player_step_inv [of q SM "Polled now"]
  by (auto simp: player_linked_def player_frame_def player_handle_maybe_proceed_simps)

definition signer_linked :: "('i, 'cos, 'ps) signer \<Rightarrow> ('i, 'cos, 'ps) signer \<Rightarrow> bool" where
  "signer_linked g q \<longleftrightarrow> sn_input q = sn_input g \<and> sn_task q = sn_task g \<and>
     (\<forall>out. Signer_result out \<in> set (sn_out q) \<longrightarrow> po_input out = sn_input g)"

lemma signer_linked_started: "sn_out g = [] \<Longrightarrow> signer_linked g (signer_started SA g)"
  by (auto simp: signer_linked_def signer_started_def send_my_partial_signature_def
      split: option.splits prod.splits)

lemma signer_linked_message: "signer_linked g q \<Longrightarrow> signer_linked g (signer_handle SA msg q)"
  by (auto simp: signer_linked_def signer_handle_def signer_finish_if_possible_def
      split: option.splits prod.splits)

section \<open>A run of the whole is a run of the node\<close>

lemma node_moves_Some:
  "node_moves r s = Some s' \<longleftrightarrow> \<not> wh_stopped s \<and>
     (\<exists>c. r = (c, Ok ()) \<and> s' = s\<lparr>wh_node := c,
        wh_imp := fold tx_res_send (responses (drop (length (co_out (wh_node s))) (co_out c))) (wh_imp s)\<rparr>)"
  by (auto simp: node_moves_def split: prod.splits outcome.splits)

definition linked ::
  "('db, 'sk, 'lk, 'kg, 'mk, 'off, 'mo, 'cos, 'ps) whole \<Rightarrow> bool" where
  "linked s \<longleftrightarrow> list_all newborn (co_out (wh_node s)) \<and>
     (\<forall>a ac. wh_kg s a = Some ac \<longrightarrow> (\<exists>p. Start_keygen a p \<in> set (co_out (wh_node s)) \<and>
        player_linked (inbox_keygen a (co_out (wh_node s))) p (ac_state ac))) \<and>
     (\<forall>a ac. wh_off s a = Some ac \<longrightarrow> (\<exists>p. Start_offline a p \<in> set (co_out (wh_node s)) \<and>
        player_linked (inbox_offline a (co_out (wh_node s))) p (ac_state ac))) \<and>
     (\<forall>a ac. wh_sig s a = Some ac \<longrightarrow> (\<exists>g. Start_signer a g \<in> set (co_out (wh_node s)) \<and>
        signer_linked g (ac_state ac)))"

lemma linkedD:
  assumes "linked s"
  shows "list_all newborn (co_out (wh_node s))"
    and "wh_kg s a = Some ac \<Longrightarrow> \<exists>p. Start_keygen a p \<in> set (co_out (wh_node s)) \<and>
      player_linked (inbox_keygen a (co_out (wh_node s))) p (ac_state ac)"
    and "wh_off s a = Some ac' \<Longrightarrow> \<exists>p. Start_offline a p \<in> set (co_out (wh_node s)) \<and>
      player_linked (inbox_offline a (co_out (wh_node s))) p (ac_state ac')"
    and "wh_sig s a = Some ac'' \<Longrightarrow> \<exists>g. Start_signer a g \<in> set (co_out (wh_node s)) \<and>
      signer_linked g (ac_state ac'')"
  using assms by (simp_all add: linked_def)

text \<open>What the coordinator is asked to do by a player is a step of the node.\<close>

lemma react_keygen_step:
  assumes x: "x \<in> set (pl_out q)" and l: "player_linked (inbox_keygen a (co_out c)) p q"
    and p: "Start_keygen a p \<in> set (co_out c)" and r: "react_keygen E now x c = (c', Ok ())"
  shows "c' = c \<or> node_step E admit c c'"
proof (cases x)
  case (To_coordinator err)
  with x l have "Deliver_keygen a (pe_message err) \<in> set (co_out c)"
    by (simp add: player_linked_def)
  from node_step.error_keygen [OF this, of E admit now "pe_room err" "pe_error err"] r To_coordinator
  show ?thesis by (cases err) simp
next
  case (To_broker m)
  with x l have "well_addressed (pl_input q) (pl_room q) x"
    by (auto simp: player_linked_def player_inv_def list_all_iff)
  with To_broker obtain cm where "m = Outgoing cm" by (cases m) simp_all
  with r To_broker show ?thesis by (auto intro: node_step.outgoing)
next
  case (To_collector out)
  with x l have "po_input out = pl_input p"
    by (auto simp: player_linked_def player_inv_def player_frame_def list_all_iff)
  with node_step.output_keygen [OF p, of E "po_output out" c'] r To_collector show ?thesis by (cases out) simp
qed (use r in simp_all)

lemma react_offline_step:
  assumes x: "x \<in> set (pl_out q)" and l: "player_linked (inbox_offline a (co_out c)) p q"
    and p: "Start_offline a p \<in> set (co_out c)" and r: "react_offline E now x c = (c', Ok ())"
  shows "c' = c \<or> node_step E admit c c'"
proof (cases x)
  case (To_coordinator err)
  with x l have "Deliver_offline a (pe_message err) \<in> set (co_out c)"
    by (simp add: player_linked_def)
  from node_step.error_offline [OF this, of E admit now "pe_room err" "pe_error err"] r To_coordinator
  show ?thesis by (cases err) simp
next
  case (To_broker m)
  with x l have "well_addressed (pl_input q) (pl_room q) x"
    by (auto simp: player_linked_def player_inv_def list_all_iff)
  with To_broker obtain cm where "m = Outgoing cm" by (cases m) simp_all
  with r To_broker show ?thesis by (auto intro: node_step.outgoing)
next
  case (To_collector out)
  with x l have "po_input out = pl_input p"
    by (auto simp: player_linked_def player_inv_def player_frame_def list_all_iff)
  with node_step.output_offline [OF p, of E admit "po_output out"] r To_collector show ?thesis by (cases out) simp
qed (use r in simp_all)

lemma react_signer_step:
  assumes x: "x \<in> set (sn_out q)" and l: "signer_linked g q"
    and g: "Start_signer a g \<in> set (co_out c)" and r: "react_signer E now x c = (c', Ok ())"
  shows "node_step E admit c c'"
proof (cases x)
  case (Signer_outgoing m)
  with r show ?thesis by (auto intro: node_step.outgoing)
next
  case (Signer_result out)
  with x l have "po_input out = sn_input g" by (simp add: signer_linked_def)
  with node_step.output_sign [OF g, of E admit "po_output out"] r Signer_result show ?thesis by (cases out) simp
qed

definition submitted :: "('db, 'sk, 'lk, 'kg, 'mk, 'off, 'mo, 'cos, 'ps) whole \<Rightarrow> coordinator_message \<Rightarrow> bool" where
  "submitted s m \<longleftrightarrow> (\<exists>r \<in> set (mi_tx (wh_imp s)). m = snd (handle r))"

lemma handle_request: "snd (handle r) = (case r of Keygen_request k \<Rightarrow> KeygenRequest k | Sign_request g \<Rightarrow> SignRequest g)"
  by (simp add: handle_def split: request.split)

text \<open>The request that a step hands over.\<close>

definition handed_over ::
  "whole_event \<Rightarrow> ('db, 'sk, 'lk, 'kg, 'mk, 'off, 'mo, 'cos, 'ps) whole \<Rightarrow> coordinator_message \<Rightarrow> bool" where
  "handed_over e s m \<longleftrightarrow> (\<exists>now. e = Take now) \<and> wh_taken s < length (mi_tx (wh_imp s)) \<and>
     m = snd (handle (mi_tx (wh_imp s) ! wh_taken s))"

lemma node_step_mono:
  "node_step E admit c c' \<Longrightarrow> (\<And>m. admit m \<Longrightarrow> admit' m) \<Longrightarrow> node_step E admit' c c'"
  by (induction rule: node_step.induct) (auto simp del: handle_coordinator_message.simps intro: node_step.intros)

lemma whole_step_hands_over:
  assumes l: "linked s" and step: "whole_step E M e s = Some s'"
  shows "wh_node s' = wh_node s \<or> node_step E (handed_over e s) (wh_node s) (wh_node s')"
proof (cases e)
  case (Take now)
  show ?thesis
  proof (cases "wh_stopped s")
    case True
    with step Take show ?thesis by (auto split: if_splits)
  next
    case False
    let ?r = "mi_tx (wh_imp s) ! wh_taken s"
    from step Take have "handed_over e s (snd (handle ?r))" by (simp add: handed_over_def split: if_splits)
    moreover from step Take False
    have "handle_coordinator_message E now (snd (handle ?r)) (wh_node s) = (wh_node s', Ok ())"
      by (auto simp: node_moves_Some simp del: handle_coordinator_message.simps split: if_splits)
    ultimately show ?thesis
      unfolding handle_request
      by (cases ?r) (auto simp del: handle_coordinator_message.simps
          intro: node_step.keygen_request node_step.sign_request)
  qed
next
  case (Arrive raw now)
  with step show ?thesis
    by (auto simp: node_moves_Some intro: node_step.stream [where raw = raw and now = now]
        split: list.splits if_splits)
next
  case (Fire i now)
  with step obtain d m where i: "i < length (co_out (wh_node s))" "co_out (wh_node s) ! i = Run_later d m"
    and h: "handle_coordinator_message E now m (wh_node s) = (wh_node s', Ok ())"
    by (auto simp: node_moves_Some simp del: handle_coordinator_message.simps
        split: if_splits effect.splits)
  from nth_mem [OF i(1)] have "Run_later d m \<in> set (co_out (wh_node s))" by (simp only: i(2))
  from node_step.timer [OF this h] show ?thesis by simp
next
  case (Post p ok)
  with step show ?thesis
    by (auto simp: node_moves_Some intro: node_step.sent split: if_splits)
next
  case (Emit_keygen a now)
  with step obtain ac where ac: "wh_kg s a = Some ac" "ac_sent ac < length (pl_out (ac_state ac))"
    and r: "react_keygen E now (pl_out (ac_state ac) ! ac_sent ac) (wh_node s) = (wh_node s', Ok ())"
    by (auto simp: bind_eq_Some_conv node_moves_Some split: if_splits)
  from linkedD(2) [OF l ac(1)] obtain p where "Start_keygen a p \<in> set (co_out (wh_node s))"
    "player_linked (inbox_keygen a (co_out (wh_node s))) p (ac_state ac)" by blast
  from react_keygen_step [OF nth_mem [OF ac(2)] this(2,1) r] show ?thesis .
next
  case (Emit_offline a now)
  with step obtain ac where ac: "wh_off s a = Some ac" "ac_sent ac < length (pl_out (ac_state ac))"
    and r: "react_offline E now (pl_out (ac_state ac) ! ac_sent ac) (wh_node s) = (wh_node s', Ok ())"
    by (auto simp: bind_eq_Some_conv node_moves_Some split: if_splits)
  from linkedD(3) [OF l ac(1)] obtain p where "Start_offline a p \<in> set (co_out (wh_node s))"
    "player_linked (inbox_offline a (co_out (wh_node s))) p (ac_state ac)" by blast
  from react_offline_step [OF nth_mem [OF ac(2)] this(2,1) r] show ?thesis .
next
  case (Emit_signer a now)
  with step obtain ac where ac: "wh_sig s a = Some ac" "ac_sent ac < length (sn_out (ac_state ac))"
    and r: "react_signer E now (sn_out (ac_state ac) ! ac_sent ac) (wh_node s) = (wh_node s', Ok ())"
    by (auto simp: bind_eq_Some_conv node_moves_Some split: if_splits)
  from linkedD(4) [OF l ac(1)] obtain g where "Start_signer a g \<in> set (co_out (wh_node s))"
    "signer_linked g (ac_state ac)" by blast
  from react_signer_step [OF nth_mem [OF ac(2)] this(2,1) r] show ?thesis by simp
qed (use step in \<open>auto simp: bind_eq_Some_conv split: if_splits option.splits list.splits\<close>)

lemma whole_step_node:
  assumes "linked s" and "whole_step E M e s = Some s'"
  shows "wh_node s' = wh_node s \<or> node_step E (submitted s) (wh_node s) (wh_node s')"
proof -
  have "submitted s m" if "handed_over e s m" for m
    using that by (auto simp: handed_over_def submitted_def)
  with whole_step_hands_over [OF assms] show ?thesis by (blast intro: node_step_mono)
qed

section \<open>How an actor moves in a step\<close>

text \<open>
  The three kinds of actors move alike: one begins in a state \<open>born\<close>, acts on its own state, or
  has one of its messages, which \<open>out_of\<close> lists, handled by the coordinator.
\<close>

inductive actor_moves ::
  "('p \<Rightarrow> 'x list) \<Rightarrow> 'p set \<Rightarrow> ('p \<Rightarrow> 'p \<Rightarrow> bool) \<Rightarrow> 'p actor option \<Rightarrow> 'p actor option \<Rightarrow> bool"
  for out_of born act where
  idle: "actor_moves out_of born act x x"
| begins: "p \<in> born \<Longrightarrow> actor_moves out_of born act None (Some \<lparr>ac_state = p, ac_read = 0, ac_sent = 0\<rparr>)"
| acts:
  "act (ac_state ac) q \<Longrightarrow>
   actor_moves out_of born act (Some ac) (Some \<lparr>ac_state = q, ac_read = n, ac_sent = ac_sent ac\<rparr>)"
| sends:
  "ac_sent ac < length (out_of (ac_state ac)) \<Longrightarrow>
   actor_moves out_of born act (Some ac) (Some (handled ac))"

definition player_acts ::
  "('sm, 'm, 'o) sm_api \<Rightarrow> 'm msg incoming_message list \<Rightarrow>
   ('i, 'sm, 'm msg, 'o) player \<Rightarrow> ('i, 'sm, 'm msg, 'o) player \<Rightarrow> bool" where
  "player_acts SM mailbox p q \<longleftrightarrow>
     (\<exists>msg \<in> set mailbox. \<exists>now. q = player_handle_message SM now msg p) \<or>
     (\<exists>now. q = player_handle_maybe_proceed SM now p)"

definition signer_acts ::
  "('cos, 'man, 'ps) sign_api \<Rightarrow> 'ps msg incoming_message list \<Rightarrow>
   ('i, 'cos, 'ps) signer \<Rightarrow> ('i, 'cos, 'ps) signer \<Rightarrow> bool" where
  "signer_acts SA mailbox p q \<longleftrightarrow> (\<exists>msg \<in> set mailbox. q = signer_handle SA msg p)"

lemma actor_moves_state:
  assumes "actor_moves out_of born act x (Some ac)"
    and "\<And>p. p \<in> born \<Longrightarrow> I p" and "\<And>p q. act p q \<Longrightarrow> I p \<Longrightarrow> I q"
    and "\<And>ac0. x = Some ac0 \<Longrightarrow> I (ac_state ac0)"
  shows "I (ac_state ac)"
  using assms(1) by cases (use assms(2-4) in \<open>auto simp: handled_def\<close>)

lemma takes_message_Some:
  "takes_message h mb ac = Some ac' \<longleftrightarrow>
     ac_read ac < length mb \<and>
     ac' = \<lparr>ac_state = h (mb ! ac_read ac) (ac_state ac), ac_read = ac_read ac + 1, ac_sent = ac_sent ac\<rparr>"
  by (cases ac) (auto simp: takes_message_def)

lemma player_reads:
  "takes_message (player_handle_message SM now) mb ac = Some ac' \<Longrightarrow>
   actor_moves pl_out born (player_acts SM mb) (Some ac) (Some ac')"
  unfolding takes_message_Some player_acts_def
  by (auto intro!: actor_moves.acts simp: player_acts_def)

lemma player_polls:
  "actor_moves pl_out born (player_acts SM mb) (Some ac)
     (Some (ac\<lparr>ac_state := player_handle_maybe_proceed SM now (ac_state ac)\<rparr>))"
  using actor_moves.acts [of "player_acts SM mb" ac "player_handle_maybe_proceed SM now (ac_state ac)"
      pl_out born "ac_read ac"]
  by (cases ac) (auto simp: player_acts_def)

lemma signer_reads:
  "takes_message (signer_handle SA) mb ac = Some ac' \<Longrightarrow>
   actor_moves sn_out born (signer_acts SA mb) (Some ac) (Some ac')"
  unfolding takes_message_Some signer_acts_def
  by (auto intro!: actor_moves.acts)

lemma whole_step_keygen:
  assumes "whole_step E M e s = Some s'"
  shows "actor_moves pl_out (player_started ` set (started_keygen a (co_out (wh_node s))))
    (player_acts (mc_keygen M) (inbox_keygen a (co_out (wh_node s)))) (wh_kg s a) (wh_kg s' a)"
proof (cases e)
  case (Begin_keygen b)
  with assms obtain p ps where st: "wh_kg s b = None" "started_keygen b (co_out (wh_node s)) = p # ps"
    by (auto split: option.splits list.splits)
  then have "player_started p \<in> player_started ` set (started_keygen b (co_out (wh_node s)))"
    by (simp del: mailbox_member)
  from actor_moves.begins [OF this] assms Begin_keygen st show ?thesis
    by (cases "a = b") (auto simp del: mailbox_member intro: actor_moves.idle)
next
  case (Read_keygen b now)
  with assms show ?thesis
    by (cases "a = b") (auto simp: bind_eq_Some_conv intro: actor_moves.idle player_reads)
next
  case (Poll_keygen b now)
  with assms show ?thesis
    by (cases "a = b") (auto intro: actor_moves.idle player_polls)
next
  case (Emit_keygen b now)
  with assms show ?thesis
    by (cases "a = b")
      (auto simp: bind_eq_Some_conv node_moves_Some intro: actor_moves.idle actor_moves.sends
        split: if_splits)
qed (use assms in \<open>auto simp: bind_eq_Some_conv node_moves_Some
  simp del: handle_coordinator_message.simps intro: actor_moves.idle
  split: if_splits option.splits list.splits effect.splits\<close>)

lemma whole_step_offline:
  assumes "whole_step E M e s = Some s'"
  shows "actor_moves pl_out (player_started ` set (started_offline a (co_out (wh_node s))))
    (player_acts (mc_offline M) (inbox_offline a (co_out (wh_node s)))) (wh_off s a) (wh_off s' a)"
proof (cases e)
  case (Begin_offline b)
  with assms obtain p ps where st: "wh_off s b = None" "started_offline b (co_out (wh_node s)) = p # ps"
    by (auto split: option.splits list.splits)
  then have "player_started p \<in> player_started ` set (started_offline b (co_out (wh_node s)))"
    by (simp del: mailbox_member)
  from actor_moves.begins [OF this] assms Begin_offline st show ?thesis
    by (cases "a = b") (auto simp del: mailbox_member intro: actor_moves.idle)
next
  case (Read_offline b now)
  with assms show ?thesis
    by (cases "a = b") (auto simp: bind_eq_Some_conv intro: actor_moves.idle player_reads)
next
  case (Poll_offline b now)
  with assms show ?thesis
    by (cases "a = b") (auto intro: actor_moves.idle player_polls)
next
  case (Emit_offline b now)
  with assms show ?thesis
    by (cases "a = b")
      (auto simp: bind_eq_Some_conv node_moves_Some intro: actor_moves.idle actor_moves.sends
        split: if_splits)
qed (use assms in \<open>auto simp: bind_eq_Some_conv node_moves_Some
  simp del: handle_coordinator_message.simps intro: actor_moves.idle
  split: if_splits option.splits list.splits effect.splits\<close>)

lemma whole_step_signer:
  assumes "whole_step E M e s = Some s'"
  shows "actor_moves sn_out (signer_started (mc_sign M) ` set (started_signer a (co_out (wh_node s))))
    (signer_acts (mc_sign M) (inbox_signer a (co_out (wh_node s)))) (wh_sig s a) (wh_sig s' a)"
proof (cases e)
  case (Begin_signer b)
  with assms obtain p ps where st: "wh_sig s b = None" "started_signer b (co_out (wh_node s)) = p # ps"
    by (auto split: option.splits list.splits)
  then have "signer_started (mc_sign M) p \<in> signer_started (mc_sign M) ` set (started_signer b (co_out (wh_node s)))"
    by (simp del: mailbox_member)
  from actor_moves.begins [OF this] assms Begin_signer st show ?thesis
    by (cases "a = b") (auto simp del: mailbox_member intro: actor_moves.idle)
next
  case (Read_signer b)
  with assms show ?thesis
    by (cases "a = b") (auto simp: bind_eq_Some_conv intro: actor_moves.idle signer_reads)
next
  case (Emit_signer b now)
  with assms show ?thesis
    by (cases "a = b")
      (auto simp: bind_eq_Some_conv node_moves_Some intro: actor_moves.idle actor_moves.sends
        split: if_splits)
qed (use assms in \<open>auto simp: bind_eq_Some_conv node_moves_Some
  simp del: handle_coordinator_message.simps intro: actor_moves.idle
  split: if_splits option.splits list.splits effect.splits\<close>)

lemma whole_step_adds:
  assumes "linked s" and "whole_step E M e s = Some s'"
  shows "adds (wh_node s) (wh_node s')"
  using whole_step_node [OF assms] node_step_adds addsI [of "wh_node s" "wh_node s" "[]"] by auto

lemma linked_step:
  assumes l: "linked s" and step: "whole_step E M e s = Some s'"
  shows "linked s'"
proof -
  let ?out = "co_out (wh_node s)" and ?out' = "co_out (wh_node s')"
  from whole_step_adds [OF assms] obtain es where es: "?out' = ?out @ es" "list_all newborn es"
    by (auto simp: adds_def)
  have nb: "list_all newborn ?out" by (rule linkedD(1) [OF l])
  have born: "pl_out p = []" if "Start_keygen a p \<in> set ?out" for a p
    using that nb by (force simp: list_all_iff)
  have born': "pl_out p = []" if "Start_offline a p \<in> set ?out" for a p
    using that nb by (force simp: list_all_iff)
  have born'': "sn_out g = []" if "Start_signer a g \<in> set ?out" for a g
    using that nb by (force simp: list_all_iff)
  have kg: "\<exists>p. Start_keygen a p \<in> set ?out' \<and> player_linked (inbox_keygen a ?out') p (ac_state ac)"
    if "wh_kg s' a = Some ac" for a ac
  proof -
    have m: "actor_moves pl_out (player_started ` set (started_keygen a ?out))
        (player_acts (mc_keygen M) (inbox_keygen a ?out)) (wh_kg s a) (Some ac)"
      using whole_step_keygen [OF step, of a] that by simp
    have "\<exists>p. Start_keygen a p \<in> set ?out \<and> player_linked (inbox_keygen a ?out) p (ac_state ac)"
    proof (rule actor_moves_state [OF m])
      fix q assume "q \<in> player_started ` set (started_keygen a ?out)"
      then obtain p where "Start_keygen a p \<in> set ?out" "q = player_started p" by auto
      with player_linked_started [OF born [OF this(1)]]
      show "\<exists>p. Start_keygen a p \<in> set ?out \<and> player_linked (inbox_keygen a ?out) p q" by auto
    qed (use linkedD(2) [OF l, of a] in \<open>auto simp: player_acts_def
      intro: player_linked_message player_linked_poll\<close>)
    then obtain p where "Start_keygen a p \<in> set ?out" "player_linked (inbox_keygen a ?out) p (ac_state ac)"
      by auto
    then show ?thesis by (intro exI [of _ p]) (simp add: es(1) player_linked_append)
  qed
  have off: "\<exists>p. Start_offline a p \<in> set ?out' \<and> player_linked (inbox_offline a ?out') p (ac_state ac)"
    if "wh_off s' a = Some ac" for a ac
  proof -
    have m: "actor_moves pl_out (player_started ` set (started_offline a ?out))
        (player_acts (mc_offline M) (inbox_offline a ?out)) (wh_off s a) (Some ac)"
      using whole_step_offline [OF step, of a] that by simp
    have "\<exists>p. Start_offline a p \<in> set ?out \<and> player_linked (inbox_offline a ?out) p (ac_state ac)"
    proof (rule actor_moves_state [OF m])
      fix q assume "q \<in> player_started ` set (started_offline a ?out)"
      then obtain p where "Start_offline a p \<in> set ?out" "q = player_started p" by auto
      with player_linked_started [OF born' [OF this(1)]]
      show "\<exists>p. Start_offline a p \<in> set ?out \<and> player_linked (inbox_offline a ?out) p q" by auto
    qed (use linkedD(3) [OF l, of a] in \<open>auto simp: player_acts_def
      intro: player_linked_message player_linked_poll\<close>)
    then obtain p where "Start_offline a p \<in> set ?out" "player_linked (inbox_offline a ?out) p (ac_state ac)"
      by auto
    then show ?thesis by (intro exI [of _ p]) (simp add: es(1) player_linked_append)
  qed
  have sig: "\<exists>g. Start_signer a g \<in> set ?out' \<and> signer_linked g (ac_state ac)"
    if "wh_sig s' a = Some ac" for a ac
  proof -
    have m: "actor_moves sn_out (signer_started (mc_sign M) ` set (started_signer a ?out))
        (signer_acts (mc_sign M) (inbox_signer a ?out)) (wh_sig s a) (Some ac)"
      using whole_step_signer [OF step, of a] that by simp
    have "\<exists>g. Start_signer a g \<in> set ?out \<and> signer_linked g (ac_state ac)"
    proof (rule actor_moves_state [OF m])
      fix q assume "q \<in> signer_started (mc_sign M) ` set (started_signer a ?out)"
      then obtain g where "Start_signer a g \<in> set ?out" "q = signer_started (mc_sign M) g" by auto
      with signer_linked_started [OF born'' [OF this(1)]]
      show "\<exists>g. Start_signer a g \<in> set ?out \<and> signer_linked g q" by auto
    qed (use linkedD(4) [OF l, of a] in \<open>auto simp: signer_acts_def intro: signer_linked_message\<close>)
    then show ?thesis by (auto simp: es(1))
  qed
  from nb es kg off sig show ?thesis by (simp add: linked_def)
qed

lemma linked_reachable: "whole_reachable E M sk shares results s \<Longrightarrow> linked s"
proof (induction rule: whole_reachable.induct)
  case begin_whole
  then show ?case by (simp add: linked_def whole_new_def coordinator_new_def)
next
  case (continue_whole s e s')
  then show ?case by (blast intro: linked_step)
qed

end
