(* ===== verification/Whole_Status.thy ===== *)
theory Whole_Status
  imports Whole_Facts "HOL-Library.Sublist"
begin

text \<open>
  Where a request is at each moment of a run of the whole server: a player hands in its output at
  most once, a signer its signature at most once, and the responses for a request id that was accepted
  once are a beginning of \<open>Received\<close>, \<open>Processing\<close> (twice when signing), and \<open>Done\<close> or \<open>Error\<close>.
\<close>

section \<open>Outputs are handed in once\<close>

text \<open>
  What is relied on of a state machine of the library: once it has given its output, it never gives
  one again, whatever is done with it. \<open>spent\<close> is the state it is then in.
\<close>

definition picks_once :: "('sm, 'm, 'o) sm_api \<Rightarrow> ('sm \<Rightarrow> bool) \<Rightarrow> bool" where
  "picks_once SM spent \<longleftrightarrow>
     (\<forall>s m. spent s \<longrightarrow> spent (fst (sm_handle_incoming SM s m))) \<and>
     (\<forall>s. spent s \<longrightarrow> spent (fst (sm_proceed SM s)) \<and> spent (sm_drained SM s) \<and>
        spent (fst (sm_pick_output SM s)) \<and> (\<forall>r. snd (sm_pick_output SM s) \<noteq> Some (Inr r))) \<and>
     (\<forall>s s' r. sm_pick_output SM s = (s', Some (Inr r)) \<longrightarrow> spent s')"

lemma picks_onceD:
  assumes "picks_once SM spent"
  shows "spent s \<Longrightarrow> spent (fst (sm_handle_incoming SM s m))"
    and "spent s \<Longrightarrow> spent (fst (sm_proceed SM s))" "spent s \<Longrightarrow> spent (sm_drained SM s)"
    and "spent s \<Longrightarrow> spent (fst (sm_pick_output SM s))"
    and "spent s \<Longrightarrow> snd (sm_pick_output SM s) \<noteq> Some (Inr r)"
    and "sm_pick_output SM s = (s', Some (Inr r)) \<Longrightarrow> spent s'"
  using assms unfolding picks_once_def by blast+

fun is_collector :: "('i, 'm, 'o) player_out \<Rightarrow> bool" where
  "is_collector (To_collector out) = True"
| "is_collector _ = False"

definition outputs :: "('i, 'sm, 'm, 'o) player \<Rightarrow> ('i, 'm, 'o) player_out list" where
  "outputs p = filter is_collector (pl_out p)"

definition gave_once :: "('sm \<Rightarrow> bool) \<Rightarrow> ('i, 'sm, 'm, 'o) player \<Rightarrow> bool" where
  "gave_once spent p \<longleftrightarrow> length (outputs p) \<le> 1 \<and> (outputs p \<noteq> [] \<longrightarrow> spent (pl_state p))"

lemma outputs_emit [simp]: "outputs (player_emit es p) = outputs p @ filter is_collector es"
  by (simp add: outputs_def)

lemma outputs_cong: "pl_out q = pl_out p \<Longrightarrow> outputs q = outputs p"
  by (simp add: outputs_def)

lemma queue_out_collector [simp]: "filter is_collector (queue_out SM room s) = []"
  by (simp add: queue_out_def)

lemma gave_once_send_outgoing:
  "picks_once SM spent \<Longrightarrow> gave_once spent p \<Longrightarrow> gave_once spent (send_outgoing SM p)"
  by (auto simp: gave_once_def outputs_def intro: picks_onceD)

lemma gave_once_refresh_timer: "gave_once spent p \<Longrightarrow> gave_once spent (refresh_timer SM now p)"
  by (simp add: gave_once_def outputs_def)

lemma gave_once_send_error: "gave_once spent p \<Longrightarrow> gave_once spent (send_error e m p)"
  by (simp add: gave_once_def outputs_def)

lemma gave_once_handle_incoming:
  "picks_once SM spent \<Longrightarrow> gave_once spent p \<Longrightarrow> gave_once spent (player_handle_incoming SM msg p)"
  by (auto simp: gave_once_def outputs_def error_out_def intro: picks_onceD split: sum.splits)

lemma gave_once_proceed:
  "picks_once SM spent \<Longrightarrow> gave_once spent p \<Longrightarrow> gave_once spent (fst (proceed_if_needed SM p))"
  by (auto simp: gave_once_def outputs_def proceed_if_needed_sm_step sm_step_def intro: picks_onceD)

lemma gave_once_finish:
  assumes law: "picks_once SM spent" and p: "gave_once spent p"
  shows "gave_once spent (fst (finish_if_possible SM p))"
proof (cases "sm_is_finished SM (pl_state p)")
  case True
  obtain sm r where pick: "sm_pick_output SM (pl_state p) = (sm, r)"
    by (cases "sm_pick_output SM (pl_state p)")
  show ?thesis
  proof (cases "\<exists>x. r = Some (Inr x)")
    case True
    then obtain x where x: "r = Some (Inr x)" by blast
    have "\<not> spent (pl_state p)"
      using picks_onceD(5) [OF law, of "pl_state p" x] pick x by auto
    with p have "outputs p = []" by (simp add: gave_once_def)
    with \<open>sm_is_finished SM (pl_state p)\<close> pick x picks_onceD(6) [OF law pick [unfolded x]] show ?thesis
      by (simp add: finish_if_possible_def gave_once_def outputs_def send_result_def)
  next
    case False
    with \<open>sm_is_finished SM (pl_state p)\<close> pick p picks_onceD(4) [OF law, of "pl_state p"] show ?thesis
      by (auto simp: finish_if_possible_def gave_once_def outputs_def split: option.splits sum.splits)
  qed
qed (use p in \<open>simp add: finish_if_possible_def\<close>)

lemma gave_once_maybe_proceed:
  assumes law: "picks_once SM spent" and p: "gave_once spent p"
  shows "gave_once spent (fst (maybe_proceed SM now p))"
proof -
  let ?p1 = "refresh_timer SM now (send_outgoing SM p)"
  obtain q r where q: "proceed_if_needed SM ?p1 = (q, r)" by (cases "proceed_if_needed SM ?p1")
  have "gave_once spent (fst (proceed_if_needed SM ?p1))"
    by (intro gave_once_proceed gave_once_refresh_timer gave_once_send_outgoing law p)
  then have "gave_once spent q" by (simp add: q)
  then have "gave_once spent (fst (finish_if_possible SM (refresh_timer SM now (send_outgoing SM q))))"
    by (intro gave_once_finish gave_once_refresh_timer gave_once_send_outgoing law)
  with \<open>gave_once spent q\<close> show ?thesis by (simp add: maybe_proceed_def q split: sum.split)
qed

lemma gave_once_message:
  assumes law: "picks_once SM spent" and p: "gave_once spent p"
  shows "gave_once spent (player_handle_message SM now msg p)"
proof -
  have "gave_once spent (p\<lparr>pl_msg_count := pl_msg_count p + 1\<rparr>)"
    using p by (simp add: gave_once_def outputs_def)
  from gave_once_maybe_proceed [OF law gave_once_handle_incoming [OF law this], of now msg]
  show ?thesis
    using p by (auto simp: player_handle_message_def report_error_def intro: gave_once_send_error
        split: prod.split sum.split)
qed

lemma gave_once_poll:
  assumes law: "picks_once SM spent" and p: "gave_once spent p"
  shows "gave_once spent (player_handle_maybe_proceed SM now p)"
  using gave_once_maybe_proceed [OF law p, of now] p
  by (simp add: player_handle_maybe_proceed_def gave_once_def)

lemma gave_once_started: "pl_out p = [] \<Longrightarrow> gave_once spent (player_started p)"
  by (simp add: gave_once_def player_started_def outputs_def)

text \<open>A signer gives its result with the \<open>t\<close>-th partial signature, and only then.\<close>

fun is_result :: "'i signer_out \<Rightarrow> bool" where
  "is_result (Signer_result out) = True"
| "is_result _ = False"

definition signed_once :: "('i, 'cos, 'ps) signer \<Rightarrow> bool" where
  "signed_once s \<longleftrightarrow> length (filter is_result (sn_out s)) \<le> 1 \<and>
     (filter is_result (sn_out s) \<noteq> [] \<longrightarrow> unat (st_t (sn_task s)) \<le> length (sn_partial_sigs s))"

lemma signed_once_message: "signed_once s \<Longrightarrow> signed_once (signer_handle SA msg s)"
  by (cases "filter is_result (sn_out s) = []")
    (auto simp: signed_once_def signer_handle_def signer_finish_if_possible_def
      split: option.splits prod.splits)

lemma signed_once_started:
  "sn_out s = [] \<Longrightarrow> signed_once (signer_started SA s)"
  by (auto simp: signed_once_def signer_started_def send_my_partial_signature_def
      split: option.split prod.split)

section \<open>Actors that report once\<close>

text \<open>
  What players and signers promise: they only add to what they send, they keep the request they work
  for, and among what they send there is at most one final report.
\<close>

definition sound :: "('p \<Rightarrow> 'x list) \<Rightarrow> ('p \<Rightarrow> bool) \<Rightarrow> 'p actor option \<Rightarrow> bool" where
  "sound out_of ok x \<longleftrightarrow>
     (\<forall>ac. x = Some ac \<longrightarrow> ac_sent ac \<le> length (out_of (ac_state ac)) \<and> ok (ac_state ac))"

definition has_reported ::
  "('p \<Rightarrow> 'x list) \<Rightarrow> ('x \<Rightarrow> bool) \<Rightarrow> ('p \<Rightarrow> string) \<Rightarrow> string \<Rightarrow> 'p actor option \<Rightarrow> bool" where
  "has_reported out_of final owner rid x \<longleftrightarrow>
     (\<exists>ac. x = Some ac \<and> owner (ac_state ac) = rid \<and>
        list_ex final (take (ac_sent ac) (out_of (ac_state ac))))"

locale reporter =
  fixes out_of :: "'p \<Rightarrow> 'x list" and final :: "'x \<Rightarrow> bool" and ok :: "'p \<Rightarrow> bool"
    and owner :: "'p \<Rightarrow> string" and act :: "'p \<Rightarrow> 'p \<Rightarrow> bool"
  assumes act_adds: "act p q \<Longrightarrow> prefix (out_of p) (out_of q)"
    and act_ok: "act p q \<Longrightarrow> ok p \<Longrightarrow> ok q"
    and act_owner: "act p q \<Longrightarrow> owner q = owner p"
    and once: "ok p \<Longrightarrow> length (filter final (out_of p)) \<le> 1"
begin

lemma sound_moves:
  assumes "actor_moves out_of born act x y" and "\<And>p. p \<in> born \<Longrightarrow> ok p" and "sound out_of ok x"
  shows "sound out_of ok y"
  using assms(1)
proof cases
  case (acts ac q n)
  with assms(3) act_ok [of "ac_state ac" q] prefix_length_le [OF act_adds [of "ac_state ac" q]]
  show ?thesis by (auto simp: sound_def)
qed (use assms(2,3) in \<open>auto simp: sound_def handled_def\<close>)

lemma reported_moves:
  assumes moves: "actor_moves out_of born act x y" and "sound out_of ok x"
    and silent: "\<And>ac. x = Some ac \<Longrightarrow> y = Some (handled ac) \<Longrightarrow> owner (ac_state ac) = rid \<Longrightarrow>
      \<not> final (out_of (ac_state ac) ! ac_sent ac)"
  shows "has_reported out_of final owner rid y \<longleftrightarrow> has_reported out_of final owner rid x"
  using moves
proof cases
  case (acts ac q n)
  then obtain zs where "out_of q = out_of (ac_state ac) @ zs"
    using act_adds by (auto simp: prefix_def)
  with acts act_owner [of "ac_state ac" q] assms(2) show ?thesis
    by (simp add: has_reported_def sound_def)
next
  case (sends ac)
  with silent [of ac] show ?thesis
    by (cases "owner (ac_state ac) = rid") (simp_all add: has_reported_def handled_def take_Suc_conv_app_nth)
qed (auto simp: has_reported_def)

lemma reports_first:
  assumes "sound out_of ok (Some ac)" and n: "ac_sent ac < length (out_of (ac_state ac))"
    and "final (out_of (ac_state ac) ! ac_sent ac)"
  shows "\<not> has_reported out_of final owner rid (Some ac)"
    and "has_reported out_of final owner (owner (ac_state ac)) (Some (handled ac))"
proof -
  let ?xs = "out_of (ac_state ac)" and ?n = "ac_sent ac"
  have "length (filter final (take ?n ?xs @ ?xs ! ?n # drop (Suc ?n) ?xs)) \<le> 1"
    using once [of "ac_state ac"] assms(1) by (simp add: sound_def flip: id_take_nth_drop [OF n])
  with assms(3) have "filter final (take ?n ?xs) = []" by simp
  then show "\<not> has_reported out_of final owner rid (Some ac)"
    by (auto simp: has_reported_def list_ex_iff filter_empty_conv)
  show "has_reported out_of final owner (owner (ac_state ac)) (Some (handled ac))"
    using assms(3) n by (simp add: has_reported_def handled_def take_Suc_conv_app_nth)
qed

end

lemma player_acts_facts:
  assumes "player_acts SM mb p q"
  shows "prefix (pl_out p) (pl_out q)" and "pl_input q = pl_input p"
    and "picks_once SM spent \<Longrightarrow> gave_once spent p \<Longrightarrow> gave_once spent q"
proof -
  have "prefix (pl_out p) (pl_out (player_handle_message SM now msg p))" for now msg
    by (cases "accepts (pl_index p) (im_message msg)")
      (simp_all add: player_handle_message_ignored player_handle_message_out [OF _ refl])
  with assms show "prefix (pl_out p) (pl_out q)"
    by (auto simp: player_acts_def player_handle_maybe_proceed_simps)
  from assms show "pl_input q = pl_input p"
    by (auto simp: player_acts_def player_handle_maybe_proceed_simps player_handle_message_simps)
  from assms show "gave_once spent q" if "picks_once SM spent" "gave_once spent p"
    using that by (auto simp: player_acts_def intro: gave_once_message gave_once_poll)
qed

lemma signer_acts_facts:
  assumes "signer_acts SA mb p q"
  shows "prefix (sn_out p) (sn_out q)" and "sn_input q = sn_input p"
    and "signed_once p \<Longrightarrow> signed_once q"
proof -
  show "prefix (sn_out p) (sn_out q)" and "sn_input q = sn_input p"
    using assms by (auto simp: signer_acts_def signer_handle_def signer_finish_if_possible_def
        split: option.splits prod.splits)
  show "signed_once q" if "signed_once p"
    using assms that by (auto simp: signer_acts_def intro: signed_once_message)
qed

interpretation keygen_player: reporter pl_out is_collector
  "\<lambda>p. picks_once SM spent \<and> gave_once spent p" "\<lambda>p. kr_request_id (pl_input p)" "player_acts SM mb"
  for SM spent mb
  by unfold_locales (auto simp: gave_once_def outputs_def dest: player_acts_facts)

interpretation offline_player: reporter pl_out is_collector
  "\<lambda>p. picks_once SM spent \<and> gave_once spent p" "\<lambda>p. sr_request_id (es_inner (pl_input p))"
  "player_acts SM mb" for SM spent mb
  by unfold_locales (auto simp: gave_once_def outputs_def dest: player_acts_facts)

interpretation signers: reporter sn_out is_result signed_once
  "\<lambda>g. sr_request_id (es_inner (sn_input g))" "signer_acts SA mb" for SA mb
  by unfold_locales (auto simp: signed_once_def dest: signer_acts_facts)

end
