(* ===== verification/Whole_Requests.thy ===== *)
theory Whole_Requests
  imports Whole_Status
begin

text \<open>
  The life of one request in a run of the whole server, as an abstract automaton: it waits, is taken
  by the coordinator, a player works for it, when signing then a signer, and its end is reported. Each
  step of the server leaves the phase of a request, or is a step of the automaton.
\<close>

section \<open>What the server did for a request\<close>

datatype milestone = Says i32 | Keygen_starts nat | Offline_starts nat | Signer_starts nat

fun mark ::
  "string \<Rightarrow> ('lk, 'kg, 'mk, 'off, 'mo, 'cos, 'ps) effect \<Rightarrow> milestone option" where
  "mark rid (Respond r) = (if cr_request_id r = rid then Some (Says (cr_request_status r)) else None)"
| "mark rid (Start_keygen a p) =
     (if kr_request_id (pl_input p) = rid then Some (Keygen_starts a) else None)"
| "mark rid (Start_offline a p) =
     (if sr_request_id (es_inner (pl_input p)) = rid then Some (Offline_starts a) else None)"
| "mark rid (Start_signer a g) =
     (if sr_request_id (es_inner (sn_input g)) = rid then Some (Signer_starts a) else None)"
| "mark rid _ = None"

definition milestones ::
  "string \<Rightarrow> ('lk, 'kg, 'mk, 'off, 'mo, 'cos, 'ps) effect list \<Rightarrow> milestone list" where
  "milestones rid = List.map_filter (mark rid)"

fun said :: "milestone list \<Rightarrow> i32 list" where
  "said [] = []"
| "said (Says st # ms) = st # said ms"
| "said (m # ms) = said ms"

lemma milestones_simps [simp]:
  "milestones rid [] = []"
  "milestones rid (e # es) =
     (case mark rid e of None \<Rightarrow> milestones rid es | Some m \<Rightarrow> m # milestones rid es)"
  "milestones rid (es @ fs) = milestones rid es @ milestones rid fs"
  by (simp_all add: milestones_def List.map_filter_def split: option.split)

lemma said_append [simp]: "said (ms @ ns) = said ms @ said ns"
  by (induction ms rule: said.induct) simp_all

lemma responses_Cons:
  "responses (e # es) = (case e of Respond r \<Rightarrow> r # responses es | _ \<Rightarrow> responses es)"
  by (cases e) (simp_all add: responses_def List.map_filter_def)

lemma said_milestones:
  "map cr_request_status (filter (\<lambda>r. cr_request_id r = rid) (responses es)) = said (milestones rid es)"
proof (induction es)
  case (Cons e es)
  then show ?case by (cases e) (simp_all add: responses_Cons)
qed (simp add: responses_def List.map_filter_def)

lemma quiet_milestones: "list_all quiet es \<Longrightarrow> milestones rid es = []"
proof (induction es)
  case (Cons e es)
  then show ?case by (cases e) simp_all
qed simp

lemma milestone_of_start:
  "Start_keygen a p \<in> set out \<Longrightarrow> Keygen_starts a \<in> set (milestones (kr_request_id (pl_input p)) out)"
  "Start_offline a p' \<in> set out \<Longrightarrow>
     Offline_starts a \<in> set (milestones (sr_request_id (es_inner (pl_input p'))) out)"
  "Start_signer a g \<in> set out \<Longrightarrow>
     Signer_starts a \<in> set (milestones (sr_request_id (es_inner (sn_input g))) out)"
  by (force simp: milestones_def map_filter_member)+

section \<open>The automaton\<close>

text \<open>
  The numbers are the addresses of the players and signers. \<open>Stalled\<close> is a request for which no
  player could be started: it stays \<open>Processing\<close>.
\<close>

datatype phase =
    Waiting | Stalled
  | Generating nat | Generated nat
  | Preparing nat | Failed nat | Signing nat nat | Signed nat nat

inductive advances :: "phase \<Rightarrow> phase \<Rightarrow> bool" where
  stalls: "advances Waiting Stalled"
| generates: "advances Waiting (Generating a)"
| prepares: "advances Waiting (Preparing a)"
| generated: "advances (Generating a) (Generated a)"
| failed: "advances (Preparing a) (Failed a)"
| signs: "advances (Preparing a) (Signing a b)"
| signed: "advances (Signing a b) (Signed a b)"

inductive_cases advancesE: "advances ph ph'"

abbreviation says :: "request_status \<Rightarrow> milestone" where
  "says st \<equiv> Says (request_status_i32 st)"

fun trace :: "phase \<Rightarrow> milestone list" where
  "trace Waiting = []"
| "trace Stalled = [says Processing]"
| "trace (Generating a) = [says Processing, Keygen_starts a]"
| "trace (Generated a) = [says Processing, Keygen_starts a, says Done]"
| "trace (Preparing a) = [says Processing, Offline_starts a]"
| "trace (Failed a) = [says Processing, Offline_starts a, says Error]"
| "trace (Signing a b) = [says Processing, Offline_starts a, Signer_starts b, says Processing]"
| "trace (Signed a b) = [says Processing, Offline_starts a, Signer_starts b, says Processing, says Done]"

text \<open>The actors that have made their final report for the request.\<close>

fun final_keygen :: "phase \<Rightarrow> nat set" where
  "final_keygen (Generated a) = {a}"
| "final_keygen _ = {}"

fun final_offline :: "phase \<Rightarrow> nat set" where
  "final_offline (Failed a) = {a}"
| "final_offline (Signing a b) = {a}"
| "final_offline (Signed a b) = {a}"
| "final_offline _ = {}"

fun final_signer :: "phase \<Rightarrow> nat set" where
  "final_signer (Signed a b) = {b}"
| "final_signer _ = {}"

definition reported_keygen where
  "reported_keygen rid s = {a. has_reported pl_out is_collector (\<lambda>p. kr_request_id (pl_input p)) rid (wh_kg s a)}"

definition reported_offline where
  "reported_offline rid s =
     {a. has_reported pl_out is_collector (\<lambda>p. sr_request_id (es_inner (pl_input p))) rid (wh_off s a)}"

definition reported_signer where
  "reported_signer rid s =
     {a. has_reported sn_out is_result (\<lambda>g. sr_request_id (es_inner (sn_input g))) rid (wh_sig s a)}"

definition at_phase ::
  "string \<Rightarrow> ('db, 'sk, 'lk, 'kg, 'mk, 'off, 'mo, 'cos, 'ps) whole \<Rightarrow> phase \<Rightarrow> bool" where
  "at_phase rid s ph \<longleftrightarrow>
     milestones rid (co_out (wh_node s)) = trace ph \<and>
     reported_keygen rid s = final_keygen ph \<and>
     reported_offline rid s = final_offline ph \<and>
     reported_signer rid s = final_signer ph"

section \<open>Which step says what\<close>

text \<open>The actors of the server have given at most one output, and each has sent what it counts.\<close>

definition sound_actors ::
  "('lk, 'kg, 'mk, 'off, 'mo, 'cos, 'man, 'ps) machines \<Rightarrow> ('kg \<Rightarrow> bool) \<Rightarrow> ('off \<Rightarrow> bool) \<Rightarrow>
   ('db, 'sk, 'lk, 'kg, 'mk, 'off, 'mo, 'cos, 'ps) whole \<Rightarrow> bool" where
  "sound_actors M kspent ospent s \<longleftrightarrow>
     (\<forall>a. sound pl_out (\<lambda>p. picks_once (mc_keygen M) kspent \<and> gave_once kspent p) (wh_kg s a) \<and>
          sound pl_out (\<lambda>p. picks_once (mc_offline M) ospent \<and> gave_once ospent p) (wh_off s a) \<and>
          sound sn_out signed_once (wh_sig s a))"

lemma linked_newborn:
  assumes "linked s"
  shows "Start_keygen a p \<in> set (co_out (wh_node s)) \<Longrightarrow> pl_out p = []"
    and "Start_offline a p' \<in> set (co_out (wh_node s)) \<Longrightarrow> pl_out p' = []"
    and "Start_signer a g \<in> set (co_out (wh_node s)) \<Longrightarrow> sn_out g = []"
  using linkedD(1) [OF assms] by (force simp: list_all_iff)+

lemma sound_actors_step:
  assumes laws: "picks_once (mc_keygen M) kspent" "picks_once (mc_offline M) ospent" and l: "linked s"
    and sound: "sound_actors M kspent ospent s" and step: "whole_step E M e s = Some s'"
  shows "sound_actors M kspent ospent s'"
  unfolding sound_actors_def
proof (intro allI conjI)
  note born = linked_newborn [OF l]
  fix a
  show "sound pl_out (\<lambda>p. picks_once (mc_keygen M) kspent \<and> gave_once kspent p) (wh_kg s' a)"
    by (rule keygen_player.sound_moves [OF whole_step_keygen [OF step]])
      (use laws sound born in \<open>auto simp: sound_actors_def intro!: gave_once_started\<close>)
  show "sound pl_out (\<lambda>p. picks_once (mc_offline M) ospent \<and> gave_once ospent p) (wh_off s' a)"
    by (rule offline_player.sound_moves [OF whole_step_offline [OF step]])
      (use laws sound born in \<open>auto simp: sound_actors_def intro!: gave_once_started\<close>)
  show "sound sn_out signed_once (wh_sig s' a)"
    by (rule signers.sound_moves [OF whole_step_signer [OF step]])
      (use sound born in \<open>auto simp: sound_actors_def intro!: signed_once_started\<close>)
qed

text \<open>The events in which an actor's final report is handled.\<close>

fun final_report ::
  "whole_event \<Rightarrow> ('db, 'sk, 'lk, 'kg, 'mk, 'off, 'mo, 'cos, 'ps) whole \<Rightarrow> bool" where
  "final_report (Emit_keygen a now) s =
     (\<exists>ac. wh_kg s a = Some ac \<and> is_collector (pl_out (ac_state ac) ! ac_sent ac))"
| "final_report (Emit_offline a now) s =
     (\<exists>ac. wh_off s a = Some ac \<and> is_collector (pl_out (ac_state ac) ! ac_sent ac))"
| "final_report (Emit_signer a now) s =
     (\<exists>ac. wh_sig s a = Some ac \<and> is_result (sn_out (ac_state ac) ! ac_sent ac))"
| "final_report _ s = False"

lemma handled_neq [simp]:
  "handled ac \<noteq> ac" "ac \<noteq> handled ac" "ac\<lparr>ac_state := p\<rparr> \<noteq> handled ac"
  by (cases ac; simp add: handled_def)+

lemma takes_not_handled [simp]: "takes_message h mb ac \<noteq> Some (handled ac)"
  by (cases ac) (simp add: takes_message_Some handled_def)

lemma handles:
  assumes step: "whole_step E M e s = Some s'"
  shows "wh_kg s a = Some k \<Longrightarrow> wh_kg s' a = Some (handled k) \<Longrightarrow> \<exists>now. e = Emit_keygen a now"
    and "wh_off s a = Some p \<Longrightarrow> wh_off s' a = Some (handled p) \<Longrightarrow> \<exists>now. e = Emit_offline a now"
    and "wh_sig s a = Some g \<Longrightarrow> wh_sig s' a = Some (handled g) \<Longrightarrow> \<exists>now. e = Emit_signer a now"
proof -
  note facts = bind_eq_Some_conv node_moves_Some fun_upd_apply
  show "\<exists>now. e = Emit_keygen a now" if "wh_kg s a = Some k" "wh_kg s' a = Some (handled k)"
    using step that by (cases e) (auto simp: facts simp del: handle_coordinator_message.simps
        split: if_splits option.splits list.splits effect.splits)
  show "\<exists>now. e = Emit_offline a now" if "wh_off s a = Some p" "wh_off s' a = Some (handled p)"
    using step that by (cases e) (auto simp: facts simp del: handle_coordinator_message.simps
        split: if_splits option.splits list.splits effect.splits)
  show "\<exists>now. e = Emit_signer a now" if "wh_sig s a = Some g" "wh_sig s' a = Some (handled g)"
    using step that by (cases e) (auto simp: facts simp del: handle_coordinator_message.simps
        split: if_splits option.splits list.splits effect.splits)
qed

lemma reported_unless_final:
  assumes step: "whole_step E M e s = Some s'" and sound: "sound_actors M kspent ospent s"
    and silent: "\<And>a now ac. e = Emit_keygen a now \<Longrightarrow> wh_kg s a = Some ac \<Longrightarrow>
      kr_request_id (pl_input (ac_state ac)) = rid \<Longrightarrow> \<not> is_collector (pl_out (ac_state ac) ! ac_sent ac)"
    "\<And>a now ac. e = Emit_offline a now \<Longrightarrow> wh_off s a = Some ac \<Longrightarrow>
      sr_request_id (es_inner (pl_input (ac_state ac))) = rid \<Longrightarrow>
      \<not> is_collector (pl_out (ac_state ac) ! ac_sent ac)"
    "\<And>a now ac. e = Emit_signer a now \<Longrightarrow> wh_sig s a = Some ac \<Longrightarrow>
      sr_request_id (es_inner (sn_input (ac_state ac))) = rid \<Longrightarrow>
      \<not> is_result (sn_out (ac_state ac) ! ac_sent ac)"
  shows "reported_keygen rid s' = reported_keygen rid s"
    and "reported_offline rid s' = reported_offline rid s"
    and "reported_signer rid s' = reported_signer rid s"
proof -
  have silent1: "\<not> is_collector (pl_out (ac_state ac) ! ac_sent ac)"
    if "wh_kg s a = Some ac" "wh_kg s' a = Some (handled ac)" "kr_request_id (pl_input (ac_state ac)) = rid" for a ac
    using handles(1) [OF step that(1,2)] silent(1) [OF _ that(1,3)] by blast
  have silent2: "\<not> is_collector (pl_out (ac_state ac) ! ac_sent ac)"
    if "wh_off s a = Some ac" "wh_off s' a = Some (handled ac)" "sr_request_id (es_inner (pl_input (ac_state ac))) = rid" for a ac
    using handles(2) [OF step that(1,2)] silent(2) [OF _ that(1,3)] by blast
  have silent3: "\<not> is_result (sn_out (ac_state ac) ! ac_sent ac)"
    if "wh_sig s a = Some ac" "wh_sig s' a = Some (handled ac)" "sr_request_id (es_inner (sn_input (ac_state ac))) = rid" for a ac
    using handles(3) [OF step that(1,2)] silent(3) [OF _ that(1,3)] by blast
  have kg: "has_reported pl_out is_collector (\<lambda>p. kr_request_id (pl_input p)) rid (wh_kg s' a) \<longleftrightarrow>
      has_reported pl_out is_collector (\<lambda>p. kr_request_id (pl_input p)) rid (wh_kg s a)" for a
    by (rule keygen_player.reported_moves [where spent = kspent, OF whole_step_keygen [OF step, of a]])
      (use sound in \<open>simp add: sound_actors_def\<close>, rule silent1)
  have off: "has_reported pl_out is_collector (\<lambda>p. sr_request_id (es_inner (pl_input p))) rid (wh_off s' a) \<longleftrightarrow>
      has_reported pl_out is_collector (\<lambda>p. sr_request_id (es_inner (pl_input p))) rid (wh_off s a)" for a
    by (rule offline_player.reported_moves [where spent = ospent, OF whole_step_offline [OF step, of a]])
      (use sound in \<open>simp add: sound_actors_def\<close>, rule silent2)
  have sig: "has_reported sn_out is_result (\<lambda>g. sr_request_id (es_inner (sn_input g))) rid (wh_sig s' a) \<longleftrightarrow>
      has_reported sn_out is_result (\<lambda>g. sr_request_id (es_inner (sn_input g))) rid (wh_sig s a)" for a
    by (rule signers.reported_moves [OF whole_step_signer [OF step, of a]])
      (use sound in \<open>simp add: sound_actors_def\<close>, rule silent3)
  show "reported_keygen rid s' = reported_keygen rid s" "reported_offline rid s' = reported_offline rid s"
    "reported_signer rid s' = reported_signer rid s"
    by (simp_all add: reported_keygen_def reported_offline_def reported_signer_def kg off sig)
qed

text \<open>All other events say nothing about any request.\<close>

lemma quietly_out:
  "quietly c c' \<Longrightarrow> \<exists>es. co_out c' = co_out c @ es \<and> list_all quiet es"
  by (auto simp: quietly_def)

lemma quiet_reacts:
  "player_linked mb p q \<Longrightarrow> x \<in> set (pl_out q) \<Longrightarrow> \<not> is_collector x \<Longrightarrow>
     quietly c (fst (react_keygen E now x c))"
  "player_linked mb' p' q' \<Longrightarrow> x' \<in> set (pl_out q') \<Longrightarrow> \<not> is_collector x' \<Longrightarrow>
     quietly c (fst (react_offline E now x' c))"
  "\<not> is_result y \<Longrightarrow> quietly c (fst (react_signer E now y c))"
proof -
  have m: "\<not> is_request m" if "well_addressed input room (To_broker m)"
    for m and input :: 'z and room
    using that by (cases m) simp_all
  show "quietly c (fst (react_keygen E now x c))"
    if "player_linked mb p q" "x \<in> set (pl_out q)" "\<not> is_collector x"
    using that by (cases x) (auto simp: quietly_protocol_error player_linked_def player_inv_def
        list_all_iff simp del: handle_coordinator_message.simps intro!: quietly_message m)
  show "quietly c (fst (react_offline E now x' c))"
    if "player_linked mb' p' q'" "x' \<in> set (pl_out q')" "\<not> is_collector x'"
    using that by (cases x') (auto simp: quietly_protocol_error player_linked_def player_inv_def
        list_all_iff simp del: handle_coordinator_message.simps intro!: quietly_message m)
  show "quietly c (fst (react_signer E now y c))" if "\<not> is_result y"
    using that by (cases y) (auto simp del: handle_coordinator_message.simps intro!: quietly_message)
qed

lemma quiet_step:
  assumes l: "linked s" and step: "whole_step E M e s = Some s'"
    and "\<And>now. e \<noteq> Take now" and silent: "\<not> final_report e s"
  shows "\<exists>es. co_out (wh_node s') = co_out (wh_node s) @ es \<and> list_all quiet es"
proof (cases e)
  case (Fire i now)
  with step obtain d m where i: "i < length (co_out (wh_node s))" "co_out (wh_node s) ! i = Run_later d m"
    and h: "handle_coordinator_message E now m (wh_node s) = (wh_node s', Ok ())"
    by (auto simp: node_moves_Some simp del: handle_coordinator_message.simps
        split: if_splits effect.splits)
  from nth_mem [OF i(1)] linkedD(1) [OF l] have "\<not> is_request m"
    by (simp only: i(2)) (force simp: list_all_iff)
  from quietly_message [OF this, of "wh_node s" E now] h show ?thesis
    by (intro quietly_out) (simp del: handle_coordinator_message.simps)
next
  case (Arrive raw now)
  with step have "wh_node s' = wh_node s \<or> (\<exists>r. stream_handle E now r (wh_node s) = (wh_node s', Ok ()))"
    by (auto simp: node_moves_Some split: list.splits if_splits)
  then have "quietly (wh_node s) (wh_node s')"
    using quietly_stream [of "wh_node s" E now] by (metis fst_conv quietly_refl)
  then show ?thesis by (rule quietly_out)
next
  case (Post p ok)
  with step show ?thesis
    by (auto simp: node_moves_Some send_one_Ok split: if_splits)
next
  case (Emit_keygen a now)
  with step obtain ac where ac: "wh_kg s a = Some ac" "ac_sent ac < length (pl_out (ac_state ac))"
    and r: "react_keygen E now (pl_out (ac_state ac) ! ac_sent ac) (wh_node s) = (wh_node s', Ok ())"
    by (auto simp: bind_eq_Some_conv node_moves_Some split: if_splits)
  from linkedD(2) [OF l ac(1)] quiet_reacts(1) [OF _ nth_mem [OF ac(2)], of _ _ "wh_node s" E now]
    silent ac(1) r Emit_keygen
  show ?thesis by (fastforce dest: quietly_out)
next
  case (Emit_offline a now)
  with step obtain ac where ac: "wh_off s a = Some ac" "ac_sent ac < length (pl_out (ac_state ac))"
    and r: "react_offline E now (pl_out (ac_state ac) ! ac_sent ac) (wh_node s) = (wh_node s', Ok ())"
    by (auto simp: bind_eq_Some_conv node_moves_Some split: if_splits)
  from linkedD(3) [OF l ac(1)] quiet_reacts(2) [OF _ nth_mem [OF ac(2)], of _ _ "wh_node s" E now]
    silent ac(1) r Emit_offline
  show ?thesis by (fastforce dest: quietly_out)
next
  case (Emit_signer a now)
  with step obtain ac where ac: "wh_sig s a = Some ac" "ac_sent ac < length (sn_out (ac_state ac))"
    and r: "react_signer E now (sn_out (ac_state ac) ! ac_sent ac) (wh_node s) = (wh_node s', Ok ())"
    by (auto simp: bind_eq_Some_conv node_moves_Some split: if_splits)
  from quiet_reacts(3) [of "sn_out (ac_state ac) ! ac_sent ac" "wh_node s" E now]
    silent ac(1) r Emit_signer
  show ?thesis by (fastforce dest: quietly_out)
qed (use assms in \<open>auto simp: bind_eq_Some_conv split: if_splits option.splits list.splits\<close>)

section \<open>The final reports\<close>

lemma keygen_report:
  assumes l: "linked s" and sound: "sound_actors M kspent ospent s"
    and step: "whole_step E M (Emit_keygen a now) s = Some s'"
    and ac: "wh_kg s a = Some ac" and final: "is_collector (pl_out (ac_state ac) ! ac_sent ac)"
    and rid: "rid = kr_request_id (pl_input (ac_state ac))"
  shows "Keygen_starts a \<in> set (milestones rid (co_out (wh_node s)))"
    and "a \<notin> reported_keygen rid s" and "reported_keygen rid s' = insert a (reported_keygen rid s)"
    and "reported_offline rid s' = reported_offline rid s" "reported_signer rid s' = reported_signer rid s"
    and "milestones rid' (co_out (wh_node s')) =
      milestones rid' (co_out (wh_node s)) @ (if rid' = rid then [says Done] else [])"
proof -
  from step ac have n: "ac_sent ac < length (pl_out (ac_state ac))"
    and r: "react_keygen E now (pl_out (ac_state ac) ! ac_sent ac) (wh_node s) = (wh_node s', Ok ())"
    and kg: "wh_kg s' = (wh_kg s)(a \<mapsto> handled ac)" and same: "wh_off s' = wh_off s" "wh_sig s' = wh_sig s"
    by (auto simp: node_moves_Some split: if_splits)
  from linkedD(2) [OF l ac] obtain p where p: "Start_keygen a p \<in> set (co_out (wh_node s))"
    and pl: "player_linked (inbox_keygen a (co_out (wh_node s))) p (ac_state ac)" by blast
  have inp: "pl_input (ac_state ac) = pl_input p" using pl by (simp add: player_linked_def player_frame_def)
  from final obtain out where out: "pl_out (ac_state ac) ! ac_sent ac = To_collector out"
    by (cases "pl_out (ac_state ac) ! ac_sent ac") simp_all
  have "po_input out = pl_input (ac_state ac)"
    using pl nth_mem [OF n] out by (auto simp: player_linked_def player_inv_def list_all_iff)
  with output_keygen_adds [OF r [unfolded out, simplified]] rid
  show "milestones rid' (co_out (wh_node s')) =
      milestones rid' (co_out (wh_node s)) @ (if rid' = rid then [says Done] else [])"
    by auto
  show "Keygen_starts a \<in> set (milestones rid (co_out (wh_node s)))"
    using milestone_of_start(1) [OF p] by (simp add: rid inp)
  have first: "sound pl_out (\<lambda>p. picks_once (mc_keygen M) kspent \<and> gave_once kspent p) (Some ac)"
    using sound ac unfolding sound_actors_def by metis
  show "a \<notin> reported_keygen rid s"
    using keygen_player.reports_first(1) [OF first n final] by (simp add: reported_keygen_def ac)
  show "reported_keygen rid s' = insert a (reported_keygen rid s)"
    using keygen_player.reports_first(2) [OF first n final] by (auto simp: reported_keygen_def kg rid)
  show "reported_offline rid s' = reported_offline rid s" "reported_signer rid s' = reported_signer rid s"
    by (simp_all add: reported_offline_def reported_signer_def same)
qed

lemma offline_report:
  assumes l: "linked s" and sound: "sound_actors M kspent ospent s"
    and step: "whole_step E M (Emit_offline a now) s = Some s'"
    and ac: "wh_off s a = Some ac" and final: "is_collector (pl_out (ac_state ac) ! ac_sent ac)"
    and rid: "rid = sr_request_id (es_inner (pl_input (ac_state ac)))"
  shows "Offline_starts a \<in> set (milestones rid (co_out (wh_node s)))"
    and "a \<notin> reported_offline rid s" and "reported_offline rid s' = insert a (reported_offline rid s)"
    and "reported_keygen rid s' = reported_keygen rid s" "reported_signer rid s' = reported_signer rid s"
    and "\<exists>ms. (ms = [says Error] \<or> (\<exists>b. ms = [Signer_starts b, says Processing])) \<and>
      (\<forall>rid'. milestones rid' (co_out (wh_node s')) =
         milestones rid' (co_out (wh_node s)) @ (if rid' = rid then ms else []))"
proof -
  from step ac have n: "ac_sent ac < length (pl_out (ac_state ac))"
    and r: "react_offline E now (pl_out (ac_state ac) ! ac_sent ac) (wh_node s) = (wh_node s', Ok ())"
    and off: "wh_off s' = (wh_off s)(a \<mapsto> handled ac)" and same: "wh_kg s' = wh_kg s" "wh_sig s' = wh_sig s"
    by (auto simp: node_moves_Some split: if_splits)
  from linkedD(3) [OF l ac] obtain p where p: "Start_offline a p \<in> set (co_out (wh_node s))"
    and pl: "player_linked (inbox_offline a (co_out (wh_node s))) p (ac_state ac)" by blast
  have inp: "pl_input (ac_state ac) = pl_input p" using pl by (simp add: player_linked_def player_frame_def)
  from final obtain out where out: "pl_out (ac_state ac) ! ac_sent ac = To_collector out"
    by (cases "pl_out (ac_state ac) ! ac_sent ac") simp_all
  have "po_input out = pl_input (ac_state ac)"
    using pl nth_mem [OF n] out by (auto simp: player_linked_def player_inv_def list_all_iff)
  with rid have who: "sr_request_id (es_inner (po_input out)) = rid" by simp
  have c': "wh_node s' = handle_output_offline E out (wh_node s)" using r out by simp
  from output_offline_adds [of E out "wh_node s"] consider
      "co_out (wh_node s') = co_out (wh_node s) @ [Inc REQUESTS_OFFLINE_DONE,
         Respond (mk_response rid [] Sign_type Error)]"
    | b task where "co_out (wh_node s') = co_out (wh_node s) @ [Inc REQUESTS_OFFLINE_DONE,
         Start_signer b (signer_new (po_input out) task), Respond (mk_response rid [] Sign_type Processing)]"
    unfolding c' who by fastforce
  then show "\<exists>ms. (ms = [says Error] \<or> (\<exists>b. ms = [Signer_starts b, says Processing])) \<and>
      (\<forall>rid'. milestones rid' (co_out (wh_node s')) =
         milestones rid' (co_out (wh_node s)) @ (if rid' = rid then ms else []))"
  proof cases
    case 1
    then show ?thesis by (intro exI [of _ "[says Error]"]) simp
  next
    case (2 b task)
    then show ?thesis
      by (intro exI [of _ "[Signer_starts b, says Processing]"]) (simp add: signer_new_def who)
  qed
  show "Offline_starts a \<in> set (milestones rid (co_out (wh_node s)))"
    using milestone_of_start(2) [OF p] by (simp add: rid inp)
  have first: "sound pl_out (\<lambda>p. picks_once (mc_offline M) ospent \<and> gave_once ospent p) (Some ac)"
    using sound ac unfolding sound_actors_def by metis
  show "a \<notin> reported_offline rid s"
    using offline_player.reports_first(1) [OF first n final] by (simp add: reported_offline_def ac)
  show "reported_offline rid s' = insert a (reported_offline rid s)"
    using offline_player.reports_first(2) [OF first n final] by (auto simp: reported_offline_def off rid)
  show "reported_keygen rid s' = reported_keygen rid s" "reported_signer rid s' = reported_signer rid s"
    by (simp_all add: reported_keygen_def reported_signer_def same)
qed

lemma signer_report:
  assumes l: "linked s" and sound: "sound_actors M kspent ospent s"
    and step: "whole_step E M (Emit_signer a now) s = Some s'"
    and ac: "wh_sig s a = Some ac" and final: "is_result (sn_out (ac_state ac) ! ac_sent ac)"
    and rid: "rid = sr_request_id (es_inner (sn_input (ac_state ac)))"
  shows "Signer_starts a \<in> set (milestones rid (co_out (wh_node s)))"
    and "a \<notin> reported_signer rid s" and "reported_signer rid s' = insert a (reported_signer rid s)"
    and "reported_keygen rid s' = reported_keygen rid s" "reported_offline rid s' = reported_offline rid s"
    and "milestones rid' (co_out (wh_node s')) =
      milestones rid' (co_out (wh_node s)) @ (if rid' = rid then [says Done] else [])"
proof -
  from step ac have n: "ac_sent ac < length (sn_out (ac_state ac))"
    and r: "react_signer E now (sn_out (ac_state ac) ! ac_sent ac) (wh_node s) = (wh_node s', Ok ())"
    and sig: "wh_sig s' = (wh_sig s)(a \<mapsto> handled ac)" and same: "wh_kg s' = wh_kg s" "wh_off s' = wh_off s"
    by (auto simp: node_moves_Some split: if_splits)
  from linkedD(4) [OF l ac] obtain g where g: "Start_signer a g \<in> set (co_out (wh_node s))"
    and pl: "signer_linked g (ac_state ac)" by blast
  from final obtain out where out: "sn_out (ac_state ac) ! ac_sent ac = Signer_result out"
    by (cases "sn_out (ac_state ac) ! ac_sent ac") simp_all
  have inp: "sn_input (ac_state ac) = sn_input g" "po_input out = sn_input g"
    using pl nth_mem [OF n] out by (auto simp: signer_linked_def)
  with output_sign_adds [of E out "wh_node s"] r rid
  show "milestones rid' (co_out (wh_node s')) =
      milestones rid' (co_out (wh_node s)) @ (if rid' = rid then [says Done] else [])"
    unfolding out by auto
  show "Signer_starts a \<in> set (milestones rid (co_out (wh_node s)))"
    using milestone_of_start(3) [OF g] by (simp add: rid inp)
  have first: "sound sn_out signed_once (Some ac)"
    using sound ac unfolding sound_actors_def by metis
  show "a \<notin> reported_signer rid s"
    using signers.reports_first(1) [OF first n final] by (simp add: reported_signer_def ac)
  show "reported_signer rid s' = insert a (reported_signer rid s)"
    using signers.reports_first(2) [OF first n final] by (auto simp: reported_signer_def sig rid)
  show "reported_keygen rid s' = reported_keygen rid s" "reported_offline rid s' = reported_offline rid s"
    by (simp_all add: reported_keygen_def reported_offline_def same)
qed

section \<open>Each step keeps the phase or advances it\<close>

fun request_id :: "request \<Rightarrow> string" where
  "request_id (Keygen_request r) = kr_request_id r"
| "request_id (Sign_request r) = sr_request_id r"

lemma take_report:
  assumes step: "whole_step E M (Take now) s = Some s'"
  shows "\<exists>ms. (ms = [] \<or> (\<exists>ph. advances Waiting ph \<and> ms = trace ph)) \<and>
    (\<forall>rid. milestones rid (co_out (wh_node s')) =
       milestones rid (co_out (wh_node s)) @
       (if rid = request_id (mi_tx (wh_imp s) ! wh_taken s) then ms else []))"
proof (cases "wh_stopped s")
  case True
  with step have "wh_node s' = wh_node s" by (auto split: if_splits)
  then show ?thesis by (intro exI [of _ "[]"]) simp
next
  case False
  let ?r = "mi_tx (wh_imp s) ! wh_taken s"
  from False have h: "handle_coordinator_message E now (snd (handle ?r)) (wh_node s) = (wh_node s', Ok ())"
    using step by (auto simp: node_moves_Some simp del: handle_coordinator_message.simps split: if_splits)
  show ?thesis
  proof (cases ?r)
    case (Keygen_request req)
    with h have "handle_coordinator_message E now (KeygenRequest req) (wh_node s) = (wh_node s', Ok ())"
      by (simp add: handle_request del: handle_coordinator_message.simps)
    from keygen_request_adds [OF this] obtain es where es: "co_out (wh_node s') = co_out (wh_node s) @ [Inc REQUESTS_KEYGEN_HANDLED,
        Respond (mk_response (kr_request_id req) [] Keygen_type Processing)] @ es"
      "es = [] \<or> (\<exists>room i sm. es = [Start_keygen (co_next_addr (wh_node s)) (player_new req room i sm)])"
      by blast
    show ?thesis
    proof (cases "es = []")
      case True
      with es(1) Keygen_request show ?thesis
        by (intro exI [of _ "trace Stalled"]) (auto intro: advances.intros)
    next
      case False
      with es Keygen_request show ?thesis
        by (intro exI [of _ "trace (Generating (co_next_addr (wh_node s)))"])
          (auto simp: player_new_def intro: advances.intros exI [of _ "Generating (co_next_addr (wh_node s))"])
    qed
  next
    case (Sign_request req)
    with h have "handle_coordinator_message E now (SignRequest req) (wh_node s) = (wh_node s', Ok ())"
      by (simp add: handle_request del: handle_coordinator_message.simps)
    from sign_request_adds [OF this] obtain es where es: "co_out (wh_node s') = co_out (wh_node s) @ [Inc REQUESTS_SIGN_HANDLED] @ es"
      "es = [] \<or> es = [Respond (mk_response (sr_request_id req) [] Sign_type Processing)] \<or>
       (\<exists>input room i sm. es_inner input = req \<and>
        es = [Respond (mk_response (sr_request_id req) [] Sign_type Processing),
              Start_offline (co_next_addr (wh_node s)) (player_new input room i sm)])"
      by blast
    from es(2) show ?thesis
    proof (elim disjE)
      assume "es = []"
      with es(1) show ?thesis by (intro exI [of _ "[]"]) simp
    next
      assume "es = [Respond (mk_response (sr_request_id req) [] Sign_type Processing)]"
      with es(1) Sign_request show ?thesis
        by (intro exI [of _ "trace Stalled"]) (auto intro: advances.intros)
    next
      assume "\<exists>input room i sm. es_inner input = req \<and>
        es = [Respond (mk_response (sr_request_id req) [] Sign_type Processing),
              Start_offline (co_next_addr (wh_node s)) (player_new input room i sm)]"
      with es(1) Sign_request show ?thesis
        by (intro exI [of _ "trace (Preparing (co_next_addr (wh_node s)))"])
          (auto simp: player_new_def intro: advances.intros exI [of _ "Preparing (co_next_addr (wh_node s))"])
    qed
  qed
qed

text \<open>The event in which the coordinator takes the request, and those in which it handles a final report for it.\<close>

definition takes_request ::
  "whole_event \<Rightarrow> ('db, 'sk, 'lk, 'kg, 'mk, 'off, 'mo, 'cos, 'ps) whole \<Rightarrow> string \<Rightarrow> bool" where
  "takes_request e s rid \<longleftrightarrow>
     (\<exists>now. e = Take now \<and> rid = request_id (mi_tx (wh_imp s) ! wh_taken s))"

fun reports_for ::
  "whole_event \<Rightarrow> ('db, 'sk, 'lk, 'kg, 'mk, 'off, 'mo, 'cos, 'ps) whole \<Rightarrow> string \<Rightarrow> bool" where
  "reports_for (Emit_keygen a now) s rid =
     (\<exists>ac. wh_kg s a = Some ac \<and> is_collector (pl_out (ac_state ac) ! ac_sent ac) \<and>
        rid = kr_request_id (pl_input (ac_state ac)))"
| "reports_for (Emit_offline a now) s rid =
     (\<exists>ac. wh_off s a = Some ac \<and> is_collector (pl_out (ac_state ac) ! ac_sent ac) \<and>
        rid = sr_request_id (es_inner (pl_input (ac_state ac))))"
| "reports_for (Emit_signer a now) s rid =
     (\<exists>ac. wh_sig s a = Some ac \<and> is_result (sn_out (ac_state ac) ! ac_sent ac) \<and>
        rid = sr_request_id (es_inner (sn_input (ac_state ac))))"
| "reports_for _ s rid = False"

lemma final_report_for: "final_report e s \<Longrightarrow> \<exists>rid. reports_for e s rid"
  by (cases e) auto

lemma untouched_request:
  assumes l: "linked s" and sound: "sound_actors M kspent ospent s"
    and step: "whole_step E M e s = Some s'"
    and "\<not> takes_request e s rid" and not: "\<not> reports_for e s rid"
  shows "milestones rid (co_out (wh_node s')) = milestones rid (co_out (wh_node s))"
    and "reported_keygen rid s' = reported_keygen rid s"
    and "reported_offline rid s' = reported_offline rid s"
    and "reported_signer rid s' = reported_signer rid s"
proof -
  show "reported_keygen rid s' = reported_keygen rid s"
    "reported_offline rid s' = reported_offline rid s" "reported_signer rid s' = reported_signer rid s"
    by (rule reported_unless_final [OF step sound]; use not in auto)+
  show "milestones rid (co_out (wh_node s')) = milestones rid (co_out (wh_node s))"
  proof (cases "(\<exists>now. e = Take now) \<or> final_report e s")
    case True
    with not obtain now where "e = Take now \<or> (\<exists>other. reports_for e s other \<and> rid \<noteq> other)"
      using final_report_for [of e s] by blast
    then show ?thesis
    proof (elim disjE exE conjE)
      assume "e = Take now"
      with take_report [OF step [unfolded this]] assms(4) show ?thesis by (auto simp: takes_request_def)
    next
      fix other assume o: "reports_for e s other" "rid \<noteq> other"
      show ?thesis
      proof (cases e)
        case (Emit_keygen a now)
        with o obtain ac where "wh_kg s a = Some ac" "is_collector (pl_out (ac_state ac) ! ac_sent ac)"
          "other = kr_request_id (pl_input (ac_state ac))" by auto
        from keygen_report(6) [OF l sound step [unfolded Emit_keygen] this] o(2) show ?thesis by simp
      next
        case (Emit_offline a now)
        with o obtain ac where "wh_off s a = Some ac" "is_collector (pl_out (ac_state ac) ! ac_sent ac)"
          "other = sr_request_id (es_inner (pl_input (ac_state ac)))" by auto
        from offline_report(6) [OF l sound step [unfolded Emit_offline] this] o(2) show ?thesis by auto
      next
        case (Emit_signer a now)
        with o obtain ac where "wh_sig s a = Some ac" "is_result (sn_out (ac_state ac) ! ac_sent ac)"
          "other = sr_request_id (es_inner (sn_input (ac_state ac)))" by auto
        from signer_report(6) [OF l sound step [unfolded Emit_signer] this] o(2) show ?thesis by simp
      qed (use o in simp_all)
    qed
  next
    case False
    with quiet_step [OF l step] quiet_milestones show ?thesis by fastforce
  qed
qed

lemma phase_step:
  assumes l: "linked s" and sound: "sound_actors M kspent ospent s"
    and step: "whole_step E M e s = Some s'"
    and at: "at_phase rid s ph" and once: "takes_request e s rid \<Longrightarrow> ph = Waiting"
  shows "\<exists>ph'. at_phase rid s' ph' \<and> (ph' = ph \<or> advances ph ph') \<and>
    (ph = Waiting \<longrightarrow> ph' = Waiting \<or> takes_request e s rid)"
proof (cases "takes_request e s rid")
  case True
  then obtain now where e: "e = Take now" "rid = request_id (mi_tx (wh_imp s) ! wh_taken s)"
    by (auto simp: takes_request_def)
  have ph: "ph = Waiting" by (rule once [OF True])
  from take_report [OF step [unfolded e(1)]] obtain ms
    where ms: "ms = [] \<or> (\<exists>ph. advances Waiting ph \<and> ms = trace ph)"
      and all: "\<forall>rid. milestones rid (co_out (wh_node s')) = milestones rid (co_out (wh_node s)) @
        (if rid = request_id (mi_tx (wh_imp s) ! wh_taken s) then ms else [])"
    by blast
  from all have new: "milestones rid (co_out (wh_node s')) = milestones rid (co_out (wh_node s)) @ ms"
    by (simp add: e(2))
  have same: "reported_keygen rid s' = reported_keygen rid s"
    "reported_offline rid s' = reported_offline rid s" "reported_signer rid s' = reported_signer rid s"
    by (rule reported_unless_final [OF step sound]; simp add: e(1))+
  from ms obtain ph' where "ms = trace ph'" "ph' = Waiting \<or> advances Waiting ph'"
    using trace.simps(1) by metis
  moreover from this have "final_keygen ph' = {}" "final_offline ph' = {}" "final_signer ph' = {}"
    by (auto elim: advances.cases)
  ultimately show ?thesis
    using at new same True by (intro exI [of _ ph']) (simp add: at_phase_def ph)
next
  case take: False
  show ?thesis
  proof (cases "reports_for e s rid")
    case False
    note untouched_request [OF l sound step take False]
    with at show ?thesis by (intro exI [of _ ph]) (simp add: at_phase_def)
  next
    case True
    show ?thesis
    proof (cases e)
      case (Emit_keygen a now)
      with True obtain ac where "wh_kg s a = Some ac" "is_collector (pl_out (ac_state ac) ! ac_sent ac)"
        "rid = kr_request_id (pl_input (ac_state ac))" by auto
      note rep = keygen_report [OF l sound step [unfolded Emit_keygen] this]
      from rep(1,2) at have "ph = Generating a" by (cases ph) (auto simp: at_phase_def)
      with rep(3-6) at show ?thesis
        by (intro exI [of _ "Generated a"]) (simp add: at_phase_def advances.intros)
    next
      case (Emit_offline a now)
      with True obtain ac where "wh_off s a = Some ac" "is_collector (pl_out (ac_state ac) ! ac_sent ac)"
        "rid = sr_request_id (es_inner (pl_input (ac_state ac)))" by auto
      note rep = offline_report [OF l sound step [unfolded Emit_offline] this]
      from rep(1,2) at have ph: "ph = Preparing a" by (cases ph) (auto simp: at_phase_def)
      from rep(6) obtain ms where ms: "ms = [says Error] \<or> (\<exists>b. ms = [Signer_starts b, says Processing])"
        and all: "\<forall>rid'. milestones rid' (co_out (wh_node s')) = milestones rid' (co_out (wh_node s)) @
          (if rid' = rid then ms else [])" by blast
      from all have new: "milestones rid (co_out (wh_node s')) = milestones rid (co_out (wh_node s)) @ ms"
        by simp
      from ms obtain ph' where "ph' = Failed a \<or> (\<exists>b. ph' = Signing a b)" "trace ph' = trace ph @ ms"
      proof (elim disjE exE)
        assume "ms = [says Error]"
        with that [of "Failed a"] show thesis by (simp add: ph)
      next
        fix b assume "ms = [Signer_starts b, says Processing]"
        with that [of "Signing a b"] show thesis by (simp add: ph)
      qed
      moreover from this have "advances ph ph'" "final_keygen ph' = {}" "final_offline ph' = {a}"
        "final_signer ph' = {}"
        by (auto simp: ph advances.intros)
      ultimately show ?thesis
        using rep(3-5) new at ph by (intro exI [of _ ph']) (simp add: at_phase_def)
    next
      case (Emit_signer a now)
      with True obtain ac where "wh_sig s a = Some ac" "is_result (sn_out (ac_state ac) ! ac_sent ac)"
        "rid = sr_request_id (es_inner (sn_input (ac_state ac)))" by auto
      note rep = signer_report [OF l sound step [unfolded Emit_signer] this]
      from rep(1,2) at obtain b where "ph = Signing b a" by (cases ph) (auto simp: at_phase_def)
      with rep(3-6) at show ?thesis
        by (intro exI [of _ "Signed b a"]) (simp add: at_phase_def advances.intros)
    qed (use True in simp_all)
  qed
qed

section \<open>The channels\<close>

fun request_type_of :: "request \<Rightarrow> request_type" where
  "request_type_of (Keygen_request r) = Keygen_type"
| "request_type_of (Sign_request r) = Sign_type"

definition received :: "request \<Rightarrow> check_result_response" where
  "received r = mk_response (request_id r) [] (request_type_of r) Received"

definition channels_open :: "('db, 'sk, 'lk, 'kg, 'mk, 'off, 'mo, 'cos, 'ps) whole \<Rightarrow> bool" where
  "channels_open s \<longleftrightarrow> mi_tx_open (wh_imp s) \<and> mi_tx_res_open (wh_imp s)"

lemma fold_tx_res_send:
  "mi_tx_res_open i \<Longrightarrow> fold tx_res_send rs i = i\<lparr>mi_tx_res := mi_tx_res i @ rs\<rparr>"
  by (induction rs arbitrary: i) (simp_all add: tx_res_send_def)

definition step_responses where
  "step_responses s s' = responses (drop (length (co_out (wh_node s))) (co_out (wh_node s')))"

lemma step_responses_same [simp]: "wh_node s' = wh_node s \<Longrightarrow> step_responses s s' = []"
  by (simp add: step_responses_def responses_def List.map_filter_def)

lemma node_moves_imp:
  "node_moves r s = Some s' \<Longrightarrow> mi_tx_res_open (wh_imp s) \<Longrightarrow>
   wh_imp s' = (wh_imp s)\<lparr>mi_tx_res := mi_tx_res (wh_imp s) @ step_responses s s'\<rparr>"
  by (auto simp: node_moves_Some step_responses_def fold_tx_res_send)

text \<open>A call of the service accepts at most one request, and says so first.\<close>

lemma keygen_channels:
  assumes "mi_tx_open i" and "mi_tx_res_open i"
  shows "\<exists>rs. mi_tx_open (fst (keygen E req i)) \<and> mi_tx_res_open (fst (keygen E req i)) \<and>
    mi_tx (fst (keygen E req i)) = mi_tx i @ rs \<and> mi_tx_res (fst (keygen E req i)) = mi_tx_res i @ map received rs"
  using assms
  by (cases "already_exists E i (kr_request_id req)")
    (simp_all add: keygen_cases tx_res_send_def received_def exI [of _ "[Keygen_request req]"])

lemma sign_channels:
  assumes "mi_tx_open i" and "mi_tx_res_open i"
  shows "\<exists>rs. mi_tx_open (fst (sign E req i)) \<and> mi_tx_res_open (fst (sign E req i)) \<and>
    mi_tx (fst (sign E req i)) = mi_tx i @ rs \<and> mi_tx_res (fst (sign E req i)) = mi_tx_res i @ map received rs"
  using assms
  by (cases "already_exists E i (sr_request_id req)"; cases "ce_from_hex E (sr_hash req)")
    (simp_all add: sign_cases tx_res_send_def received_def exI [of _ "[Sign_request req]"])

text \<open>What a step does to the channels.\<close>

lemma whole_step_channels:
  assumes step: "whole_step E M e s = Some s'" and up: "channels_open s"
  shows "\<exists>rs. (rs = [] \<or> step_responses s s' = []) \<and> channels_open s' \<and>
    mi_tx (wh_imp s') = mi_tx (wh_imp s) @ rs \<and>
    mi_tx_res (wh_imp s') = mi_tx_res (wh_imp s) @ map received rs @ step_responses s s'"
proof -
  have moved: ?thesis
    if "node_moves r t = Some s'" "wh_imp t = wh_imp s" "wh_node t = wh_node s" for r t
    using node_moves_imp [OF that(1)] up that by (simp add: channels_open_def step_responses_def)
  have still: ?thesis if "wh_imp s' = wh_imp s" "wh_node s' = wh_node s"
    using that up by (simp add: channels_open_def)
  show ?thesis
  proof (cases e)
    case (Call_keygen req)
    with step have s': "s' = s\<lparr>wh_imp := fst (keygen E req (wh_imp s))\<rparr>" by simp
    show ?thesis
      using keygen_channels [of "wh_imp s" E req] up unfolding s' by (auto simp: channels_open_def)
  next
    case (Call_sign req)
    with step have s': "s' = s\<lparr>wh_imp := fst (sign E req (wh_imp s))\<rparr>" by simp
    show ?thesis
      using sign_channels [of "wh_imp s" E req] up unfolding s' by (auto simp: channels_open_def)
  next
    case (Take now)
    show ?thesis
    proof (cases "wh_stopped s")
      case True
      show ?thesis by (rule still) (use step Take True in \<open>auto split: if_splits\<close>)
    next
      case False
      with Take step have "node_moves (handle_coordinator_message E now
          (snd (handle (mi_tx (wh_imp s) ! wh_taken s))) (wh_node s)) (s\<lparr>wh_taken := wh_taken s + 1\<rparr>) = Some s'"
        by (simp del: handle_coordinator_message.simps split: if_splits)
      from moved [OF this] show ?thesis by simp
    qed
  next
    case (Arrive raw now)
    show ?thesis
    proof (cases "incoming_filter E (co_pk_str (wh_node s)) [Ok raw]")
      case Nil
      with Arrive step up show ?thesis by (simp split: if_splits)
    next
      case (Cons r rs)
      with Arrive step show ?thesis by (auto intro: moved)
    qed
  next
    case (Fire i now)
    with step obtain d m where "co_out (wh_node s) ! i = Run_later d m"
      and "node_moves (handle_coordinator_message E now m (wh_node s)) (s\<lparr>wh_fired := i # wh_fired s\<rparr>) = Some s'"
      by (auto simp del: handle_coordinator_message.simps split: if_splits effect.splits)
    from moved [OF this(2)] show ?thesis by simp
  next
    case (Post p ok)
    with step show ?thesis by (auto intro: moved split: if_splits)
  next
    case (Emit_keygen a now)
    with step obtain ac where "wh_kg s a = Some ac" and "node_moves (react_keygen E now
        (pl_out (ac_state ac) ! ac_sent ac) (wh_node s)) (s\<lparr>wh_kg := (wh_kg s)(a \<mapsto> handled ac)\<rparr>) = Some s'"
      by (auto simp: bind_eq_Some_conv split: if_splits)
    from moved [OF this(2)] show ?thesis by simp
  next
    case (Emit_offline a now)
    with step obtain ac where "wh_off s a = Some ac" and "node_moves (react_offline E now
        (pl_out (ac_state ac) ! ac_sent ac) (wh_node s)) (s\<lparr>wh_off := (wh_off s)(a \<mapsto> handled ac)\<rparr>) = Some s'"
      by (auto simp: bind_eq_Some_conv split: if_splits)
    from moved [OF this(2)] show ?thesis by simp
  next
    case (Emit_signer a now)
    with step obtain ac where "wh_sig s a = Some ac" and "node_moves (react_signer E now
        (sn_out (ac_state ac) ! ac_sent ac) (wh_node s)) (s\<lparr>wh_sig := (wh_sig s)(a \<mapsto> handled ac)\<rparr>) = Some s'"
      by (auto simp: bind_eq_Some_conv split: if_splits)
    from moved [OF this(2)] show ?thesis by simp
  next
    case Store
    with step up show ?thesis by (auto simp: channels_open_def split: if_splits)
  qed (rule still; use step in \<open>auto simp: bind_eq_Some_conv split: if_splits option.splits list.splits\<close>)+
qed

lemma whole_step_taken:
  assumes "whole_step E M e s = Some s'"
  shows "wh_taken s' = (case e of Take now \<Rightarrow> wh_taken s + 1 | _ \<Rightarrow> wh_taken s)"
    and "(\<exists>now. e = Take now) \<Longrightarrow> wh_taken s < length (mi_tx (wh_imp s))"
  using assms by (cases e; auto simp: bind_eq_Some_conv node_moves_Some
    simp del: handle_coordinator_message.simps split: if_splits option.splits list.splits effect.splits)+

section \<open>A request that was accepted once\<close>

definition accepted :: "string \<Rightarrow> ('db, 'sk, 'lk, 'kg, 'mk, 'off, 'mo, 'cos, 'ps) whole \<Rightarrow> request list" where
  "accepted rid s = filter (\<lambda>r. request_id r = rid) (mi_tx (wh_imp s))"

text \<open>The statuses in the responses for a request, in the order in which they were sent.\<close>

definition statuses_sent :: "string \<Rightarrow> ('db, 'sk, 'lk, 'kg, 'mk, 'off, 'mo, 'cos, 'ps) whole \<Rightarrow> i32 list" where
  "statuses_sent rid s =
     map cr_request_status (filter (\<lambda>r. cr_request_id r = rid) (mi_tx_res (wh_imp s)))"

text \<open>
  The request is in the phase \<open>ph\<close>: the effects of the coordinator and the reports of the actors are
  those of the phase, it left \<open>Waiting\<close> only when it was taken, and what was sent is its reception
  and what the phase says.
\<close>

definition in_phase ::
  "string \<Rightarrow> ('db, 'sk, 'lk, 'kg, 'mk, 'off, 'mo, 'cos, 'ps) whole \<Rightarrow> phase \<Rightarrow> bool" where
  "in_phase rid s ph \<longleftrightarrow> at_phase rid s ph \<and>
     (ph \<noteq> Waiting \<longrightarrow> (\<exists>r \<in> set (take (wh_taken s) (mi_tx (wh_imp s))). request_id r = rid)) \<and>
     statuses_sent rid s = map (\<lambda>r. request_status_i32 Received) (accepted rid s) @ said (trace ph)"

lemma filter_one_left:
  assumes "length (filter P xs) \<le> 1" and "n < length xs" and "P (xs ! n)"
  shows "\<forall>x \<in> set (take n xs). \<not> P x"
proof -
  have "length (filter P (take n xs @ xs ! n # drop (Suc n) xs)) \<le> 1"
    using assms(1) by (simp flip: id_take_nth_drop [OF assms(2)])
  with assms(3) have "filter P (take n xs) = []" by simp
  then show ?thesis by (simp add: filter_empty_conv)
qed

lemma received_simps [simp]:
  "cr_request_id (received r) = request_id r"
  "cr_request_status (received r) = request_status_i32 Received"
  by (simp_all add: received_def)

lemma map_filter_received:
  "map cr_request_status (filter (\<lambda>r. cr_request_id r = rid) (map received rs)) =
     map (\<lambda>r. request_status_i32 Received) (filter (\<lambda>r. request_id r = rid) rs)"
  by (induction rs) simp_all

lemma in_phase_step:
  assumes l: "linked s" and sound: "sound_actors M kspent ospent s" and up: "channels_open s"
    and step: "whole_step E M e s = Some s'"
    and once: "length (accepted rid s') \<le> 1" and ph: "in_phase rid s ph"
  shows "\<exists>ph'. in_phase rid s' ph' \<and> (ph' = ph \<or> advances ph ph')"
proof -
  from whole_step_channels [OF step up] obtain rs
    where rs: "rs = [] \<or> step_responses s s' = []" and tx: "mi_tx (wh_imp s') = mi_tx (wh_imp s) @ rs"
      and tx_res: "mi_tx_res (wh_imp s') = mi_tx_res (wh_imp s) @ map received rs @ step_responses s s'"
    by blast
  let ?P = "\<lambda>r. request_id r = rid" and ?tx = "mi_tx (wh_imp s)"
  have acc: "length (filter ?P ?tx) \<le> 1" using once by (simp add: accepted_def tx)
  have taking: "wh_taken s < length ?tx" "?P (?tx ! wh_taken s)" "wh_taken s' = Suc (wh_taken s)"
    if "takes_request e s rid"
    using that whole_step_taken [OF step] by (auto simp: takes_request_def)
  have "ph = Waiting" if t: "takes_request e s rid"
    using ph filter_one_left [OF acc taking(1,2) [OF t]] by (auto simp: in_phase_def)
  from phase_step [OF l sound step _ this] ph obtain ph' where at': "at_phase rid s' ph'"
    and adv: "ph' = ph \<or> advances ph ph'"
    and leaves: "ph = Waiting \<longrightarrow> ph' = Waiting \<or> takes_request e s rid"
    by (auto simp: in_phase_def)
  have "ph' = Waiting \<or> ph \<noteq> Waiting \<or> takes_request e s rid" using leaves by blast
  then have taken: "\<exists>r \<in> set (take (wh_taken s') (mi_tx (wh_imp s'))). ?P r" if "ph' \<noteq> Waiting"
  proof (elim disjE)
    assume "ph \<noteq> Waiting"
    with ph obtain r where r: "r \<in> set (take (wh_taken s) ?tx)" "?P r" by (auto simp: in_phase_def)
    have "wh_taken s \<le> wh_taken s'"
      using whole_step_taken(1) [OF step] by (simp split: whole_event.splits)
    then have "set (take (wh_taken s) ?tx) \<subseteq> set (take (wh_taken s') ?tx)" by (rule set_take_subset_set_take)
    with r show ?thesis by (auto simp: tx)
  next
    assume t: "takes_request e s rid"
    have "?tx ! wh_taken s \<in> set (take (wh_taken s') (mi_tx (wh_imp s')))"
      using taking [OF t] by (simp add: tx take_Suc_conv_app_nth)
    with taking(2) [OF t] show ?thesis by blast
  qed (use that in simp)
  from whole_step_adds [OF l step] obtain es where es: "co_out (wh_node s') = co_out (wh_node s) @ es"
    by (auto simp: adds_def)
  have new: "said (trace ph') = said (trace ph) @ said (milestones rid es)"
    using at' ph es by (simp add: at_phase_def in_phase_def flip: said_append)
  have "statuses_sent rid s' = map (\<lambda>r. request_status_i32 Received) (accepted rid s') @ said (trace ph')"
    using rs
  proof
    assume "rs = []"
    with ph show ?thesis
      by (simp add: statuses_sent_def accepted_def tx tx_res step_responses_def es said_milestones new in_phase_def)
  next
    assume none: "step_responses s s' = []"
    then have "responses es = []" by (simp add: step_responses_def es)
    with said_milestones [of rid es] have "said (milestones rid es) = []" by simp
    with ph none show ?thesis
    proof (cases "filter ?P rs = []")
      case False
      with once have "filter ?P ?tx = []" by (cases "filter ?P ?tx"; cases "filter ?P rs") (simp_all add: accepted_def tx)
      with ph have "ph = Waiting" by (auto simp: in_phase_def filter_empty_conv dest: in_set_takeD)
      with ph none \<open>said (milestones rid es) = []\<close> show ?thesis
        by (simp add: statuses_sent_def accepted_def tx tx_res in_phase_def new map_filter_received)
    qed (simp add: statuses_sent_def accepted_def tx tx_res in_phase_def new map_filter_received)
  qed
  with at' adv taken show ?thesis by (auto simp: in_phase_def)
qed

lemma accepted_grows:
  assumes "whole_step E M e s = Some s'" and "channels_open s"
  shows "length (accepted rid s) \<le> length (accepted rid s')"
    and "\<exists>rs. mi_tx_res (wh_imp s') = mi_tx_res (wh_imp s) @ rs"
  using whole_step_channels [OF assms] by (auto simp: accepted_def)

lemma reachable_facts:
  assumes "whole_reachable E M sk shares results s"
    and laws: "picks_once (mc_keygen M) kspent" "picks_once (mc_offline M) ospent"
  shows "sound_actors M kspent ospent s \<and> channels_open s"
  using assms(1)
proof induction
  case begin_whole
  then show ?case
    by (simp add: sound_actors_def sound_def channels_open_def whole_new_def mpc_imp_new_def)
next
  case (continue_whole s e s')
  from continue_whole(1) have "linked s" by (rule linked_reachable)
  with continue_whole sound_actors_step [OF laws this _ continue_whole(2)]
    whole_step_channels [OF continue_whole(2)]
  show ?case by blast
qed

lemma waiting_at_first: "in_phase rid (whole_new E sk shares results) Waiting"
  by (simp add: in_phase_def at_phase_def whole_new_def coordinator_new_def mpc_imp_new_def
      reported_keygen_def reported_offline_def reported_signer_def has_reported_def
      statuses_sent_def accepted_def)

lemma request_phase:
  assumes "whole_reachable E M sk shares results s"
    and laws: "picks_once (mc_keygen M) kspent" "picks_once (mc_offline M) ospent"
    and "length (accepted rid s) \<le> 1"
  shows "\<exists>ph. in_phase rid s ph"
  using assms(1,4)
proof induction
  case begin_whole
  show ?case by (rule exI, rule waiting_at_first)
next
  case (continue_whole s e s')
  from reachable_facts [OF continue_whole(1) laws]
  have f: "sound_actors M kspent ospent s" "channels_open s" by simp_all
  from continue_whole accepted_grows(1) [OF continue_whole(2) f(2), of rid] obtain ph where "in_phase rid s ph"
    by auto
  from in_phase_step [OF linked_reachable [OF continue_whole(1)] f continue_whole(2,4) this] show ?case by blast
qed

text \<open>The statuses that a request goes through, in order.\<close>

definition courses :: "request_status list list" where
  "courses = [[Received, Processing, Done], [Received, Processing, Error],
     [Received, Processing, Processing, Done]]"

lemma course_of_phase:
  assumes "in_phase rid s ph" and "length (accepted rid s) \<le> 1"
  shows "\<exists>sts course. course \<in> set courses \<and> prefix sts course \<and>
    statuses_sent rid s = map request_status_i32 sts"
proof -
  have course: ?thesis
    if "statuses_sent rid s = map request_status_i32 sts" "course \<in> set courses" "prefix sts course"
    for sts course
    using that by blast
  have none: "accepted rid s = [] \<Longrightarrow> ph = Waiting"
    using assms(1) by (auto simp: in_phase_def accepted_def filter_empty_conv dest: in_set_takeD)
  consider (none) "accepted rid s = []" | (one) r where "accepted rid s = [r]"
    using assms(2) by (cases "accepted rid s") auto
  then show ?thesis
  proof cases
    case none
    with \<open>accepted rid s = [] \<Longrightarrow> ph = Waiting\<close> assms(1) show ?thesis
      by (intro course [of "[]" "[Received, Processing, Done]"]) (simp_all add: in_phase_def courses_def)
  next
    case one
    then have st: "statuses_sent rid s = request_status_i32 Received # said (trace ph)"
      using assms(1) by (simp add: in_phase_def)
    show ?thesis
    proof (cases ph)
      case Waiting
      with st show ?thesis by (intro course [of "[Received]" "[Received, Processing, Done]"]) (simp_all add: courses_def)
    next
      case Stalled
      with st show ?thesis by (intro course [of "[Received, Processing]" "[Received, Processing, Done]"]) (simp_all add: courses_def)
    next
      case (Generating a)
      with st show ?thesis by (intro course [of "[Received, Processing]" "[Received, Processing, Done]"]) (simp_all add: courses_def)
    next
      case (Generated a)
      with st show ?thesis by (intro course [of "[Received, Processing, Done]" "[Received, Processing, Done]"]) (simp_all add: courses_def)
    next
      case (Preparing a)
      with st show ?thesis by (intro course [of "[Received, Processing]" "[Received, Processing, Processing, Done]"]) (simp_all add: courses_def)
    next
      case (Failed a)
      with st show ?thesis by (intro course [of "[Received, Processing, Error]" "[Received, Processing, Error]"]) (simp_all add: courses_def)
    next
      case (Signing a b)
      with st show ?thesis by (intro course [of "[Received, Processing, Processing]" "[Received, Processing, Processing, Done]"]) (simp_all add: courses_def)
    next
      case (Signed a b)
      with st show ?thesis by (intro course [of "[Received, Processing, Processing, Done]" "[Received, Processing, Processing, Done]"]) (simp_all add: courses_def)
    qed
  qed
qed

section \<open>What a client is shown\<close>

definition stored_results ::
  "('db, 'sk, 'pk, 'sg, 'lk, 'kg, 'mk, 'off, 'mo, 'ps) cenv \<Rightarrow> 'db \<Rightarrow>
   ('db, 'sk, 'lk, 'kg, 'mk, 'off, 'mo, 'cos, 'ps) whole \<Rightarrow> bool" where
  "stored_results E results s \<longleftrightarrow> wh_stored s \<le> length (mi_tx_res (wh_imp s)) \<and>
     mi_results_db (wh_imp s) = handle_response E results (take (wh_stored s) (mi_tx_res (wh_imp s)))"

lemma fold_tx_res_db [simp]: "mi_results_db (fold tx_res_send rs i) = mi_results_db i"
  by (induction rs arbitrary: i) (simp_all add: tx_res_send_def)

lemma calls_keep_db [simp]:
  "mi_results_db (fst (keygen E req i)) = mi_results_db i"
  "mi_results_db (fst (sign E' req' i)) = mi_results_db i"
  by (simp_all add: keygen_cases sign_cases tx_res_send_def)

lemma whole_step_stored:
  assumes "whole_step E M e s = Some s'"
  shows "wh_stored s' = (if e = Store then wh_stored s + 1 else wh_stored s)"
    and "e = Store \<Longrightarrow> wh_stored s < length (mi_tx_res (wh_imp s))"
    and "mi_results_db (wh_imp s') = (if e = Store
      then fst (save_result E (mi_results_db (wh_imp s)) (mi_tx_res (wh_imp s) ! wh_stored s))
      else mi_results_db (wh_imp s))"
  using assms by (cases e; auto simp: bind_eq_Some_conv node_moves_Some
    simp del: handle_coordinator_message.simps split: if_splits option.splits list.splits effect.splits)+

lemma stored_results_step:
  assumes st: "stored_results E results s" and up: "channels_open s" and step: "whole_step E M e s = Some s'"
  shows "stored_results E results s'" and "wh_stored s \<le> wh_stored s'"
proof -
  from accepted_grows(2) [OF step up] obtain rs
    where rs: "mi_tx_res (wh_imp s') = mi_tx_res (wh_imp s) @ rs" by blast
  with st whole_step_stored [OF step] show "stored_results E results s'" "wh_stored s \<le> wh_stored s'"
    by (auto simp: stored_results_def take_Suc_conv_app_nth nth_append handle_response_append)
qed

lemma stored_results_run:
  assumes "whole_run E M es s = Some s'" and "stored_results E results s" and "channels_open s"
  shows "stored_results E results s' \<and> channels_open s' \<and> wh_stored s \<le> wh_stored s' \<and>
    prefix (mi_tx_res (wh_imp s)) (mi_tx_res (wh_imp s')) \<and>
    length (accepted rid s) \<le> length (accepted rid s')"
  using assms
proof (induction es arbitrary: s)
  case (Cons e es)
  from Cons.prems(1) obtain t where t: "whole_step E M e s = Some t" "whole_run E M es t = Some s'"
    by (auto simp: bind_eq_Some_conv)
  note step = stored_results_step [OF Cons.prems(2,3) t(1)]
  from whole_step_channels [OF t(1) Cons.prems(3)] have "channels_open t" by blast
  from Cons.IH [OF t(2) step(1) this] step(2) accepted_grows(2) [OF t(1) Cons.prems(3)]
    accepted_grows(1) [OF t(1) Cons.prems(3), of rid]
  show ?case by (auto simp: prefix_def)
qed simp

lemma stored_results_reachable:
  assumes "whole_reachable E M sk shares results s"
  shows "stored_results E results s \<and> channels_open s"
  using assms
proof induction
  case begin_whole
  show ?case by (simp add: stored_results_def channels_open_def whole_new_def mpc_imp_new_def)
next
  case (continue_whole s e s')
  with stored_results_step [of E results s M e s'] whole_step_channels [OF continue_whole(2)]
  show ?case by blast
qed

text \<open>\<open>check_result\<close> shows the last response that was stored; in a course the statuses only go up.\<close>

lemma shown_result:
  assumes "results_laws E view"
    and "view results (cq_request_id q) = None \<or>
      last_response (cq_request_id q) (take (wh_stored s) (mi_tx_res (wh_imp s))) \<noteq> None"
    and "stored_results E results s"
  shows "check_result E q (wh_imp s) =
    (case last_response (cq_request_id q) (take (wh_stored s) (mi_tx_res (wh_imp s))) of
       None \<Rightarrow> Err (Not_found ''Not found'')
     | Some r \<Rightarrow> Ok r)"
proof -
  let ?rs = "take (wh_stored s) (mi_tx_res (wh_imp s))"
  have "wh_imp s = (wh_imp s)\<lparr>mi_results_db := handle_response E results ?rs\<rparr>"
    using assms(3) by (cases "wh_imp s") (simp add: stored_results_def)
  with check_result_after [OF assms(1,2), of "wh_imp s"] show ?thesis by simp
qed

lemma courses_sorted: "course \<in> set courses \<Longrightarrow> prefix sts course \<Longrightarrow> sorted sts"
  by (auto simp: courses_def prefix_Cons)

section \<open>A server whose stream has ended\<close>

lemma stopped_step:
  assumes "whole_step E M e s = Some s'" and "wh_stopped s"
  shows "wh_stopped s' \<and> wh_node s' = wh_node s"
  using assms by (cases e) (auto simp: bind_eq_Some_conv node_moves_def
    simp del: handle_coordinator_message.simps split: if_splits option.splits list.splits effect.splits)

lemma stopped_run:
  assumes "whole_run E M es s = Some s'" and "wh_stopped s" and "channels_open s"
  shows "\<exists>rs. wh_node s' = wh_node s \<and> channels_open s' \<and> mi_tx (wh_imp s') = mi_tx (wh_imp s) @ rs \<and>
    mi_tx_res (wh_imp s') = mi_tx_res (wh_imp s) @ map received rs"
  using assms
proof (induction es arbitrary: s)
  case (Cons e es)
  from Cons.prems(1) obtain t where t: "whole_step E M e s = Some t" "whole_run E M es t = Some s'"
    by (auto simp: bind_eq_Some_conv)
  from stopped_step [OF t(1) Cons.prems(2)] have st: "wh_stopped t" "wh_node t = wh_node s" by simp_all
  from whole_step_channels [OF t(1) Cons.prems(3)] st(2) obtain rs where rs: "channels_open t"
    "mi_tx (wh_imp t) = mi_tx (wh_imp s) @ rs" "mi_tx_res (wh_imp t) = mi_tx_res (wh_imp s) @ map received rs"
    by auto
  from Cons.IH [OF t(2) st(1) rs(1)] obtain rs' where "wh_node s' = wh_node s" "channels_open s'"
    "mi_tx (wh_imp s') = mi_tx (wh_imp s) @ (rs @ rs')"
    "mi_tx_res (wh_imp s') = mi_tx_res (wh_imp s) @ map received (rs @ rs')"
    by (auto simp: st(2) rs)
  then show ?case by blast
qed simp

end
