(* ===== verification/Whole_Trust.thy ===== *)
theory Whole_Trust
  imports Whole_Requests
begin

text \<open>
  Every run of the whole server is, seen from the coordinator, a run of the node of \<open>Node\<close>, with the
  requests that the service accepted. So what holds of the node holds of the whole; with the
  addresses of the actors it holds of what each player and signer finds in its mailbox.
\<close>

lemma submitted_later:
  assumes "whole_step E M e s = Some s'" and "channels_open s" and "submitted s m"
  shows "submitted s' m"
  using whole_step_channels [OF assms(1,2)] assms(3) by (auto simp: submitted_def)

lemma whole_node_submitted:
  assumes "whole_reachable E M sk shares results s" and "\<And>m. submitted s m \<Longrightarrow> admit m"
  shows "node_reachable E admit sk shares (wh_node s)"
  using assms
proof (induction)
  case begin_whole
  show ?case by (simp add: whole_new_def node_reachable.start)
next
  case (continue_whole s e s')
  have open': "channels_open s" using stored_results_reachable [OF continue_whole(1)] by simp
  have admit: "admit m" if "submitted s m" for m
    using continue_whole.prems submitted_later [OF continue_whole(2) open' that] by simp
  from continue_whole.IH admit have r: "node_reachable E admit sk shares (wh_node s)" by simp
  from whole_step_node [OF linked_reachable [OF continue_whole(1)] continue_whole(2)] show ?case
  proof
    assume "wh_node s' = wh_node s"
    with r show ?thesis by simp
  next
    assume "node_step E (submitted s) (wh_node s) (wh_node s')"
    then have "node_step E admit (wh_node s) (wh_node s')" by (rule node_step_mono) (rule admit)
    with r show ?thesis by (rule node_reachable.continue)
  qed
qed

lemma map_filter_distinct:
  assumes "distinct (List.map_filter f xs)" and "x \<in> set xs" "y \<in> set xs" and "f x = Some a" "f y = Some a"
  shows "x = y"
  using assms
proof (induction xs)
  case (Cons z zs)
  have "a \<in> set (List.map_filter f zs)" if "u \<in> set zs" "f u = Some a" for u
    using that by (auto simp: map_filter_member)
  with Cons show ?case by (auto simp: List.map_filter_simps split: option.splits)
qed simp

lemma started_once:
  assumes "node_inv E view sk c"
  shows "Start_keygen a p \<in> set (co_out c) \<Longrightarrow> Start_keygen a q \<in> set (co_out c) \<Longrightarrow> p = q"
    and "Start_offline a p' \<in> set (co_out c) \<Longrightarrow> Start_offline a q' \<in> set (co_out c) \<Longrightarrow> p' = q'"
    and "Start_signer a g \<in> set (co_out c) \<Longrightarrow> Start_signer a h \<in> set (co_out c) \<Longrightarrow> g = h"
proof -
  have d: "distinct (List.map_filter start_addr (co_out c))" using assms by (simp add: node_inv_def)
  note same = map_filter_distinct [OF d, where a = a]
  show "p = q" if "Start_keygen a p \<in> set (co_out c)" "Start_keygen a q \<in> set (co_out c)"
    using same [OF that] by simp
  show "p' = q'" if "Start_offline a p' \<in> set (co_out c)" "Start_offline a q' \<in> set (co_out c)"
    using same [OF that] by simp
  show "g = h" if "Start_signer a g \<in> set (co_out c)" "Start_signer a h \<in> set (co_out c)"
    using same [OF that] by simp
qed

text \<open>What an actor of the room finds in its mailbox.\<close>

definition meant_for ::
  "('db, 'sk, 'pk, 'sg, 'lk, 'x) env_scheme \<Rightarrow> ('db \<Rightarrow> string \<Rightarrow> string option) \<Rightarrow> 'sk \<Rightarrow> 'db \<Rightarrow> string \<Rightarrow>
   'm msg incoming_message \<Rightarrow> bool" where
  "meant_for E view sk db room im \<longleftrightarrow>
     trusted E view sk db (im_wire_message im) \<and> im_room im = room \<and> w_room (im_wire_message im) = room"

lemma mailbox_meant_for:
  assumes inv: "node_inv E view sk (wh_node s)" and l: "linked s"
  shows "wh_kg s a = Some k \<Longrightarrow> im \<in> set (inbox_keygen a (co_out (wh_node s))) \<Longrightarrow>
      meant_for E view sk (co_db (wh_node s)) (pl_room (ac_state k)) im"
    and "wh_off s a = Some p \<Longrightarrow> im' \<in> set (inbox_offline a (co_out (wh_node s))) \<Longrightarrow>
      meant_for E view sk (co_db (wh_node s)) (pl_room (ac_state p)) im'"
    and "wh_sig s a = Some g \<Longrightarrow> im'' \<in> set (inbox_signer a (co_out (wh_node s))) \<Longrightarrow>
      meant_for E view sk (co_db (wh_node s)) (st_room (sn_task (ac_state g))) im''"
proof -
  note ok = node_inv_effect [OF inv]
  show "meant_for E view sk (co_db (wh_node s)) (pl_room (ac_state k)) im"
    if "wh_kg s a = Some k" "im \<in> set (inbox_keygen a (co_out (wh_node s)))"
  proof -
    from that(2) ok [of "Deliver_keygen a im"] obtain q where "Start_keygen a q \<in> set (co_out (wh_node s))"
      "pl_room q = im_room im" "trusted E view sk (co_db (wh_node s)) (im_wire_message im)"
      "w_room (im_wire_message im) = im_room im"
      by (auto simp: keygen_started_def)
    moreover from linkedD(2) [OF l that(1)] obtain p where "Start_keygen a p \<in> set (co_out (wh_node s))"
      "pl_room (ac_state k) = pl_room p" by (auto simp: player_linked_def player_frame_def)
    ultimately show ?thesis using started_once(1) [OF inv] by (metis meant_for_def)
  qed
  show "meant_for E view sk (co_db (wh_node s)) (pl_room (ac_state p)) im'"
    if "wh_off s a = Some p" "im' \<in> set (inbox_offline a (co_out (wh_node s)))"
  proof -
    from that(2) ok [of "Deliver_offline a im'"] obtain q where "Start_offline a q \<in> set (co_out (wh_node s))"
      "pl_room q = im_room im'" "trusted E view sk (co_db (wh_node s)) (im_wire_message im')"
      "w_room (im_wire_message im') = im_room im'"
      by (auto simp: offline_started_def)
    moreover from linkedD(3) [OF l that(1)] obtain p0 where "Start_offline a p0 \<in> set (co_out (wh_node s))"
      "pl_room (ac_state p) = pl_room p0" by (auto simp: player_linked_def player_frame_def)
    ultimately show ?thesis using started_once(2) [OF inv] by (metis meant_for_def)
  qed
  show "meant_for E view sk (co_db (wh_node s)) (st_room (sn_task (ac_state g))) im''"
    if "wh_sig s a = Some g" "im'' \<in> set (inbox_signer a (co_out (wh_node s)))"
  proof -
    from that(2) ok [of "Deliver_signer a im''"] obtain q where "Start_signer a q \<in> set (co_out (wh_node s))"
      "st_room (sn_task q) = im_room im''" "trusted E view sk (co_db (wh_node s)) (im_wire_message im'')"
      "w_room (im_wire_message im'') = im_room im''"
      by (auto simp: signer_of_room_def)
    moreover from linkedD(4) [OF l that(1)] obtain g0 where "Start_signer a g0 \<in> set (co_out (wh_node s))"
      "sn_task (ac_state g) = sn_task g0" by (auto simp: signer_linked_def)
    ultimately show ?thesis using started_once(3) [OF inv] by (metis meant_for_def)
  qed
qed

end
