(* ===== verification/Whole_Progress.thy ===== *)
theory Whole_Progress
  imports Whole_Trust
begin

text \<open>
  Progress of the whole server: while the transport is up, the coordinator never fails on what an
  actor has sent, so that the messages of an actor can be handled up to its last one, and then the
  end of its work has been reported.
\<close>

section \<open>The coordinator handles whatever an actor sends\<close>

lemma outgoing_Ok:
  "\<exists>c'. handle_coordinator_message E now (Outgoing m) c = (c', Ok ())"
  by (cases "maybe_encrypt E (co_db c) m") simp_all

lemma react_keygen_Ok:
  assumes x: "x \<in> set (pl_out q)" and l: "player_linked mb p q"
    and "push_prefixes (kr_participant_public_keys (pl_input p)) [] \<noteq> None"
  shows "\<exists>c'. react_keygen E now x c = (c', Ok ())"
proof (cases x)
  case (To_broker m)
  with x l have "well_addressed (pl_input q) (pl_room q) x"
    by (auto simp: player_linked_def player_inv_def list_all_iff)
  with To_broker obtain cm where "m = Outgoing cm" by (cases m) simp_all
  with To_broker show ?thesis by (simp add: outgoing_Ok del: handle_coordinator_message.simps)
next
  case (To_collector out)
  with x l have "po_input out = pl_input p"
    by (auto simp: player_linked_def player_inv_def player_frame_def list_all_iff)
  with assms(3) obtain g where "group_new (kr_participant_public_keys (po_input out))
      (ucast (kr_threshold (po_input out))) (co_pk_str c) = Some g"
    by (auto simp: group_new_def)
  from handle_output_keygen_eq [OF this, of E] To_collector show ?thesis by simp
qed simp_all

lemma react_offline_Ok:
  assumes x: "x \<in> set (pl_out q)" and l: "player_linked mb p q"
  shows "\<exists>c'. react_offline E now x c = (c', Ok ())"
proof (cases x)
  case (To_broker m)
  with x l have "well_addressed (pl_input q) (pl_room q) x"
    by (auto simp: player_linked_def player_inv_def list_all_iff)
  with To_broker obtain cm where "m = Outgoing cm" by (cases m) simp_all
  with To_broker show ?thesis by (simp add: outgoing_Ok del: handle_coordinator_message.simps)
qed simp_all

lemma react_signer_Ok: "\<exists>c'. react_signer E now x c = (c', Ok ())"
  by (cases x) (simp_all add: outgoing_Ok del: handle_coordinator_message.simps)

lemma node_moves_Ok:
  assumes "\<exists>c'. r = (c', Ok ())" and "\<not> wh_stopped s"
  shows "\<exists>s'. node_moves r s = Some s' \<and> \<not> wh_stopped s' \<and>
    wh_kg s' = wh_kg s \<and> wh_off s' = wh_off s \<and> wh_sig s' = wh_sig s"
  using assms by (auto simp: node_moves_def)

section \<open>An actor's messages are handled to the end\<close>

text \<open>While the transport is up, the next message of an actor can be handled.\<close>

lemma emit_keygen_moves:
  assumes l: "linked s" and up: "\<not> wh_stopped s" and ac: "wh_kg s a = Some ac"
    and n: "ac_sent ac < length (pl_out (ac_state ac))"
  shows "\<exists>s'. whole_step E M (Emit_keygen a now) s = Some s' \<and> wh_kg s' a = Some (handled ac) \<and> \<not> wh_stopped s'"
proof -
  from linkedD(2) [OF l ac] obtain p where p: "Start_keygen a p \<in> set (co_out (wh_node s))"
    and pl: "player_linked (inbox_keygen a (co_out (wh_node s))) p (ac_state ac)" by blast
  from p linkedD(1) [OF l] have "push_prefixes (kr_participant_public_keys (pl_input p)) [] \<noteq> None"
    by (force simp: list_all_iff)
  from node_moves_Ok [OF react_keygen_Ok [OF nth_mem [OF n] pl this],
      of "s\<lparr>wh_kg := (wh_kg s)(a \<mapsto> handled ac)\<rparr>" E now "wh_node s"] up ac n
  show ?thesis by fastforce
qed

lemma emit_offline_moves:
  assumes l: "linked s" and up: "\<not> wh_stopped s" and ac: "wh_off s a = Some ac"
    and n: "ac_sent ac < length (pl_out (ac_state ac))"
  shows "\<exists>s'. whole_step E M (Emit_offline a now) s = Some s' \<and> wh_off s' a = Some (handled ac) \<and> \<not> wh_stopped s'"
proof -
  from linkedD(3) [OF l ac] obtain p
    where pl: "player_linked (inbox_offline a (co_out (wh_node s))) p (ac_state ac)" by blast
  from node_moves_Ok [OF react_offline_Ok [OF nth_mem [OF n] pl],
      of "s\<lparr>wh_off := (wh_off s)(a \<mapsto> handled ac)\<rparr>" E now "wh_node s"] up ac n
  show ?thesis by fastforce
qed

lemma emit_signer_moves:
  assumes up: "\<not> wh_stopped s" and ac: "wh_sig s a = Some ac"
    and n: "ac_sent ac < length (sn_out (ac_state ac))"
  shows "\<exists>s'. whole_step E M (Emit_signer a now) s = Some s' \<and> wh_sig s' a = Some (handled ac) \<and> \<not> wh_stopped s'"
  using node_moves_Ok [OF react_signer_Ok,
      of "s\<lparr>wh_sig := (wh_sig s)(a \<mapsto> handled ac)\<rparr>" E now _ "wh_node s"] up ac n
  by fastforce

text \<open>A channel that always moves on by one message ends up empty.\<close>

locale channel =
  fixes E :: "('db, 'sk, 'pk, 'sg, 'lk, 'kg, 'mk, 'off, 'mo, 'ps) cenv"
    and M :: "('lk, 'kg, 'mk, 'off, 'mo, 'cos, 'man, 'ps) machines"
    and emit_event :: whole_event
    and actor :: "('db, 'sk, 'lk, 'kg, 'mk, 'off, 'mo, 'cos, 'ps) whole \<Rightarrow> 'p actor option"
    and out_of :: "'p \<Rightarrow> 'x list"
  assumes moves: "linked s \<Longrightarrow> \<not> wh_stopped s \<Longrightarrow> actor s = Some ac \<Longrightarrow>
      ac_sent ac < length (out_of (ac_state ac)) \<Longrightarrow>
      \<exists>s'. whole_step E M emit_event s = Some s' \<and> actor s' = Some (handled ac) \<and> \<not> wh_stopped s'"
begin

lemma drains:
  assumes "linked s" and "\<not> wh_stopped s" and "actor s = Some ac"
    and "ac_sent ac + n = length (out_of (ac_state ac))"
  shows "\<exists>s'. whole_run E M (replicate n emit_event) s = Some s' \<and>
    actor s' = Some (ac\<lparr>ac_sent := length (out_of (ac_state ac))\<rparr>)"
  using assms
proof (induction n arbitrary: s ac)
  case 0
  then show ?case by (cases ac) simp
next
  case (Suc n)
  then obtain s' where s': "whole_step E M emit_event s = Some s'" "actor s' = Some (handled ac)" "\<not> wh_stopped s'"
    using moves [of s ac] by auto
  from linked_step [OF Suc.prems(1) s'(1)] s'(2,3) Suc.prems(4) Suc.IH [of s' "handled ac"] s'(1)
  show ?case by (simp add: handled_def)
qed

lemma finishes:
  assumes "linked s" and "\<not> wh_stopped s" and "actor s = Some ac" and "sound out_of ok (actor s)"
    and "owner (ac_state ac) = rid" and "list_ex final (out_of (ac_state ac))"
  shows "\<exists>t. whole_run E M (replicate (length (out_of (ac_state ac)) - ac_sent ac) emit_event) s = Some t \<and>
    has_reported out_of final owner rid (actor t)"
proof -
  have "ac_sent ac + (length (out_of (ac_state ac)) - ac_sent ac) = length (out_of (ac_state ac))"
    using assms(3,4) by (simp add: sound_def)
  from drains [OF assms(1-3) this] obtain t
    where "whole_run E M (replicate (length (out_of (ac_state ac)) - ac_sent ac) emit_event) s = Some t"
      "actor t = Some (ac\<lparr>ac_sent := length (out_of (ac_state ac))\<rparr>)" by blast
  with assms(5,6) show ?thesis by (auto simp: has_reported_def)
qed

end

interpretation keygen_channel: channel E M "Emit_keygen a now" "\<lambda>s. wh_kg s a" pl_out
  for E :: "('db, 'sk, 'pk, 'sg, 'lk, 'kg, 'mk, 'off, 'mo, 'ps) cenv"
    and M :: "('lk, 'kg, 'mk, 'off, 'mo, 'cos, 'man, 'ps) machines" and a now
  by unfold_locales (rule emit_keygen_moves)

interpretation offline_channel: channel E M "Emit_offline a now" "\<lambda>s. wh_off s a" pl_out
  for E :: "('db, 'sk, 'pk, 'sg, 'lk, 'kg, 'mk, 'off, 'mo, 'ps) cenv"
    and M :: "('lk, 'kg, 'mk, 'off, 'mo, 'cos, 'man, 'ps) machines" and a now
  by unfold_locales (rule emit_offline_moves)

interpretation signer_channel: channel E M "Emit_signer a now" "\<lambda>s. wh_sig s a" sn_out
  for E :: "('db, 'sk, 'pk, 'sg, 'lk, 'kg, 'mk, 'off, 'mo, 'ps) cenv"
    and M :: "('lk, 'kg, 'mk, 'off, 'mo, 'cos, 'man, 'ps) machines" and a now
  by unfold_locales (rule emit_signer_moves)

text \<open>A call is the only event that accepts a request.\<close>

lemma emits_accept_nothing:
  assumes "whole_run E M (replicate n e) s = Some s'"
    and "e \<in> {Emit_keygen a now, Emit_offline a now, Emit_signer a now}" and "channels_open s"
  shows "mi_tx (wh_imp s') = mi_tx (wh_imp s)"
  using assms(1,3)
proof (induction n arbitrary: s)
  case (Suc n)
  then obtain t where t: "whole_step E M e s = Some t" "whole_run E M (replicate n e) t = Some s'"
    by (auto simp: bind_eq_Some_conv)
  have "mi_tx (wh_imp t) = mi_tx (wh_imp s) \<and> channels_open t"
    using t(1) assms(2) Suc.prems(2)
    by (auto simp: bind_eq_Some_conv node_moves_Some fold_tx_res_send channels_open_def split: if_splits)
  with Suc.IH [OF t(2)] show ?case by simp
qed simp

section \<open>What is then reported\<close>

lemma reported_at_end:
  assumes "in_phase rid s ph"
  shows "a \<in> reported_keygen rid s \<Longrightarrow> ph = Generated a"
    and "a \<in> reported_offline rid s \<Longrightarrow> ph = Failed a \<or> (\<exists>b. ph = Signing a b \<or> ph = Signed a b)"
    and "a \<in> reported_signer rid s \<Longrightarrow> \<exists>b. ph = Signed b a"
  using assms by (cases ph; simp add: in_phase_def at_phase_def)+

lemma one_accepted:
  assumes "in_phase rid s ph" and "ph \<noteq> Waiting" and "length (accepted rid s) \<le> 1"
  shows "statuses_sent rid s = request_status_i32 Received # said (trace ph)"
proof -
  have "accepted rid s \<noteq> []"
    using assms(1,2) by (auto simp: in_phase_def accepted_def filter_empty_conv dest: in_set_takeD)
  with assms(3) obtain r where "accepted rid s = [r]" by (cases "accepted rid s") auto
  with assms(1) show ?thesis by (simp add: in_phase_def)
qed

section \<open>The client is told\<close>

text \<open>The thread of the results stores what is in its channel.\<close>

lemma stores_all:
  assumes "wh_stored s + n = length (mi_tx_res (wh_imp s))"
  shows "\<exists>s'. whole_run E M (replicate n Store) s = Some s' \<and> wh_node s' = wh_node s \<and>
    mi_tx_res (wh_imp s') = mi_tx_res (wh_imp s) \<and> wh_stored s' = length (mi_tx_res (wh_imp s))"
  using assms
proof (induction n arbitrary: s)
  case (Suc n)
  let ?t = "s\<lparr>wh_stored := wh_stored s + 1, wh_imp := (wh_imp s)\<lparr>mi_results_db :=
    fst (save_result E (mi_results_db (wh_imp s)) (mi_tx_res (wh_imp s) ! wh_stored s))\<rparr>\<rparr>"
  from Suc.prems have "whole_step E M Store s = Some ?t" by simp
  with Suc.IH [of ?t] Suc.prems show ?case by simp
qed simp

lemma client_is_told:
  assumes results: "results_laws E view" and st: "stored_results E results s" "channels_open s"
    and ph: "in_phase (cq_request_id q) s ph" "ph \<noteq> Waiting" and once: "length (accepted (cq_request_id q) s) \<le> 1"
    and m: "m = length (mi_tx_res (wh_imp s)) - wh_stored s"
  shows "\<exists>s' r. whole_run E M (replicate m Store) s = Some s' \<and> wh_node s' = wh_node s \<and>
    check_result E q (wh_imp s') = Ok r \<and> cr_request_status r = last (said (trace ph))"
proof -
  let ?P = "\<lambda>r. cr_request_id r = cq_request_id q"
  have "wh_stored s + m = length (mi_tx_res (wh_imp s))"
    using st(1) m by (simp add: stored_results_def)
  from stores_all [OF this, of E M] obtain s' where s': "whole_run E M (replicate m Store) s = Some s'"
    "wh_node s' = wh_node s" "mi_tx_res (wh_imp s') = mi_tx_res (wh_imp s)"
    "wh_stored s' = length (mi_tx_res (wh_imp s))" by blast
  let ?rs = "filter ?P (mi_tx_res (wh_imp s))"
  have said: "said (trace ph) \<noteq> []" using ph(2) by (cases ph) simp_all
  with one_accepted [OF ph once] have "?rs \<noteq> []" "last (map cr_request_status ?rs) = last (said (trace ph))"
    by (auto simp: statuses_sent_def)
  with shown_result [OF results, of results q s'] stored_results_run [OF s'(1) st] s'
  show ?thesis by (simp add: last_response_def Let_def last_map)
qed

text \<open>An actor's messages are handled to the end, and the responses are stored.\<close>

lemma handled_then_stored:
  assumes laws: "picks_once (mc_keygen M) kspent" "picks_once (mc_offline M) ospent"
    and results: "results_laws E view" and reach: "whole_reachable E M sk shares results s"
    and once: "length (accepted (cq_request_id q) s) \<le> 1"
    and run: "whole_run E M (replicate n e) s = Some t"
    and e: "e \<in> {Emit_keygen a now, Emit_offline a now, Emit_signer a now}"
    and reported: "a \<in> reported_keygen (cq_request_id q) t \<union> reported_offline (cq_request_id q) t \<union>
      reported_signer (cq_request_id q) t"
  shows "\<exists>m s' r ph. whole_run E M (replicate n e @ replicate m Store) s = Some s' \<and>
    wh_node s' = wh_node t \<and> in_phase (cq_request_id q) t ph \<and>
    check_result E q (wh_imp s') = Ok r \<and> cr_request_status r = last (said (trace ph))"
proof -
  from reachable_facts [OF reach laws] have "channels_open s" by simp
  from emits_accept_nothing [OF run e this] once have once': "length (accepted (cq_request_id q) t) \<le> 1"
    by (simp add: accepted_def)
  note reach' = whole_reachable_run [OF reach run]
  from request_phase [OF reach' laws once'] obtain ph where ph: "in_phase (cq_request_id q) t ph" by blast
  from reported reported_at_end [OF ph, of a] have "ph \<noteq> Waiting" by auto
  with client_is_told [OF results _ _ ph _ once' refl, of results M] stored_results_reachable [OF reach']
  obtain s' r where "whole_run E M (replicate (length (mi_tx_res (wh_imp t)) - wh_stored t) Store) t = Some s'"
    "wh_node s' = wh_node t" "check_result E q (wh_imp s') = Ok r" "cr_request_status r = last (said (trace ph))"
    by blast
  with ph run show ?thesis by (intro exI [of _ ph] exI) (simp add: whole_run_append)
qed

lemma sound_actorD:
  assumes "sound_actors M kspent ospent s"
  shows "sound pl_out (\<lambda>p. picks_once (mc_keygen M) kspent \<and> gave_once kspent p) (wh_kg s a)"
    and "sound pl_out (\<lambda>p. picks_once (mc_offline M) ospent \<and> gave_once ospent p) (wh_off s a)"
    and "sound sn_out signed_once (wh_sig s a)"
  using assms by (simp_all add: sound_actors_def)

text \<open>When the offline stage is reported, it has failed or a signer was started for the request.\<close>

definition signer_started_for ::
  "string \<Rightarrow> ('db, 'sk, 'lk, 'kg, 'mk, 'off, 'mo, 'cos, 'ps) whole \<Rightarrow> bool" where
  "signer_started_for rid s \<longleftrightarrow>
     (\<exists>b g. Start_signer b g \<in> set (co_out (wh_node s)) \<and> sr_request_id (es_inner (sn_input g)) = rid)"

lemma signer_was_started:
  assumes "Signer_starts b \<in> set (milestones rid (co_out (wh_node s)))"
  shows "signer_started_for rid s"
proof -
  from assms obtain e where e: "e \<in> set (co_out (wh_node s))" "mark rid e = Some (Signer_starts b)"
    by (auto simp: milestones_def map_filter_member)
  from e(2) obtain g where "e = Start_signer b g" "sr_request_id (es_inner (sn_input g)) = rid"
    by (cases e) (auto split: if_splits)
  with e(1) show ?thesis by (auto simp: signer_started_for_def)
qed

lemma offline_end:
  assumes "in_phase rid s ph" and "a \<in> reported_offline rid s"
  shows "last (said (trace ph)) = request_status_i32 Error \<or> signer_started_for rid s"
  using reported_at_end(2) [OF assms] signer_was_started [of _ rid s] assms(1)
  by (auto simp: in_phase_def at_phase_def)

text \<open>What an actor has finished is handled, stored and shown.\<close>

lemma keygen_done_reaches_client:
  assumes laws: "picks_once (mc_keygen M) kspent" "picks_once (mc_offline M) ospent" and results: "results_laws E view"
    and reach: "whole_reachable E M sk shares results s" and up: "\<not> wh_stopped s"
    and once: "length (accepted (cq_request_id q) s) \<le> 1"
    and ac: "wh_kg s a = Some ac" "kr_request_id (pl_input (ac_state ac)) = cq_request_id q"
      "list_ex is_collector (pl_out (ac_state ac))"
  shows "\<exists>m s' r. whole_run E M (replicate (length (pl_out (ac_state ac)) - ac_sent ac) (Emit_keygen a now) @
      replicate m Store) s = Some s' \<and>
    check_result E q (wh_imp s') = Ok r \<and> cr_request_status r = request_status_i32 Done"
proof -
  from reachable_facts [OF reach laws] have sound: "sound_actors M kspent ospent s" by simp
  from keygen_channel.finishes [where E = E and M = M and now = now and owner = "\<lambda>p. kr_request_id (pl_input p)",
      OF linked_reachable [OF reach] up ac(1) sound_actorD(1) [OF sound] ac(2,3)] obtain t where
    t: "whole_run E M (replicate (length (pl_out (ac_state ac)) - ac_sent ac) (Emit_keygen a now)) s = Some t"
      "a \<in> reported_keygen (cq_request_id q) t" by (auto simp: reported_keygen_def)
  from handled_then_stored [OF laws results reach once t(1), of a now] t(2) reported_at_end(1) [OF _ t(2)]
  show ?thesis by fastforce
qed

lemma offline_done_reaches_client:
  assumes laws: "picks_once (mc_keygen M) kspent" "picks_once (mc_offline M) ospent" and results: "results_laws E view"
    and reach: "whole_reachable E M sk shares results s" and up: "\<not> wh_stopped s"
    and once: "length (accepted (cq_request_id q) s) \<le> 1"
    and ac: "wh_off s a = Some ac" "sr_request_id (es_inner (pl_input (ac_state ac))) = cq_request_id q"
      "list_ex is_collector (pl_out (ac_state ac))"
  shows "\<exists>m s' r. whole_run E M (replicate (length (pl_out (ac_state ac)) - ac_sent ac) (Emit_offline a now) @
      replicate m Store) s = Some s' \<and> check_result E q (wh_imp s') = Ok r \<and>
    (cr_request_status r = request_status_i32 Error \<or> signer_started_for (cq_request_id q) s')"
proof -
  from reachable_facts [OF reach laws] have sound: "sound_actors M kspent ospent s" by simp
  from offline_channel.finishes [where E = E and M = M and now = now and owner = "\<lambda>p. sr_request_id (es_inner (pl_input p))",
      OF linked_reachable [OF reach] up ac(1) sound_actorD(2) [OF sound] ac(2,3)] obtain t where
    t: "whole_run E M (replicate (length (pl_out (ac_state ac)) - ac_sent ac) (Emit_offline a now)) s = Some t"
      "a \<in> reported_offline (cq_request_id q) t" by (auto simp: reported_offline_def)
  from handled_then_stored [OF laws results reach once t(1), of a now] t(2) offline_end [OF _ t(2)]
  show ?thesis by (fastforce simp: signer_started_for_def)
qed

lemma signer_done_reaches_client:
  assumes laws: "picks_once (mc_keygen M) kspent" "picks_once (mc_offline M) ospent" and results: "results_laws E view"
    and reach: "whole_reachable E M sk shares results s" and up: "\<not> wh_stopped s"
    and once: "length (accepted (cq_request_id q) s) \<le> 1"
    and ac: "wh_sig s a = Some ac" "sr_request_id (es_inner (sn_input (ac_state ac))) = cq_request_id q"
      "list_ex is_result (sn_out (ac_state ac))"
  shows "\<exists>m s' r. whole_run E M (replicate (length (sn_out (ac_state ac)) - ac_sent ac) (Emit_signer a now) @
      replicate m Store) s = Some s' \<and>
    check_result E q (wh_imp s') = Ok r \<and> cr_request_status r = request_status_i32 Done"
proof -
  from reachable_facts [OF reach laws] have sound: "sound_actors M kspent ospent s" by simp
  from signer_channel.finishes [where E = E and M = M and now = now and owner = "\<lambda>p. sr_request_id (es_inner (sn_input p))",
      OF linked_reachable [OF reach] up ac(1) sound_actorD(3) [OF sound] ac(2,3)] obtain t where
    t: "whole_run E M (replicate (length (sn_out (ac_state ac)) - ac_sent ac) (Emit_signer a now)) s = Some t"
      "a \<in> reported_signer (cq_request_id q) t" by (auto simp: reported_signer_def)
  from handled_then_stored [OF laws results reach once t(1), of a now] t(2) reported_at_end(3) [OF _ t(2)]
  show ?thesis by fastforce
qed

end
