(* ===== verification/Whole_Panic.thy ===== *)
theory Whole_Panic
  imports Whole_Progress
begin

text \<open>
  What can end a server: every event that may happen in a reachable state does happen, unless the
  coordinator takes a request that it cannot serve, or gives a message to a sink that has lost its state. The proof is one of preservation, that the stored
  groups name this server, and one of progress, handler by handler.
\<close>

section \<open>Which events may happen\<close>

text \<open>Something is there to be taken, read or handled, and the coordinator has not been stopped.\<close>

fun enabled ::
  "whole_event \<Rightarrow> ('db, 'sk, 'lk, 'kg, 'mk, 'off, 'mo, 'cos, 'ps) whole \<Rightarrow> bool" where
  "enabled (Call_keygen req) s = True"
| "enabled (Call_sign req) s = True"
| "enabled Store s = (wh_stored s < length (mi_tx_res (wh_imp s)))"
| "enabled (Take now) s = (wh_taken s < length (mi_tx (wh_imp s)))"
| "enabled (Arrive raw now) s = (\<not> wh_stopped s)"
| "enabled Stream_ends s = True"
| "enabled (Fire i now) s = (\<not> wh_stopped s \<and> i < length (co_out (wh_node s)) \<and> i \<notin> set (wh_fired s) \<and>
     (case co_out (wh_node s) ! i of Run_later d m \<Rightarrow> True | _ \<Rightarrow> False))"
| "enabled (Post p ok) s = (\<not> wh_stopped s \<and> p < length (outbox (co_out (wh_node s))) \<and> p \<notin> set (wh_posted s))"
| "enabled (Begin_keygen a) s = (wh_kg s a = None \<and> started_keygen a (co_out (wh_node s)) \<noteq> [])"
| "enabled (Read_keygen a now) s = (case wh_kg s a of None \<Rightarrow> False
     | Some ac \<Rightarrow> ac_read ac < length (inbox_keygen a (co_out (wh_node s))))"
| "enabled (Poll_keygen a now) s = (wh_kg s a \<noteq> None)"
| "enabled (Emit_keygen a now) s = (\<not> wh_stopped s \<and> (case wh_kg s a of None \<Rightarrow> False
     | Some ac \<Rightarrow> ac_sent ac < length (pl_out (ac_state ac))))"
| "enabled (Begin_offline a) s = (wh_off s a = None \<and> started_offline a (co_out (wh_node s)) \<noteq> [])"
| "enabled (Read_offline a now) s = (case wh_off s a of None \<Rightarrow> False
     | Some ac \<Rightarrow> ac_read ac < length (inbox_offline a (co_out (wh_node s))))"
| "enabled (Poll_offline a now) s = (wh_off s a \<noteq> None)"
| "enabled (Emit_offline a now) s = (\<not> wh_stopped s \<and> (case wh_off s a of None \<Rightarrow> False
     | Some ac \<Rightarrow> ac_sent ac < length (pl_out (ac_state ac))))"
| "enabled (Begin_signer a) s = (wh_sig s a = None \<and> started_signer a (co_out (wh_node s)) \<noteq> [])"
| "enabled (Read_signer a) s = (case wh_sig s a of None \<Rightarrow> False
     | Some ac \<Rightarrow> ac_read ac < length (inbox_signer a (co_out (wh_node s))))"
| "enabled (Emit_signer a now) s = (\<not> wh_stopped s \<and> (case wh_sig s a of None \<Rightarrow> False
     | Some ac \<Rightarrow> ac_sent ac < length (sn_out (ac_state ac))))"

text \<open>
  A request that makes the coordinator panic: a public key that is too short to have a prefix, or not
  the own key among the participants. A signing request does so only when a share is found for it, and,
  for the own key, when the number of participants is right and all belong to the group.
\<close>

fun unservable ::
  "('db, 'sk, 'pk, 'sg, 'lk, 'kg, 'mk, 'off, 'mo, 'ps) cenv \<Rightarrow>
   ('db, 'sk, 'lk, 'kg, 'mk, 'off, 'mo, 'cos, 'ps) coordinator \<Rightarrow> coordinator_message \<Rightarrow> bool" where
  "unservable E c (KeygenRequest req) \<longleftrightarrow>
     (\<exists>pk \<in> set (kr_participant_public_keys req). str_range pk 2 10 = None) \<or>
     co_pk_str c \<notin> set (kr_participant_public_keys req)"
| "unservable E c (SignRequest req) \<longleftrightarrow>
     (case retrieve_share E (co_sk c) (co_db c) (sr_public_key req) of
        Ok ls \<Rightarrow>
          (\<exists>pk \<in> set (sls_public_keys ls) \<union> set (sr_participant_public_keys req). str_range pk 2 10 = None) \<or>
          length (sr_participant_public_keys req) = unat (env_lk_t E (sls_share ls) + 1) \<and>
          set (sr_participant_public_keys req) \<subseteq> set (sls_public_keys ls) \<and>
          co_pk_str c \<notin> set (sr_participant_public_keys req)
      | _ \<Rightarrow> False)"
| "unservable E c _ \<longleftrightarrow> False"

lemma sign_request_panics:
  "snd (handle_sign_request E req c) = Panic \<longleftrightarrow> unservable E c (SignRequest req)"
proof (cases "retrieve_share E (co_sk c) (co_db c) (sr_public_key req)")
  case (Ok ls)
  let ?g = "group_new (sls_public_keys ls) (env_lk_t E (sls_share ls)) (co_pk_str c)"
  show ?thesis
  proof (cases ?g)
    case None
    then have "\<exists>pk \<in> set (sls_public_keys ls). str_range pk 2 10 = None" by (simp add: group_new_None_iff)
    with None Ok show ?thesis by (auto simp: handle_sign_request_eq [OF Ok refl])
  next
    case (Some g)
    then have "\<not> (\<exists>pk \<in> set (sls_public_keys ls). str_range pk 2 10 = None)" by (simp add: group_new_Some_iff)
    with Ok group_new_fields [OF Some] show ?thesis
      unfolding handle_sign_request_Panic_iff [OF Ok Some] participant_indices_Ok_iff by auto
  qed
qed (simp_all add: handle_sign_request_no_share)

lemma ignore_result_Panic: "snd (ignore_result h) = Panic \<longleftrightarrow> snd h = Panic"
  by (simp add: ignore_result_def split: prod.split outcome.split)

lemma request_panics:
  "snd (handle_coordinator_message E now (snd (handle r)) c) = Panic \<longleftrightarrow> unservable E c (snd (handle r))"
  unfolding handle_request
  by (cases r) (simp_all add: ignore_result_Panic sign_request_panics handle_keygen_request_Panic_iff
      del: unservable.simps(2))

section \<open>Preservation\<close>

text \<open>The requests that the coordinator has taken.\<close>

definition taken :: "('db, 'sk, 'lk, 'kg, 'mk, 'off, 'mo, 'cos, 'ps) whole \<Rightarrow> request list" where
  "taken s = take (wh_taken s) (mi_tx (wh_imp s))"

lemma taken_step:
  assumes step: "whole_step E M e s = Some s'" and up: "channels_open s"
  shows "set (taken s) \<subseteq> set (taken s')" and "handed_over e s m \<Longrightarrow> \<exists>r \<in> set (taken s'). m = snd (handle r)"
proof -
  from whole_step_channels [OF assms] obtain rs where tx: "mi_tx (wh_imp s') = mi_tx (wh_imp s) @ rs" by blast
  have "wh_taken s \<le> wh_taken s'" using whole_step_taken(1) [OF step] by (cases e) simp_all
  then show "set (taken s) \<subseteq> set (taken s')"
    using set_take_subset_set_take [of "wh_taken s" "wh_taken s'" "mi_tx (wh_imp s)"] by (auto simp: taken_def tx)
  assume h: "handed_over e s m"
  then have "wh_taken s' = wh_taken s + 1" "wh_taken s < length (mi_tx (wh_imp s))"
    using whole_step_taken(1) [OF step] by (auto simp: handed_over_def)
  then have "mi_tx (wh_imp s) ! wh_taken s \<in> set (taken s')"
    by (simp add: taken_def tx take_Suc_conv_app_nth)
  with h show "\<exists>r \<in> set (taken s'). m = snd (handle r)" by (auto simp: handed_over_def)
qed

lemma named_whole:
  assumes laws: "store_laws E view" "formats_disjoint E" "named E view shares"
    and "whole_reachable E M sk shares results s" and "\<forall>r \<in> set (taken s). takes_part E sk (snd (handle r))"
  shows "named E view (co_db (wh_node s))"
  using assms(4,5)
proof induction
  case begin_whole
  with laws(3) show ?case by (simp add: whole_new_def coordinator_new_def)
next
  case (continue_whole s e s')
  have "channels_open s" using stored_results_reachable [OF continue_whole(1)] by simp
  note t = taken_step [OF continue_whole(2) this]
  have n: "named E view (co_db (wh_node s))"
    using continue_whole.IH continue_whole.prems t(1) by blast
  have inv: "node_inv E view sk (wh_node s)"
    using node_inv_reachable [OF laws(1) whole_node_submitted [OF continue_whole(1)]] by blast
  from whole_step_hands_over [OF linked_reachable [OF continue_whole(1)] continue_whole(2)] show ?case
  proof
    assume "node_step E (handed_over e s) (wh_node s) (wh_node s')"
    then have "node_step E (takes_part E sk) (wh_node s) (wh_node s')"
      by (rule node_step_mono) (use t(2) continue_whole.prems in blast)
    from named_step [OF laws(1,2) this inv n] show ?thesis .
  qed (use n in simp)
qed

section \<open>Progress\<close>

lemma node_moves_None:
  "\<exists>c'. r = (c', Ok ()) \<Longrightarrow> node_moves r s = None \<longleftrightarrow> wh_stopped s"
  by (auto simp: node_moves_def)

lemma take_moves:
  assumes "wh_taken s < length (mi_tx (wh_imp s))"
  shows "whole_step E M (Take now) s = None \<longleftrightarrow>
    \<not> wh_stopped s \<and> unservable E (wh_node s) (snd (handle (mi_tx (wh_imp s) ! wh_taken s)))"
proof -
  let ?m = "snd (handle (mi_tx (wh_imp s) ! wh_taken s))"
  let ?h = "handle_coordinator_message E now ?m (wh_node s)"
  have "snd ?h = Ok () \<or> snd ?h = Panic"
    unfolding handle_request
    by (cases "mi_tx (wh_imp s) ! wh_taken s") (auto simp: ignore_result_def split: prod.split outcome.split)
  with request_panics [of E now "mi_tx (wh_imp s) ! wh_taken s" "wh_node s"] assms show ?thesis
    by (cases ?h) (auto simp: node_moves_def simp del: handle_coordinator_message.simps unservable.simps)
qed

lemma whole_progress:
  assumes laws: "store_laws E view" and inv: "node_inv E view sk (wh_node s)" and l: "linked s"
    and n: "named E view (co_db (wh_node s))" and own: "str_range (identity_of (env_crypto E) sk) 2 10 \<noteq> None"
  shows "whole_step E M e s = None \<longleftrightarrow> \<not> enabled e s \<or>
    (\<exists>now. e = Take now) \<and> \<not> wh_stopped s \<and> unservable E (wh_node s) (snd (handle (mi_tx (wh_imp s) ! wh_taken s))) \<or>
    (\<exists>p ok. e = Post p ok) \<and> wh_lost s"
proof (cases e)
  case (Take now)
  then show ?thesis
    using take_moves [of s E M now] by (cases "wh_taken s < length (mi_tx (wh_imp s))") simp_all
next
  case (Arrive raw now)
  then show ?thesis
    by (cases "incoming_filter E (co_pk_str (wh_node s)) [Ok raw]")
      (simp_all add: node_moves_None [OF network_never_panics(1) [OF laws inv n own]])
next
  case (Fire i now)
  show ?thesis
  proof (cases "i < length (co_out (wh_node s)) \<and> (\<exists>d m. co_out (wh_node s) ! i = Run_later d m)")
    case True
    then obtain d m where i: "i < length (co_out (wh_node s))" "co_out (wh_node s) ! i = Run_later d m" by blast
    then have "Run_later d m \<in> set (co_out (wh_node s))" by (metis nth_mem)
    from node_moves_None [OF network_never_panics(2) [OF laws inv n own this]] i Fire show ?thesis
      by (simp del: handle_coordinator_message.simps)
  qed (use Fire in \<open>auto split: effect.split\<close>)
next
  case (Post p ok)
  have "co_sink (wh_node s)" using inv by (simp add: node_inv_def)
  with Post show ?thesis
    by (auto simp: send_one_def take_sink_def sink_result_def node_moves_def)
next
  case (Emit_keygen a now)
  with emit_keygen_moves [OF l, of a _ E M now] show ?thesis
    by (cases "wh_kg s a") (auto simp: node_moves_def)
next
  case (Emit_offline a now)
  with emit_offline_moves [OF l, of a _ E M now] show ?thesis
    by (cases "wh_off s a") (auto simp: node_moves_def)
next
  case (Emit_signer a now)
  with emit_signer_moves [of s a _ E M now] show ?thesis
    by (cases "wh_sig s a") (auto simp: node_moves_def)
qed (simp_all add: takes_message_def split: option.split list.split)

end
