(* ===== verification/Typed_Store.thy ===== *)
theory Typed_Store
  imports Whole_Trust
begin

text \<open>
  The types of the entries of the database that the group store and the share store of a server
  share: whatever the server does, an entry is a group under its own id or an encrypted share under
  the public key that was generated, and both belong to this server.
\<close>

text \<open>What a step of the coordinator does to the database.\<close>

definition saves_group where
  "saves_group E c c' \<longleftrightarrow>
     (\<exists>keys t g. group_new keys t (co_pk_str c) = Some g \<and> co_db c' = fst (save_group E (co_db c) g))"

definition saves_share where
  "saves_share E c c' \<longleftrightarrow>
     (\<exists>sh. sls_own_public_key sh = co_pk_str c \<and> co_db c' = fst (save_share E (co_db c) sh))"

lemma saves_groupI:
  "group_new keys t (co_pk_str c) = Some g \<Longrightarrow> co_db c' = fst (save_group E (co_db c) g) \<Longrightarrow> saves_group E c c'"
  by (auto simp: saves_group_def)

lemma saves_shareI:
  "co_db c' = fst (save_share E (co_db c) sh) \<Longrightarrow> sls_own_public_key sh = co_pk_str c \<Longrightarrow> saves_share E c c'"
  by (auto simp: saves_share_def)

lemma keygen_request_db:
  assumes "handle_keygen_request E req c = (c', h)" and "h \<noteq> Panic"
  shows "co_db c' = co_db c \<or> saves_group E c c'"
proof (cases "group_new (kr_participant_public_keys req) (ucast (kr_threshold req)) (co_pk_str c)")
  case None
  with assms show ?thesis by (simp add: handle_keygen_request_eq Let_def)
next
  case (Some g)
  with assms obtain i where "get_i g = Some i"
    by (cases "get_i g") (auto simp: handle_keygen_request_eq Let_def)
  with Some assms show ?thesis
    by (auto simp: handle_keygen_request_eq Let_def intro!: saves_groupI split: option.splits)
qed

lemma sign_request_db: "co_db (fst (handle_sign_request E req c)) = co_db c \<or>
    saves_group E c (fst (handle_sign_request E req c))"
proof (cases "retrieve_share E (co_sk c) (co_db c) (sr_public_key req)")
  case (Err e)
  then show ?thesis by (simp add: handle_sign_request_no_share)
next
  case (Ok ls)
  let ?t = "env_lk_t E (sls_share ls)"
  show ?thesis
  proof (cases "group_new (sr_participant_public_keys req) ?t (co_pk_str c)")
    case None
    then show ?thesis by (simp add: handle_sign_request_eq [OF Ok refl] split: option.split)
  next
    case (Some sub)
    have "co_db (fst (handle_sign_request E req c)) \<in> {co_db c, fst (save_group E (co_db c) sub)}"
      by (simp add: handle_sign_request_eq [OF Ok refl] Some Let_def sign_subgroup_saved_def
          respond_def split: option.split outcome.split)
    with saves_groupI [OF Some, of "fst (handle_sign_request E req c)" E] show ?thesis by auto
  qed
qed simp

lemma node_step_db:
  assumes step: "node_step E admit c c'" and inv: "node_inv E view sk c"
  shows "co_db c' = co_db c \<or> saves_group E c c' \<or> saves_share E c c'"
  using step
proof cases
  case (stream r raw now)
  have "co_db (fst (stream_handle E now r c)) = co_db c"
    by (simp add: stream_handle_def split: outcome.split)
  with stream(2) show ?thesis by simp
next
  case (keygen_request kreq now)
  then show ?thesis
    using keygen_request_db [of E kreq c c'] by (cases "handle_keygen_request E kreq c") (auto simp: ignore_result_Ok)
next
  case (sign_request sreq now)
  then show ?thesis using sign_request_db [of E sreq c] by (auto simp: ignore_result_Ok)
next
  case (outgoing now m)
  then show ?thesis by (auto split: outcome.splits)
next
  case (timer d m now)
  from node_inv_effect [OF inv timer(1)] have "retry_ok E view sk (co_db c) m" by simp
  from co_db_not_request [OF disjI1, OF this, of E now c] timer(2) show ?thesis by simp
next
  case (output_keygen a p lk)
  let ?in = "pl_input p"
  show ?thesis
  proof (cases "group_new (kr_participant_public_keys ?in) (ucast (kr_threshold ?in)) (co_pk_str c)")
    case None
    with output_keygen show ?thesis by (simp add: handle_output_keygen_Panic)
  next
    case (Some g)
    with output_keygen have "co_db c' = fst (save_share E (co_db c)
        \<lparr>sls_public_keys = kr_participant_public_keys ?in, sls_own_public_key = co_pk_str c, sls_share = lk\<rparr>)"
      by (auto simp: handle_output_keygen_eq)
    then have "saves_share E c c'" by (rule saves_shareI) simp
    then show ?thesis by blast
  qed
next
  case (output_offline a p cos)
  then show ?thesis by (auto simp: handle_output_offline_eq Let_def split: option.split)
next
  case (output_sign a s sg)
  then show ?thesis by (simp add: handle_output_sign_eq)
next
  case sent
  then show ?thesis by (simp add: send_one_Ok)
qed (simp_all add: handle_protocol_error_def split: sm_error.split)

section \<open>Typed entries\<close>

definition group_entry where
  "group_entry E own k b \<longleftrightarrow>
     (\<exists>g. ser (env_group E) g = Some b \<and> pg_group_id g = k \<and>
        group_new (pg_public_keys g) (pg_t g) own = Some g)"

definition share_entry where
  "share_entry E own k b \<longleftrightarrow>
     (\<exists>sh es. share_key E sh = k \<and> sls_own_public_key sh = own \<and> encrypt_share E sh = Ok es \<and>
        ser (env_share E) es = Some b)"

definition typed_db where
  "typed_db E view own db \<longleftrightarrow>
     (\<forall>k b. view db k = Some b \<longrightarrow> group_entry E own k b \<or> share_entry E own k b)"

lemma group_new_again:
  "group_new keys t own = Some g \<Longrightarrow> group_new (pg_public_keys g) (pg_t g) own = Some g"
  by (auto simp: group_new_def split: option.splits)

lemma cas_view_type:
  assumes "sled_laws (env_sled E) view"
    and "view (fst (sled_cas (env_sled E) db k0 None (Some v))) k = Some b"
  shows "view db k = Some b \<or> k = k0 \<and> b = v"
proof -
  obtain d' r where c: "sled_cas (env_sled E) db k0 None (Some v) = (d', r)"
    by (cases "sled_cas (env_sled E) db k0 None (Some v)")
  from sled_laws_cas_any [OF assms(1) c] assms(2) c show ?thesis
    by (auto split: option.splits bool.splits if_splits)
qed

lemma typed_save_group:
  assumes laws: "store_laws E view" and t: "typed_db E view own db" and g: "group_new keys t own = Some g"
  shows "typed_db E view own (fst (save_group E db g))"
  unfolding typed_db_def
proof (intro allI impI)
  fix k b assume v: "view (fst (save_group E db g)) k = Some b"
  show "group_entry E own k b \<or> share_entry E own k b"
  proof (cases "ser (env_group E) g")
    case None
    with v t show ?thesis by (auto simp: fst_save_group typed_db_def)
  next
    case (Some bytes)
    with v have "view db k = Some b \<or> k = get_group_id g \<and> b = bytes"
      using cas_view_type [OF store_laws_sled [OF laws]] by (auto simp: fst_save_group)
    with t Some group_new_again [OF g] show ?thesis
      by (auto simp: typed_db_def group_entry_def get_group_id_def)
  qed
qed

lemma typed_save_share:
  assumes laws: "store_laws E view" and t: "typed_db E view own db" and own: "sls_own_public_key sh = own"
  shows "typed_db E view own (fst (save_share E db sh))"
  unfolding typed_db_def
proof (intro allI impI)
  fix k b assume v: "view (fst (save_share E db sh)) k = Some b"
  show "group_entry E own k b \<or> share_entry E own k b"
  proof (cases "\<exists>es out. encrypt_share E sh = Ok es \<and> ser (env_share E) es = Some out")
    case True
    then obtain es out where o': "encrypt_share E sh = Ok es" "ser (env_share E) es = Some out" by blast
    with v have "view db k = Some b \<or> k = share_key E sh \<and> b = out"
      using cas_view_type [OF store_laws_sled [OF laws]] by (auto simp: fst_save_share)
    with t o' own show ?thesis by (auto simp: typed_db_def share_entry_def)
  next
    case False
    with v t show ?thesis by (auto simp: fst_save_share typed_db_def split: outcome.splits option.splits)
  qed
qed

lemma typed_reachable:
  assumes laws: "store_laws E view" and t: "typed_db E view (identity_of (env_crypto E) sk) db"
    and r: "node_reachable E admit sk db c"
  shows "typed_db E view (identity_of (env_crypto E) sk) (co_db c)"
  using r
proof (induction rule: node_reachable.induct)
  case start
  with t show ?case by (simp add: coordinator_new_def)
next
  case (continue c c')
  from continue.hyps(1) have inv: "node_inv E view sk c" by (rule node_inv_reachable [OF laws])
  then have "co_pk_str c = identity_of (env_crypto E) sk" by (simp add: node_inv_def)
  with node_step_db [OF continue.hyps(2) inv] continue.IH typed_save_group [OF laws] typed_save_share [OF laws]
  show ?case by (auto simp: saves_group_def saves_share_def)
qed

text \<open>What is read from a typed database is what its key says.\<close>

lemma typed_retrieve_group:
  assumes laws: "store_laws E view" and f: "formats_disjoint E" and t: "typed_db E view own db"
    and g: "retrieve_group E db gid = Ok g"
  shows "pg_group_id g = gid" and "group_new (pg_public_keys g) (pg_t g) own = Some g"
proof -
  from g obtain b where b: "sled_get (env_sled E) db gid = Some (Some b)" "de (env_group E) b = Some g"
    by (auto simp: retrieve_group_def and_then_eq_Ok)
  from sled_laws_get [OF store_laws_sled [OF laws] b(1)] have "view db gid = Some b" by simp
  with t have "group_entry E own gid b \<or> share_entry E own gid b" by (auto simp: typed_db_def)
  with f b(2) have "group_entry E own gid b" by (auto simp: share_entry_def formats_disjoint_def)
  then obtain h where h: "ser (env_group E) h = Some b" "pg_group_id h = gid"
    "group_new (pg_public_keys h) (pg_t h) own = Some h" by (auto simp: group_entry_def)
  from json_lawsD(3) [OF store_laws_json [OF laws] h(1)] b(2) have "h = g" by simp
  with h show "pg_group_id g = gid" "group_new (pg_public_keys g) (pg_t g) own = Some g" by simp_all
qed

end
