(* ===== verification/Whole_Origin.thy ===== *)
theory Whole_Origin
  imports Typed_Store
begin

text \<open>
  Where the messages of a whole server come from. What its coordinator delivers or keeps for a retry
  is a message that arrived, opened if it has passed the checks; what it sends is the sealed form of
  a message that one of its players or signers gave it.
\<close>

section \<open>The origin of an effect\<close>

text \<open>The opened form of one of the messages of \<open>base\<close>.\<close>

definition opened ::
  "('db, 'sk, 'pk, 'sg, 'lk, 'x) env_scheme \<Rightarrow> 'sk \<Rightarrow> wire_message set \<Rightarrow> wire_message \<Rightarrow> bool" where
  "opened E sk base w \<longleftrightarrow> (\<exists>w0 \<in> base. maybe_decrypt E sk w0 = Ok w)"

fun kept_from ::
  "('db, 'sk, 'pk, 'sg, 'lk, 'x) env_scheme \<Rightarrow> 'sk \<Rightarrow> wire_message set \<Rightarrow> coordinator_message \<Rightarrow> bool" where
  "kept_from E sk base (Retry r) =
     (if rm_check_passed r then opened E sk base (rm_message r) else rm_message r \<in> base)"
| "kept_from E sk base _ = False"

fun has_origin ::
  "('db, 'sk, 'pk, 'sg, 'lk, 'x) env_scheme \<Rightarrow> 'sk \<Rightarrow> wire_message set \<Rightarrow> core_message set \<Rightarrow>
   ('lk, 'kg, 'mk, 'off, 'mo, 'cos, 'ps) effect \<Rightarrow> bool" where
  "has_origin E sk base spoken (Run_later d m) = kept_from E sk base m"
| "has_origin E sk base spoken (Deliver_keygen a im) = opened E sk base (im_wire_message im)"
| "has_origin E sk base spoken (Deliver_offline a im') = opened E sk base (im_wire_message im')"
| "has_origin E sk base spoken (Deliver_signer a im'') = opened E sk base (im_wire_message im'')"
| "has_origin E sk base spoken (Send_one m) = (m \<in> spoken)"
| "has_origin E sk base spoken _ = True"

lemma has_origin_mono:
  assumes "has_origin E sk base spoken e" and "base \<subseteq> base'" and "spoken \<subseteq> spoken'"
  shows "has_origin E sk base' spoken' e"
proof -
  have "opened E sk base' w" if "opened E sk base w" for w
    using that assms(2) by (auto simp: opened_def)
  moreover from this have "kept_from E sk base' m" if "kept_from E sk base m" for m
    using that assms(2) by (cases m) (auto split: if_splits)
  ultimately show ?thesis using assms(1,3) by (cases e) auto
qed

text \<open>A handler that adds effects with an origin, to those of \<open>c\<close>.\<close>

definition accounts ::
  "('lk, 'kg, 'mk, 'off, 'mo, 'cos, 'ps) effect set \<Rightarrow>
   ('db, 'sk, 'lk, 'kg, 'mk, 'off, 'mo, 'cos, 'ps) coordinator \<Rightarrow>
   ('db, 'sk, 'lk, 'kg, 'mk, 'off, 'mo, 'cos, 'ps) coordinator \<Rightarrow> bool" where
  "accounts good c c' \<longleftrightarrow> set (co_out c) \<subseteq> set (co_out c') \<and> set (co_out c') \<subseteq> set (co_out c) \<union> good"

lemma accountsI: "co_out c' = co_out c @ es \<Longrightarrow> set es \<subseteq> good \<Longrightarrow> accounts good c c'"
  by (auto simp: accounts_def)

lemma accounts_refl [simp]: "accounts good c c"
  by (simp add: accounts_def)

lemma accounts_emit [simp]: "accounts good c (emit es c) \<longleftrightarrow> set es \<subseteq> set (co_out c) \<union> good"
  by (auto simp: accounts_def)

lemma accounts_from_emit: "accounts good (emit es c) c' \<Longrightarrow> set es \<subseteq> good \<Longrightarrow> accounts good c c'"
  by (auto simp: accounts_def)

abbreviation origins ::
  "('db, 'sk, 'pk, 'sg, 'lk, 'x) env_scheme \<Rightarrow> 'sk \<Rightarrow> wire_message set \<Rightarrow> core_message set \<Rightarrow>
   ('lk, 'kg, 'mk, 'off, 'mo, 'cos, 'ps) effect set" where
  "origins E sk base spoken \<equiv> {e. has_origin E sk base spoken e}"

section \<open>Messages that arrive\<close>

lemma accounts_retry:
  "kept_from E sk base (Retry r) \<Longrightarrow> accounts (origins E sk base spoken) c (retry r c)"
  by (simp add: retry_eq_emit)

lemma accounts_unsafe:
  assumes "opened E sk base w"
  shows "accounts (origins E sk base spoken) c (handle_incoming_unsafe E w ts a c)"
proof (cases "deliveries E w c = []")
  case True
  with assms show ?thesis by (simp add: handle_incoming_unsafe_eq accounts_retry)
next
  case False
  with assms show ?thesis by (auto simp: handle_incoming_unsafe_eq dest!: deliveries_cases)
qed

lemma accounts_incoming:
  assumes "w \<in> base" and "co_sk c = sk"
  shows "accounts (origins E sk base spoken) c (fst (handle_incoming E now w c))"
proof (cases "str_range (co_pk_str c) 2 10")
  case None
  then show ?thesis by (simp add: handle_incoming_def Let_def)
next
  case (Some own)
  let ?c = "emit [Inc MESSAGES_TOTAL_RECEIVED] c"
  have o: "opened E sk base w'" if "maybe_decrypt E sk w = Ok w'" for w'
    using that assms(1) by (auto simp: opened_def)
  have "accounts (origins E sk base spoken) ?c (fst (handle_incoming E now w c))"
    using assms o by (auto simp: handle_incoming_eq [OF Some] Let_def accounts_unsafe accounts_retry
        simp del: emit_emit split: outcome.splits)
  then show ?thesis by (rule accounts_from_emit) simp
qed

lemma accounts_handle_retry:
  assumes "rm_message r \<in> base" and "co_sk c = sk"
  shows "accounts (origins E sk base spoken) c (fst (handle_retry E r c))"
  using assms by (auto simp: handle_retry_def precheck_message_def and_then_eq_Ok opened_def
      intro!: accounts_unsafe accounts_retry split: outcome.splits)

lemma accounts_timer:
  assumes "kept_from E sk base m" and "co_sk c = sk"
  shows "accounts (origins E sk base spoken) c (fst (handle_coordinator_message E now m c))"
  using assms by (cases m) (auto intro: accounts_unsafe accounts_handle_retry)

lemma accounts_protocol_error:
  assumes "opened E sk base (im_wire_message (pe_message err))"
  shows "accounts (origins E sk base spoken) c (handle_protocol_error now err c)"
  using assms by (auto simp: handle_protocol_error_def intro!: accounts_retry split: sm_error.split)

section \<open>Messages that are sent\<close>

lemma accounts_outgoing:
  assumes "\<And>m'. maybe_encrypt E (co_db c) m = Ok m' \<Longrightarrow> m' \<in> spoken"
  shows "accounts (origins E sk base spoken) c (fst (handle_coordinator_message E now (Outgoing m) c))"
  using assms by (auto split: outcome.splits)

text \<open>What the players and signers of the server have given to the coordinator.\<close>

definition spoken ::
  "('db, 'sk, 'lk, 'kg, 'mk, 'off, 'mo, 'cos, 'ps) whole \<Rightarrow> core_message set" where
  "spoken s =
     {m. (\<exists>a ac. wh_kg s a = Some ac \<and> To_broker (Outgoing m) \<in> set (pl_out (ac_state ac))) \<or>
         (\<exists>a ac. wh_off s a = Some ac \<and> To_broker (Outgoing m) \<in> set (pl_out (ac_state ac))) \<or>
         (\<exists>a ac. wh_sig s a = Some ac \<and> Signer_outgoing m \<in> set (sn_out (ac_state ac)))}"

lemma actor_moves_grows:
  assumes "actor_moves out_of born act x y" and "\<And>p q. act p q \<Longrightarrow> prefix (out_of p) (out_of q)"
    and "x = Some ac"
  shows "\<exists>ac'. y = Some ac' \<and> set (out_of (ac_state ac)) \<subseteq> set (out_of (ac_state ac'))"
  using assms(1)
proof cases
  case (acts ac0 q n)
  with assms(2) [of "ac_state ac0" q] assms(3) show ?thesis by (auto dest: set_mono_prefix)
qed (use assms(3) in \<open>auto simp: handled_def\<close>)

lemma spoken_step:
  assumes step: "whole_step E M e s = Some s'"
  shows "spoken s \<subseteq> spoken s'"
proof
  fix m assume "m \<in> spoken s"
  then consider a ac where "wh_kg s a = Some ac" "To_broker (Outgoing m) \<in> set (pl_out (ac_state ac))"
    | a ac where "wh_off s a = Some ac" "To_broker (Outgoing m) \<in> set (pl_out (ac_state ac))"
    | a ac where "wh_sig s a = Some ac" "Signer_outgoing m \<in> set (sn_out (ac_state ac))"
    by (auto simp: spoken_def)
  then show "m \<in> spoken s'"
  proof cases
    case 1
    from actor_moves_grows [OF whole_step_keygen [OF step] player_acts_facts(1) 1(1)] 1(2)
    show ?thesis by (fastforce simp: spoken_def)
  next
    case 2
    from actor_moves_grows [OF whole_step_offline [OF step] player_acts_facts(1) 2(1)] 2(2)
    show ?thesis by (fastforce simp: spoken_def)
  next
    case 3
    from actor_moves_grows [OF whole_step_signer [OF step] signer_acts_facts(1) 3(1)] 3(2)
    show ?thesis by (fastforce simp: spoken_def)
  qed
qed

text \<open>
  What a server may send: the sealed forms of what was spoken, sealed when its database had no more
  than it has now.
\<close>

definition sealed ::
  "('db, 'sk, 'pk, 'sg, 'lk, 'x) env_scheme \<Rightarrow> ('db \<Rightarrow> string \<Rightarrow> string option) \<Rightarrow>
   ('db, 'sk, 'lk, 'kg, 'mk, 'off, 'mo, 'cos, 'ps) whole \<Rightarrow> core_message set" where
  "sealed E view s =
     {m. \<exists>m0 \<in> spoken s. \<exists>db. view_grows view db (co_db (wh_node s)) \<and> maybe_encrypt E db m0 = Ok m}"

lemma sealed_now: "m0 \<in> spoken s \<Longrightarrow> maybe_encrypt E (co_db (wh_node s)) m0 = Ok m \<Longrightarrow> m \<in> sealed E view s"
  by (auto simp: sealed_def intro!: exI [of _ "co_db (wh_node s)"])

text \<open>The database of a server only grows.\<close>

lemma view_grows_trans: "view_grows view a b \<Longrightarrow> view_grows view b d \<Longrightarrow> view_grows view a d"
  by (simp add: view_grows_def)

lemma db_grows_step:
  assumes laws: "store_laws E view" and inv: "node_inv E view sk c" and step: "node_step E admit c c'"
  shows "view_grows view (co_db c) (co_db c')"
  using node_step_db [OF step inv] view_grows_save_group [OF laws] view_grows_save_share [OF laws]
  by (auto simp: saves_group_def saves_share_def)

lemma sealed_step:
  assumes "store_laws E view" and "node_inv E view sk (wh_node s)" and l: "linked s"
    and step: "whole_step E M e s = Some s'"
  shows "sealed E view s \<subseteq> sealed E view s'"
proof -
  have "view_grows view (co_db (wh_node s)) (co_db (wh_node s'))"
    using whole_step_node [OF l step] db_grows_step [OF assms(1,2)] by auto
  with spoken_step [OF step] show ?thesis
    unfolding sealed_def by (blast intro: view_grows_trans)
qed

section \<open>Every step accounts for what it adds\<close>

lemma accounts_by:
  assumes "\<exists>es. co_out c' = co_out c @ es \<and> set es \<subseteq> good" shows "accounts good c c'"
  using assms by (auto simp: accounts_def)

lemma accounts_request:
  assumes "handle_coordinator_message E now m c = (c', Ok ())" and "is_request m"
  shows "accounts (origins E sk base sp) c c'"
proof (cases m)
  case (KeygenRequest req)
  from keygen_request_adds [OF assms(1) [unfolded this]] show ?thesis
    by (auto intro!: accounts_by)
next
  case (SignRequest req)
  from sign_request_adds [OF assms(1) [unfolded this]] show ?thesis
    by (auto intro!: accounts_by)
qed (use assms(2) in simp_all)

text \<open>What a player or a signer makes the coordinator do.\<close>

lemma accounts_react_player:
  assumes x: "x \<in> set (pl_out q)" and l: "player_linked mb p q"
    and delivered: "\<And>im. im \<in> set mb \<Longrightarrow> opened E sk base (im_wire_message im)"
    and said: "\<And>m m'. To_broker (Outgoing m) \<in> set (pl_out q) \<Longrightarrow> maybe_encrypt E (co_db c) m = Ok m' \<Longrightarrow> m' \<in> sp"
    and collector: "\<And>out. x = To_collector out \<Longrightarrow> accounts (origins E sk base sp) c c'"
    and r: "x = To_collector out' \<or> c' = c \<or> (\<exists>e. x = To_coordinator e \<and> c' = handle_protocol_error now e c) \<or>
      (\<exists>m. x = To_broker m \<and> handle_coordinator_message E now m c = (c', Ok ()))"
  shows "accounts (origins E sk base sp) c c'"
  using r
proof (elim disjE exE conjE)
  fix e assume e: "x = To_coordinator e" "c' = handle_protocol_error now e c"
  with x l have "pe_message e \<in> set mb" by (simp add: player_linked_def)
  with e delivered show ?thesis by (simp add: accounts_protocol_error)
next
  fix m assume m: "x = To_broker m" "handle_coordinator_message E now m c = (c', Ok ())"
  with x l have "well_addressed (pl_input q) (pl_room q) x"
    by (auto simp: player_linked_def player_inv_def list_all_iff)
  with m obtain cm where cm: "m = Outgoing cm" by (cases m) simp_all
  with x m said have "maybe_encrypt E (co_db c) cm = Ok m' \<Longrightarrow> m' \<in> sp" for m' by simp
  from accounts_outgoing [of E c cm sp sk base now, OF this] m(2) cm show ?thesis
    by (simp del: handle_coordinator_message.simps)
qed (use collector in simp_all)

lemma accounts_react_keygen:
  assumes x: "x \<in> set (pl_out q)" and l: "player_linked mb p q"
    and delivered: "\<And>im. im \<in> set mb \<Longrightarrow> opened E sk base (im_wire_message im)"
    and said: "\<And>m m'. To_broker (Outgoing m) \<in> set (pl_out q) \<Longrightarrow> maybe_encrypt E (co_db c) m = Ok m' \<Longrightarrow> m' \<in> sp"
    and r: "react_keygen E now x c = (c', Ok ())"
  shows "accounts (origins E sk base sp) c c'"
proof (cases x)
  case (To_collector out)
  with output_keygen_adds [of E out c c'] r show ?thesis by (auto intro!: accounts_by)
qed (use accounts_react_player [OF x l delivered said, where c' = c' and now = now] r in
  \<open>auto simp del: handle_coordinator_message.simps\<close>)

lemma accounts_react_offline:
  assumes x: "x \<in> set (pl_out q)" and l: "player_linked mb p q"
    and delivered: "\<And>im. im \<in> set mb \<Longrightarrow> opened E sk base (im_wire_message im)"
    and said: "\<And>m m'. To_broker (Outgoing m) \<in> set (pl_out q) \<Longrightarrow> maybe_encrypt E (co_db c) m = Ok m' \<Longrightarrow> m' \<in> sp"
    and r: "react_offline E now x c = (c', Ok ())"
  shows "accounts (origins E sk base sp) c c'"
proof (cases x)
  case (To_collector out)
  with output_offline_adds [of E out c] r show ?thesis by (auto intro!: accounts_by)
qed (use accounts_react_player [OF x l delivered said, where c' = c' and now = now] r in
  \<open>auto simp del: handle_coordinator_message.simps\<close>)

lemma accounts_react_signer:
  assumes said: "\<And>m m'. x = Signer_outgoing m \<Longrightarrow> maybe_encrypt E (co_db c) m = Ok m' \<Longrightarrow> m' \<in> sp"
    and r: "react_signer E now x c = (c', Ok ())"
  shows "accounts (origins E sk base sp) c c'"
proof (cases x)
  case (Signer_outgoing m)
  with accounts_outgoing [of E c m sp sk base now, OF said [OF this]] r show ?thesis
    by (simp del: handle_coordinator_message.simps)
next
  case (Signer_result out)
  with output_sign_adds [of E out c] r show ?thesis by (auto intro!: accounts_by)
qed

text \<open>The messages that a step lets in.\<close>

fun heard :: "('db, 'sk, 'pk, 'sg, 'lk, 'x) env_scheme \<Rightarrow> whole_event \<Rightarrow> wire_message set" where
  "heard E (Arrive raw now) = {w. do_parse_signed E raw = Ok w}"
| "heard E _ = {}"

definition all_origins ::
  "('db, 'sk, 'pk, 'sg, 'lk, 'kg, 'mk, 'off, 'mo, 'ps) cenv \<Rightarrow> ('db \<Rightarrow> string \<Rightarrow> string option) \<Rightarrow> 'sk \<Rightarrow> wire_message set \<Rightarrow>
   ('db, 'sk, 'lk, 'kg, 'mk, 'off, 'mo, 'cos, 'ps) whole \<Rightarrow> bool" where
  "all_origins E view sk base s \<longleftrightarrow> set (co_out (wh_node s)) \<subseteq> origins E sk base (sealed E view s)"

lemma all_origins_delivered:
  assumes "all_origins E view sk base s"
  shows "im \<in> set (inbox_keygen a (co_out (wh_node s))) \<Longrightarrow> opened E sk base (im_wire_message im)"
    and "im' \<in> set (inbox_offline a (co_out (wh_node s))) \<Longrightarrow> opened E sk base (im_wire_message im')"
    and "im'' \<in> set (inbox_signer a (co_out (wh_node s))) \<Longrightarrow> opened E sk base (im_wire_message im'')"
    and "m \<in> set (outbox (co_out (wh_node s))) \<Longrightarrow> m \<in> sealed E view s"
  using assms by (auto simp: all_origins_def)

lemma whole_step_accounts:
  assumes l: "linked s" and step: "whole_step E M e s = Some s'" and "co_sk (wh_node s) = sk"
    and o: "all_origins E view sk base s"
  shows "accounts (origins E sk (base \<union> heard E e) (sealed E view s)) (wh_node s) (wh_node s')"
proof (cases e)
  case (Take now)
  show ?thesis
  proof (cases "wh_stopped s")
    case True
    with step Take show ?thesis by (auto split: if_splits)
  next
    case False
    with step Take
    have "handle_coordinator_message E now (snd (handle (mi_tx (wh_imp s) ! wh_taken s))) (wh_node s) =
        (wh_node s', Ok ())"
      by (auto simp: node_moves_Some simp del: handle_coordinator_message.simps split: if_splits)
    from accounts_request [OF this] show ?thesis by (simp add: handle_request split: request.split)
  qed
next
  case (Arrive raw now)
  with step have "wh_node s' = wh_node s \<or>
      stream_handle E now (do_parse_signed E raw) (wh_node s) = (wh_node s', Ok ())"
    by (auto simp: node_moves_Some incoming_filter_single split: if_splits)
  then show ?thesis
  proof
    assume h: "stream_handle E now (do_parse_signed E raw) (wh_node s) = (wh_node s', Ok ())"
    show ?thesis
    proof (cases "do_parse_signed E raw")
      case (Ok w)
      with accounts_incoming [of w "base \<union> heard E e" "wh_node s" sk E "sealed E view s" now] Arrive h assms(3)
      show ?thesis by (simp add: stream_handle_def)
    qed (use h in \<open>simp_all add: stream_handle_def\<close>)
  qed simp
next
  case (Fire i now)
  with step obtain d m where i: "i < length (co_out (wh_node s))" "co_out (wh_node s) ! i = Run_later d m"
    and h: "handle_coordinator_message E now m (wh_node s) = (wh_node s', Ok ())"
    by (auto simp: node_moves_Some simp del: handle_coordinator_message.simps
        split: if_splits effect.splits)
  from nth_mem [OF i(1)] o have "kept_from E sk base m"
    by (auto simp: all_origins_def i(2))
  from accounts_timer [OF this assms(3), of "sealed E view s" now] h Fire show ?thesis
    by (simp del: handle_coordinator_message.simps)
next
  case (Post p ok)
  with step show ?thesis
    by (auto simp: node_moves_Some send_one_Ok accounts_def split: if_splits)
next
  case (Emit_keygen a now)
  with step obtain ac where ac: "wh_kg s a = Some ac" "ac_sent ac < length (pl_out (ac_state ac))"
    and r: "react_keygen E now (pl_out (ac_state ac) ! ac_sent ac) (wh_node s) = (wh_node s', Ok ())"
    by (auto simp: bind_eq_Some_conv node_moves_Some split: if_splits)
  from linkedD(2) [OF l ac(1)] obtain p
    where pl: "player_linked (inbox_keygen a (co_out (wh_node s))) p (ac_state ac)" by blast
  have sp: "m' \<in> sealed E view s" if "To_broker (Outgoing m) \<in> set (pl_out (ac_state ac))"
      "maybe_encrypt E (co_db (wh_node s)) m = Ok m'" for m m'
    using that ac(1) by (intro sealed_now [of m]) (auto simp: spoken_def)
  from accounts_react_keygen [OF nth_mem [OF ac(2)] pl all_origins_delivered(1) [OF o] sp r]
  show ?thesis by (simp add: Emit_keygen)
next
  case (Emit_offline a now)
  with step obtain ac where ac: "wh_off s a = Some ac" "ac_sent ac < length (pl_out (ac_state ac))"
    and r: "react_offline E now (pl_out (ac_state ac) ! ac_sent ac) (wh_node s) = (wh_node s', Ok ())"
    by (auto simp: bind_eq_Some_conv node_moves_Some split: if_splits)
  from linkedD(3) [OF l ac(1)] obtain p
    where pl: "player_linked (inbox_offline a (co_out (wh_node s))) p (ac_state ac)" by blast
  have sp: "m' \<in> sealed E view s" if "To_broker (Outgoing m) \<in> set (pl_out (ac_state ac))"
      "maybe_encrypt E (co_db (wh_node s)) m = Ok m'" for m m'
    using that ac(1) by (intro sealed_now [of m]) (auto simp: spoken_def)
  from accounts_react_offline [OF nth_mem [OF ac(2)] pl all_origins_delivered(2) [OF o] sp r]
  show ?thesis by (simp add: Emit_offline)
next
  case (Emit_signer a now)
  with step obtain ac where ac: "wh_sig s a = Some ac" "ac_sent ac < length (sn_out (ac_state ac))"
    and r: "react_signer E now (sn_out (ac_state ac) ! ac_sent ac) (wh_node s) = (wh_node s', Ok ())"
    by (auto simp: bind_eq_Some_conv node_moves_Some split: if_splits)
  have "m' \<in> sealed E view s" if "sn_out (ac_state ac) ! ac_sent ac = Signer_outgoing m"
      "maybe_encrypt E (co_db (wh_node s)) m = Ok m'" for m m'
    using nth_mem [OF ac(2)] ac(1) that by (intro sealed_now [of m]) (auto simp: spoken_def)
  from accounts_react_signer [OF this r] show ?thesis by (simp add: Emit_signer)
qed (use step in \<open>auto simp: bind_eq_Some_conv split: if_splits option.splits list.splits\<close>)

lemma all_origins_step:
  assumes laws: "store_laws E view" and l: "linked s" and step: "whole_step E M e s = Some s'"
    and inv: "node_inv E view sk (wh_node s)"
    and o: "all_origins E view sk base s" and more: "base \<union> heard E e \<subseteq> base'"
  shows "all_origins E view sk base' s'"
proof -
  note mono = has_origin_mono [OF _ _ sealed_step [OF laws inv l step]]
  have "has_origin E sk base' (sealed E view s') e'" if "e' \<in> set (co_out (wh_node s'))" for e'
  proof -
    from inv have "co_sk (wh_node s) = sk" by (simp add: node_inv_def)
    from that whole_step_accounts [OF l step this o] o
    have "has_origin E sk base (sealed E view s) e' \<or> has_origin E sk (base \<union> heard E e) (sealed E view s) e'"
      by (auto simp: accounts_def all_origins_def)
    then show ?thesis by (rule disjE) (use more in \<open>auto elim!: mono\<close>)
  qed
  then show ?thesis by (auto simp: all_origins_def)
qed

end
