(* ===== verification/Delivery.thy ===== *)
theory Delivery
  imports Whole_Panic
begin

text \<open>
  One message from the coordinator of one server to the actors of another: what the sender has sealed,
  the receiver opens, when both have stored the group of the room, and gives it to every actor of the
  room that can read it.
\<close>

section \<open>The message is for a member of the group\<close>

lemma prefix_in_group_id:
  assumes "group_new pks t own = Some g" and "pk \<in> set pks" and "str_range pk 2 10 = Some p"
  shows "str_contains (make_room_id rid (pg_group_id g)) p"
proof -
  from assms(2) obtain xs ys where "pks = xs @ pk # ys" by (auto simp: in_set_conv_decomp)
  with assms(1,3) have "pg_group_id g =
      concat (map (\<lambda>pk. the (str_range pk 2 10)) xs) @ p @ concat (map (\<lambda>pk. the (str_range pk 2 10)) ys)"
    by (simp add: group_new_Some_iff)
  then show ?thesis
    unfolding str_contains_iff make_room_id_def by (metis append.assoc append_Cons)
qed

text \<open>The two servers have the same members in their groups, each with its own key.\<close>

definition same_members :: "string list \<Rightarrow> u16 \<Rightarrow> string \<Rightarrow> string \<Rightarrow> group \<Rightarrow> group \<Rightarrow> bool" where
  "same_members pks t id_a id_b g_a g_b \<longleftrightarrow>
     group_new pks t id_a = Some g_a \<and> group_new pks t id_b = Some g_b \<and>
     id_a \<in> set pks \<and> id_b \<in> set pks \<and> length pks < 65536"

lemma same_membersD:
  assumes "same_members pks t id_a id_b g_a g_b"
  shows "group_new pks t id_a = Some g_a" "group_new pks t id_b = Some g_b" "id_a \<in> set pks" "id_b \<in> set pks"
    "length pks < 65536" "pg_group_id g_b = pg_group_id g_a"
    "pg_public_keys g_a = pks" "pg_public_keys g_b = pks" "pg_own_public_key g_b = id_b"
    "\<exists>own. str_range id_b 2 10 = Some own"
proof -
  show g: "group_new pks t id_a = Some g_a" "group_new pks t id_b = Some g_b" "id_a \<in> set pks" "id_b \<in> set pks"
    "length pks < 65536"
    using assms by (simp_all add: same_members_def)
  show "pg_group_id g_b = pg_group_id g_a" using g(1,2) by (simp add: group_new_Some_iff)
  show "pg_public_keys g_a = pks" "pg_public_keys g_b = pks" "pg_own_public_key g_b = id_b"
    using group_new_fields [OF g(1)] group_new_fields [OF g(2)] by simp_all
  show "\<exists>own. str_range id_b 2 10 = Some own" using g(2,4) by (auto simp: group_new_Some_iff)
qed

lemma opens_for_member:
  assumes laws: "cipher_laws E" and groups: "same_members pks t id_a id_b g_a g_b"
    and id_b: "id_b = identity_of (env_crypto E) sk_b"
    and known: "retrieve_group E db_a (pg_group_id g_a) = Ok g_a"
    and room: "extract_group_id (c_room msg) = Ok (pg_group_id g_a)"
    and m: "de (env_gpm E) (c_message msg) = Some m" "gpm_receiver m = None \<or> gpm_receiver m = get_i g_b"
    and enc: "maybe_encrypt E db_a msg = Ok msg'" and w: "w_payload w = c_message msg'"
  shows "\<exists>s. maybe_decrypt E sk_b w = Ok (w\<lparr>w_payload := s\<rparr>) \<and> de (env_gpm E) s = Some m"
proof (cases "gpm_receiver m")
  case None
  with maybe_encrypt_broadcast [OF m(1)] enc have "msg' = msg" by simp
  with w m(1) maybe_decrypt_broadcast [of E w m, OF _ None] show ?thesis by (cases w) auto
next
  case (Some r)
  with m(2) have r: "get_i g_b = Some r" by simp
  note g = same_membersD [OF groups]
  have idx: "get_index g_b id_b = Some (unat r)"
    using unat_get_i [OF r] g by simp
  then have "get_public_key g_a (unat r) = Ok id_b"
    using get_public_key_get_index [OF idx] g by (simp add: get_public_key_def split: if_splits)
  then have "addressed_to E db_a sk_b (c_room msg) r"
    using room known id_b by (simp add: addressed_to_def)
  from maybe_decrypt_maybe_encrypt [OF laws enc m(1) Some this w] show ?thesis .
qed

section \<open>The coordinator gives it to its actors\<close>

lemma member_is_heard:
  assumes laws: "cipher_laws E" and groups: "same_members pks t id_a id_b g_a g_b"
    and ids: "id_a = identity_of (env_crypto E) sk_a" "id_b = identity_of (env_crypto E) sk_b"
    and known: "retrieve_group E db_a (pg_group_id g_a) = Ok g_a" "retrieve_group E (co_db c) (pg_group_id g_b) = Ok g_b"
    and room: "c_room msg = make_room_id rid (pg_group_id g_a)"
      "CHR ''@'' \<notin> set rid" "CHR ''@'' \<notin> set (pg_group_id g_a)"
    and m: "de (env_gpm E) (c_message msg) = Some m" "gpm_receiver m = None \<or> gpm_receiver m = get_i g_b"
    and enc: "maybe_encrypt E db_a msg = Ok msg'"
    and b: "co_pk_str c = id_b" "co_sk c = sk_b"
  shows "\<exists>s. de (env_gpm E) s = Some m \<and> stream_handle E now (Ok (signed_wire E sk_a msg')) c =
    (handle_incoming_unsafe E ((signed_wire E sk_a msg')\<lparr>w_payload := s\<rparr>) now 0
       (emit [Inc MESSAGES_TOTAL_RECEIVED] c), Ok ())"
proof -
  let ?w = "signed_wire E sk_a msg'"
  note g = same_membersD [OF groups]
  have x: "extract_group_id (c_room msg) = Ok (pg_group_id g_a)" using room by simp
  have w: "w_room ?w = c_room msg" "w_sender_public_key ?w = id_a" "w_payload ?w = c_message msg'"
    using maybe_encrypt_room [OF enc] ids by simp_all
  from opens_for_member [OF laws groups ids(2) known(1) x m enc w(3)]
  obtain s where s: "maybe_decrypt E sk_b ?w = Ok (?w\<lparr>w_payload := s\<rparr>)" "de (env_gpm E) s = Some m" by blast
  from maybe_encrypt_header [OF laws enc m(1)] obtain h where
    h: "de (env_gpm E) (c_message msg') = Some h" "gpm_receiver h = gpm_receiver m" by auto
  have "known_message E (co_db c) ?w g_b h"
    using x known(2) g h(1) w by (simp add: known_message_def)
  moreover have "gpm_receiver h = None \<or> (\<exists>r. gpm_receiver h = Some r \<and> get_i g_b = Some r)"
    using h(2) m(2) by (cases "gpm_receiver m") auto
  ultimately have valid: "valid_sender_and_receiver E (co_db c) ?w = Ok ()"
    unfolding valid_sender_and_receiver_Ok_iff by blast
  from g(10) obtain own where own: "str_range id_b 2 10 = Some own" by blast
  from prefix_in_group_id [OF g(1,4) own] have "str_contains (w_room ?w) own"
    by (simp only: w(1) room(1))
  with own valid s b show ?thesis
    by (intro exI [of _ s]) (simp add: stream_handle_def handle_incoming_eq Let_def)
qed

text \<open>
  An open message is handed on: each actor of its room that can read it has it in its mailbox.
\<close>

definition handed_on ::
  "('db, 'sk, 'pk, 'sg, 'lk, 'kg, 'mk, 'off, 'mo, 'ps) cenv \<Rightarrow>
   ('db, 'sk, 'lk, 'kg, 'mk, 'off, 'mo, 'cos, 'ps) coordinator \<Rightarrow> wire_message \<Rightarrow>
   ('lk, 'kg, 'mk, 'off, 'mo, 'cos, 'ps) effect list \<Rightarrow> bool" where
  "handed_on E c w out \<longleftrightarrow>
     (case (co_keygen_runners c (w_room w), ce_msg_kg E (w_payload w)) of
        (Some a, Some m) \<Rightarrow> \<lparr>im_room = w_room w, im_wire_message = w, im_message = m\<rparr> \<in> set (inbox_keygen a out)
      | _ \<Rightarrow> True) \<and>
     (case (co_offline_state_runners c (w_room w), ce_msg_o E (w_payload w)) of
        (Some a, Some m) \<Rightarrow> \<lparr>im_room = w_room w, im_wire_message = w, im_message = m\<rparr> \<in> set (inbox_offline a out)
      | _ \<Rightarrow> True) \<and>
     (case (co_signers c (w_room w), ce_msg_s E (w_payload w)) of
        (Some a, Some m) \<Rightarrow> \<lparr>im_room = w_room w, im_wire_message = w, im_message = m\<rparr> \<in> set (inbox_signer a out)
      | _ \<Rightarrow> True)"

lemma handed_on_deliveries: "set (deliveries E w c) \<subseteq> set out \<Longrightarrow> handed_on E c w out"
  by (auto simp: handed_on_def deliveries_def split: option.splits)

lemma handed_on_unsafe: "handed_on E c w (co_out (handle_incoming_unsafe E w now n (emit es c)))"
proof (rule handed_on_deliveries)
  have "deliveries E w (emit es c) = deliveries E w c" by (simp add: deliveries_def)
  then show "set (deliveries E w c) \<subseteq> set (co_out (handle_incoming_unsafe E w now n (emit es c)))"
    by (auto simp: handle_incoming_unsafe_eq)
qed

lemma handed_on_routes: "same_routes c c' \<Longrightarrow> handed_on E c' w out \<Longrightarrow> handed_on E c w out"
  by (auto simp: same_routes_def handed_on_def)

section \<open>What an actor says\<close>

text \<open>The message that an actor gives to the coordinator in an event, if it is one for the others.\<close>

fun said_in ::
  "whole_event \<Rightarrow> ('db, 'sk, 'lk, 'kg, 'mk, 'off, 'mo, 'cos, 'ps) whole \<Rightarrow> core_message option" where
  "said_in (Emit_keygen a now) s =
     Option.bind (wh_kg s a) (\<lambda>ac. if ac_sent ac < length (pl_out (ac_state ac))
       then (case pl_out (ac_state ac) ! ac_sent ac of To_broker (Outgoing m) \<Rightarrow> Some m | _ \<Rightarrow> None) else None)"
| "said_in (Emit_offline a now) s =
     Option.bind (wh_off s a) (\<lambda>ac. if ac_sent ac < length (pl_out (ac_state ac))
       then (case pl_out (ac_state ac) ! ac_sent ac of To_broker (Outgoing m) \<Rightarrow> Some m | _ \<Rightarrow> None) else None)"
| "said_in (Emit_signer a now) s =
     Option.bind (wh_sig s a) (\<lambda>ac. if ac_sent ac < length (sn_out (ac_state ac))
       then (case sn_out (ac_state ac) ! ac_sent ac of Signer_outgoing m \<Rightarrow> Some m | _ \<Rightarrow> None) else None)"
| "said_in _ s = None"

lemma said_moves:
  assumes said: "said_in e s = Some m" and enc: "maybe_encrypt E (co_db (wh_node s)) m = Ok m'"
    and up: "\<not> wh_stopped s"
  shows "\<exists>s'. whole_step E M e s = Some s' \<and> wh_node s' = emit [Send_one m'] (wh_node s) \<and>
    wh_posted s' = wh_posted s \<and> \<not> wh_stopped s'"
proof -
  have out: "handle_coordinator_message E now (Outgoing m) (wh_node s) = (emit [Send_one m'] (wh_node s), Ok ())" for now
    using enc by simp
  show ?thesis
  proof (cases e)
    case (Emit_keygen a now)
    with said obtain ac where "wh_kg s a = Some ac" "ac_sent ac < length (pl_out (ac_state ac))"
      "pl_out (ac_state ac) ! ac_sent ac = To_broker (Outgoing m)"
      by (auto simp: bind_eq_Some_conv split: if_splits player_out.splits coordinator_message.splits)
    with Emit_keygen out up show ?thesis by (simp add: node_moves_def del: handle_coordinator_message.simps)
  next
    case (Emit_offline a now)
    with said obtain ac where "wh_off s a = Some ac" "ac_sent ac < length (pl_out (ac_state ac))"
      "pl_out (ac_state ac) ! ac_sent ac = To_broker (Outgoing m)"
      by (auto simp: bind_eq_Some_conv split: if_splits player_out.splits coordinator_message.splits)
    with Emit_offline out up show ?thesis by (simp add: node_moves_def del: handle_coordinator_message.simps)
  next
    case (Emit_signer a now)
    with said obtain ac where "wh_sig s a = Some ac" "ac_sent ac < length (sn_out (ac_state ac))"
      "sn_out (ac_state ac) ! ac_sent ac = Signer_outgoing m"
      by (auto simp: bind_eq_Some_conv split: if_splits signer_out.splits)
    with Emit_signer out up show ?thesis by (simp add: node_moves_def del: handle_coordinator_message.simps)
  qed (use said in simp_all)
qed

section \<open>What the network does to a server\<close>

text \<open>A message that arrives reaches no further than the mailboxes and the timers.\<close>

definition heard_only ::
  "('db, 'sk, 'lk, 'kg, 'mk, 'off, 'mo, 'cos, 'ps) whole \<Rightarrow>
   ('db, 'sk, 'lk, 'kg, 'mk, 'off, 'mo, 'cos, 'ps) whole \<Rightarrow> bool" where
  "heard_only s s' \<longleftrightarrow> same_routes (wh_node s) (wh_node s') \<and> wh_kg s' = wh_kg s \<and> wh_off s' = wh_off s \<and>
     wh_sig s' = wh_sig s \<and> mi_tx (wh_imp s') = mi_tx (wh_imp s) \<and> wh_stopped s' = wh_stopped s"

lemma heard_only_refl [simp]: "heard_only s s"
  by (simp add: heard_only_def)

lemma heard_only_trans: "heard_only s t \<Longrightarrow> heard_only t u \<Longrightarrow> heard_only s u"
  by (auto simp: heard_only_def intro: same_routes_trans)

lemma heard_only_routes: "heard_only s t \<Longrightarrow> same_routes (wh_node s) (wh_node t)"
  by (simp add: heard_only_def)

lemma fold_tx_res_tx: "mi_tx (fold tx_res_send rs i) = mi_tx i"
  by (induction rs arbitrary: i) (simp_all add: tx_res_send_def)

lemma arrives:
  assumes laws: "store_laws E view" and inv: "node_inv E view sk (wh_node s)" and up: "\<not> wh_stopped s"
    and n: "named E view (co_db (wh_node s))" and own: "str_range (identity_of (env_crypto E) sk) 2 10 \<noteq> None"
  shows "\<exists>s'. whole_step E M (Arrive raw now) s = Some s' \<and> heard_only s s' \<and> node_inv E view sk (wh_node s') \<and>
    (\<forall>r. incoming_filter E (co_pk_str (wh_node s)) [Ok raw] = [r] \<longrightarrow> wh_node s' = fst (stream_handle E now r (wh_node s)))"
proof (cases "incoming_filter E (co_pk_str (wh_node s)) [Ok raw]")
  case Nil
  with up inv show ?thesis by simp
next
  case (Cons r rs)
  from network_never_panics(1) [OF laws inv n own] obtain c' where c': "stream_handle E now r (wh_node s) = (c', Ok ())"
    by blast
  have "same_routes (wh_node s) (fst (stream_handle E now r (wh_node s)))"
    by (simp add: stream_handle_def same_routes_handle_incoming split: outcome.split)
  moreover have "node_step E (\<lambda>_. True) (wh_node s) c'"
    by (rule node_step.stream [OF _ c', where raw = raw]) (simp add: Cons)
  from node_inv_step [OF laws this inv] have "node_inv E view sk c'" .
  ultimately show ?thesis using Cons c' up by (simp add: node_moves_def heard_only_def fold_tx_res_tx)
qed

text \<open>What was given to a player of a key generation.\<close>

lemma given_to_player:
  assumes "co_keygen_runners c (w_room w) = Some a" and "ce_msg_kg E (w_payload w) = Some pm"
  shows "inbox_keygen a (co_out (handle_incoming_unsafe E w now n (emit es c))) =
    inbox_keygen a (co_out c @ es) @ [\<lparr>im_room = w_room w, im_wire_message = w, im_message = pm\<rparr>]"
proof -
  have d: "deliveries E w (emit es c) = deliveries E w c" by (simp add: deliveries_def)
  with assms have "inbox_keygen a (deliveries E w c) = [\<lparr>im_room = w_room w, im_wire_message = w, im_message = pm\<rparr>]"
    by (simp add: deliveries_def inbox_keygen_def List.map_filter_simps split: option.split)
  moreover from this have "deliveries E w c \<noteq> []" by (auto simp: inbox_keygen_def List.map_filter_def)
  ultimately show ?thesis by (simp add: handle_incoming_unsafe_eq d mailbox_append)
qed

end
