(* ===== verification/Cluster.thy ===== *)
theory Cluster
  imports Whole_Server Startup
begin

text \<open>
  Several servers over one broker, with a network that may fail: the composition of the whole servers
  of \<open>Whole_Server\<close>, the sinks of \<open>Joins\<close> and the broker of \<open>Messenger\<close> with its interleaving tasks.
  A step is one step of a server, one critical section of the broker, or one move of a message
  between them.
\<close>

section \<open>The state\<close>

text \<open>
  A server that has joined: its key, the server, the sink with its client until a send fails, the
  stream that it reads from the broker and how many events it has read, and while \<open>send_one\<close> awaits
  the answer to a POST, the position of its message in the outbox and the task of the broker that the
  POST has become. \<open>me_asked\<close> are the texts that the sink has asked the broker to broadcast, in this order.
\<close>

record ('db, 'sk, 'lk, 'kg, 'mk, 'off, 'mo, 'cos, 'ps) member =
  me_key :: 'sk
  me_server :: "('db, 'sk, 'lk, 'kg, 'mk, 'off, 'mo, 'cos, 'ps) whole"
  me_link :: "(string, 'sk) link option"
  me_stream :: nat
  me_read :: nat
  me_waits :: "(nat \<times> nat) option"
  me_asked :: "string list"

record ('db, 'sk, 'lk, 'kg, 'mk, 'off, 'mo, 'cos, 'ps) cluster =
  cu_world :: world
  cu_members :: "('db, 'sk, 'lk, 'kg, 'mk, 'off, 'mo, 'cos, 'ps) member list"

definition cluster_empty :: "('db, 'sk, 'lk, 'kg, 'mk, 'off, 'mo, 'cos, 'ps) cluster" where
  "cluster_empty = \<lparr>cu_world = world_empty, cu_members = []\<rparr>"

section \<open>The broker\<close>

text \<open>The steps of \<open>world_step\<close> as functions: a request comes in, a task advances, a stream yields or closes.\<close>

definition world_ask :: "purpose \<Rightarrow> world \<Rightarrow> world" where
  "world_ask p w = w\<lparr>wd_tasks := wd_tasks w @ [Enter p]\<rparr>"

definition world_serve :: "nat \<Rightarrow> world \<Rightarrow> world option" where
  "world_serve i w =
     (if i < length (wd_tasks w)
      then (case advance (wd_tasks w ! i) (wd_db w) of
              (db', t', new) \<Rightarrow> Some (w\<lparr>wd_db := db', wd_tasks := (wd_tasks w)[i := t'],
                wd_streams := wd_streams w @ new\<rparr>))
      else None)"

definition world_yield :: "nat \<Rightarrow> world \<Rightarrow> world option" where
  "world_yield j w =
     (if j < length (wd_streams w) \<and> lv_open (wd_streams w ! j)
      then map_option (\<lambda>(s', ev). w\<lparr>wd_streams := (wd_streams w)
             [j := (wd_streams w ! j)\<lparr>lv_sub := s', lv_got := lv_got (wd_streams w ! j) @ [ev]\<rparr>]\<rparr>)
           (next_event (lv_sub (wd_streams w ! j)) (wd_db w))
      else None)"

definition world_close :: "nat \<Rightarrow> world \<Rightarrow> world option" where
  "world_close j w =
     (if j < length (wd_streams w) \<and> lv_open (wd_streams w ! j)
      then Some (w\<lparr>wd_db := drop_subscription (lv_sub (wd_streams w ! j)) (wd_db w),
             wd_streams := (wd_streams w)[j := (wd_streams w ! j)\<lparr>lv_open := False\<rparr>]\<rparr>)
      else None)"

text \<open>The broker takes a POST for a broadcast unless Rocket refuses it.\<close>

definition broker_accepts :: "string \<Rightarrow> bool" where
  "broker_accepts body \<longleftrightarrow> length body \<le> string_limit \<and> valid_utf8 body"

section \<open>A member\<close>

text \<open>
  The coordinator's \<open>send_one\<close> runs in a critical section: until the answer to its POST is there, no
  other handler of the coordinator runs. These are the events of its handlers.
\<close>

fun runs_handler :: "whole_event \<Rightarrow> bool" where
  "runs_handler (Take now) = True"
| "runs_handler (Fire i now) = True"
| "runs_handler (Emit_keygen a now) = True"
| "runs_handler (Emit_offline a now) = True"
| "runs_handler (Emit_signer a now) = True"
| "runs_handler _ = False"

text \<open>The events of a server in which the network has no part.\<close>

fun is_local :: "whole_event \<Rightarrow> bool" where
  "is_local (Arrive raw now) = False"
| "is_local Stream_ends = False"
| "is_local (whole_event.Post p ok) = False"
| "is_local _ = True"

definition member_local ::
  "('db, 'sk, 'pk, 'sg, 'lk, 'kg, 'mk, 'off, 'mo, 'ps) cenv \<Rightarrow>
   ('lk, 'kg, 'mk, 'off, 'mo, 'cos, 'man, 'ps) machines \<Rightarrow> whole_event \<Rightarrow>
   ('db, 'sk, 'lk, 'kg, 'mk, 'off, 'mo, 'cos, 'ps) member \<Rightarrow>
   ('db, 'sk, 'lk, 'kg, 'mk, 'off, 'mo, 'cos, 'ps) member option" where
  "member_local E M e mb =
     (if is_local e \<and> (me_waits mb = None \<or> \<not> runs_handler e)
      then map_option (\<lambda>s. mb\<lparr>me_server := s\<rparr>) (whole_step E M e (me_server mb)) else None)"

text \<open>
  The message at a position of the outbox, if its \<open>send_one\<close> has still to run. The tasks that wait for
  the sink need not get it in the order in which they were spawned.
\<close>

definition next_out ::
  "nat \<Rightarrow> ('db, 'sk, 'lk, 'kg, 'mk, 'off, 'mo, 'cos, 'ps) member \<Rightarrow> core_message option" where
  "next_out p mb =
     (let s = me_server mb; out = outbox (co_out (wh_node s)) in
      if p < length out \<and> p \<notin> set (wh_posted s) \<and> \<not> wh_stopped s then Some (out ! p) else None)"

text \<open>What the closure of the sink asks of the network for it.\<close>

definition asks_now ::
  "('db, 'sk, 'pk, 'sg, 'lk, 'kg, 'mk, 'off, 'mo, 'ps) cenv \<Rightarrow>
   ('db, 'sk, 'lk, 'kg, 'mk, 'off, 'mo, 'cos, 'ps) member \<Rightarrow> core_message \<Rightarrow> string list" where
  "asks_now E mb m =
     List.map_filter posted_text (fst (sink_send (unfold_messenger E) None m (me_link mb)))"

text \<open>
  \<open>send_one\<close> ends with the reply: the sink keeps its client or has lost it. A sink without a client
  panics, and then there is no next state.
\<close>

definition member_sent ::
  "('db, 'sk, 'pk, 'sg, 'lk, 'kg, 'mk, 'off, 'mo, 'ps) cenv \<Rightarrow>
   ('lk, 'kg, 'mk, 'off, 'mo, 'cos, 'man, 'ps) machines \<Rightarrow> nat option \<Rightarrow> nat \<Rightarrow> core_message \<Rightarrow>
   ('db, 'sk, 'lk, 'kg, 'mk, 'off, 'mo, 'cos, 'ps) member \<Rightarrow>
   ('db, 'sk, 'lk, 'kg, 'mk, 'off, 'mo, 'cos, 'ps) member option" where
  "member_sent E M reply p m mb =
     (case snd (sink_send (unfold_messenger E) reply m (me_link mb)) of
        Ok l \<Rightarrow> map_option (\<lambda>s. mb\<lparr>me_server := s, me_waits := None, me_link := l\<rparr>)
          (whole_step E M (whole_event.Post p (l \<noteq> None)) (me_server mb))
      | _ \<Rightarrow> None)"

text \<open>
  The stream of the transport gives the next event: one that is no text is an error, which the
  filter drops, as it drops the messages that fail the check.
\<close>

definition member_receive ::
  "('db, 'sk, 'pk, 'sg, 'lk, 'kg, 'mk, 'off, 'mo, 'ps) cenv \<Rightarrow>
   ('lk, 'kg, 'mk, 'off, 'mo, 'cos, 'man, 'ps) machines \<Rightarrow> nat \<Rightarrow> string \<Rightarrow>
   ('db, 'sk, 'lk, 'kg, 'mk, 'off, 'mo, 'cos, 'ps) member \<Rightarrow>
   ('db, 'sk, 'lk, 'kg, 'mk, 'off, 'mo, 'cos, 'ps) member option" where
  "member_receive E M now text mb =
     map_option (\<lambda>s. mb\<lparr>me_server := s, me_read := me_read mb + 1\<rparr>)
       (case sm_event (Some (Sse_message text)) of
          Some (Ok raw) \<Rightarrow> whole_step E M (Arrive raw now) (me_server mb)
        | _ \<Rightarrow> Some (me_server mb))"

section \<open>Steps\<close>

text \<open>
  \<open>Join\<close> needs a stream that the broker has opened from the start of its room, for a subscription of
  this server. \<open>Ask\<close> is a request to the broker from outside; a server's own come with \<open>Send\<close>, which
  names the message by its position in the outbox. In \<open>Skip\<close> the closure of the sink fails before it asks
  for anything, or the broker's handler does not get the text: the request was lost, or refused. A \<open>Reply\<close> with a status comes after the broker's task has finished, none may come at
  any time, also when the broker has broadcast the text. \<open>Hang_up\<close> is the end of the stream at the
  server.
\<close>

datatype ('sk, 'db) cluster_event =
    Join string 'sk 'db 'db nat
  | Ask purpose | Serve nat | Yield nat | Close nat
  | Local nat whole_event | Send nat nat | Skip nat nat "nat option" | Reply nat "nat option"
  | Receive nat nat | Hang_up nat

definition at_member ::
  "nat \<Rightarrow> (('db, 'sk, 'lk, 'kg, 'mk, 'off, 'mo, 'cos, 'ps) member \<Rightarrow>
     ('db, 'sk, 'lk, 'kg, 'mk, 'off, 'mo, 'cos, 'ps) member option) \<Rightarrow>
   ('db, 'sk, 'lk, 'kg, 'mk, 'off, 'mo, 'cos, 'ps) cluster \<Rightarrow>
   ('db, 'sk, 'lk, 'kg, 'mk, 'off, 'mo, 'cos, 'ps) cluster option" where
  "at_member i f c =
     (if i < length (cu_members c)
      then map_option (\<lambda>mb. c\<lparr>cu_members := (cu_members c)[i := mb]\<rparr>) (f (cu_members c ! i))
      else None)"

definition member_new ::
  "('db, 'sk, 'pk, 'sg, 'lk, 'kg, 'mk, 'off, 'mo, 'ps) cenv \<Rightarrow> (string, 'sk) link \<Rightarrow> 'sk \<Rightarrow> 'db \<Rightarrow> 'db \<Rightarrow> nat \<Rightarrow>
   ('db, 'sk, 'lk, 'kg, 'mk, 'off, 'mo, 'cos, 'ps) member" where
  "member_new E outgoing sk local_shares results j =
     \<lparr>me_key = sk, me_server = whole_new E sk local_shares results, me_link = Some outgoing,
      me_stream = j, me_read = 0, me_waits = None, me_asked = []\<rparr>"

fun cluster_step ::
  "('db, 'sk, 'pk, 'sg, 'lk, 'kg, 'mk, 'off, 'mo, 'ps) cenv \<Rightarrow>
   ('lk, 'kg, 'mk, 'off, 'mo, 'cos, 'man, 'ps) machines \<Rightarrow> ('sk, 'db) cluster_event \<Rightarrow>
   ('db, 'sk, 'lk, 'kg, 'mk, 'off, 'mo, 'cos, 'ps) cluster \<Rightarrow>
   ('db, 'sk, 'lk, 'kg, 'mk, 'off, 'mo, 'cos, 'ps) cluster option" where
  "cluster_step E M (Join url sk shares results j) c =
     (if j < length (wd_streams (cu_world c)) \<and> lv_from (wd_streams (cu_world c) ! j) = 0 \<and>
         j \<notin> me_stream ` set (cu_members c)
      then (case join_computation_via_messenger E (\<lambda>_. True) (Some 200) url sk of
              Ok (own, outgoing) \<Rightarrow>
                Some (c\<lparr>cu_members := cu_members c @ [member_new E outgoing sk shares results j]\<rparr>)
            | _ \<Rightarrow> None)
      else None)"
| "cluster_step E M (Ask p) c = Some (c\<lparr>cu_world := world_ask p (cu_world c)\<rparr>)"
| "cluster_step E M (Serve i) c = map_option (\<lambda>w. c\<lparr>cu_world := w\<rparr>) (world_serve i (cu_world c))"
| "cluster_step E M (Yield j) c = map_option (\<lambda>w. c\<lparr>cu_world := w\<rparr>) (world_yield j (cu_world c))"
| "cluster_step E M (Close j) c = map_option (\<lambda>w. c\<lparr>cu_world := w\<rparr>) (world_close j (cu_world c))"
| "cluster_step E M (Local i e) c = at_member i (member_local E M e) c"
| "cluster_step E M (Send i p) c =
     map_option (\<lambda>c'. c'\<lparr>cu_world := world_ask (For_broadcast (last (me_asked (cu_members c' ! i)))) (cu_world c')\<rparr>)
       (at_member i (\<lambda>mb.
          if me_waits mb \<noteq> None then None
          else Option.bind (next_out p mb) (\<lambda>m. case asks_now E mb m of
              [text] \<Rightarrow>
                if broker_accepts text
                then Some (mb\<lparr>me_asked := me_asked mb @ [text],
                  me_waits := Some (p, length (wd_tasks (cu_world c)))\<rparr>)
                else None
            | _ \<Rightarrow> None)) c)"
| "cluster_step E M (Skip i p reply) c =
     at_member i (\<lambda>mb.
       if me_waits mb \<noteq> None then None
       else Option.bind (next_out p mb) (\<lambda>m.
         if asks_now E mb m = [] \<or> reply \<noteq> Some 200
         then member_sent E M reply p m (mb\<lparr>me_asked := me_asked mb @ asks_now E mb m\<rparr>)
         else None)) c"
| "cluster_step E M (Reply i reply) c =
     at_member i (\<lambda>mb. Option.bind (me_waits mb) (\<lambda>(p, k).
       if reply = None \<or> wd_tasks (cu_world c) ! k = Finished
       then Option.bind (next_out p mb) (\<lambda>m. member_sent E M reply p m mb)
       else None)) c"
| "cluster_step E M (Receive i now) c =
     at_member i (\<lambda>mb.
       let got = lv_got (wd_streams (cu_world c) ! me_stream mb) in
       if me_waits mb = None \<and> me_read mb < length got
       then member_receive E M now (snd (got ! me_read mb)) mb else None) c"
| "cluster_step E M (Hang_up i) c =
     at_member i (\<lambda>mb.
       if me_waits mb = None \<and> \<not> lv_open (wd_streams (cu_world c) ! me_stream mb)
       then map_option (\<lambda>s. mb\<lparr>me_server := s\<rparr>) (whole_step E M Stream_ends (me_server mb))
       else None) c"

fun cluster_run ::
  "('db, 'sk, 'pk, 'sg, 'lk, 'kg, 'mk, 'off, 'mo, 'ps) cenv \<Rightarrow>
   ('lk, 'kg, 'mk, 'off, 'mo, 'cos, 'man, 'ps) machines \<Rightarrow> ('sk, 'db) cluster_event list \<Rightarrow>
   ('db, 'sk, 'lk, 'kg, 'mk, 'off, 'mo, 'cos, 'ps) cluster \<Rightarrow>
   ('db, 'sk, 'lk, 'kg, 'mk, 'off, 'mo, 'cos, 'ps) cluster option" where
  "cluster_run E M [] c = Some c"
| "cluster_run E M (e # es) c = Option.bind (cluster_step E M e c) (cluster_run E M es)"

section \<open>Runs with strangers\<close>

text \<open>
  What others may send to the broker: anything that does not carry the valid signature of an honest
  key on a payload that no server with this key has asked to broadcast. So a stranger may replay, also
  under another room, but not forge.
\<close>

definition unforged ::
  "('db, 'sk, 'pk, 'sg, 'lk, 'x) env_scheme \<Rightarrow> 'sk set \<Rightarrow>
   ('db, 'sk, 'lk, 'kg, 'mk, 'off, 'mo, 'cos, 'ps) cluster \<Rightarrow> string \<Rightarrow> bool" where
  "unforged E honest c text \<longleftrightarrow>
     (\<forall>w. do_parse_signed E text = Ok w \<longrightarrow>
       (\<forall>sk \<in> honest. w_sender_public_key w = identity_of (env_crypto E) sk \<longrightarrow>
         (\<exists>mb \<in> set (cu_members c). me_key mb = sk \<and>
           (\<exists>text' \<in> set (me_asked mb). \<exists>w'. do_parse_signed E text' = Ok w' \<and> w_payload w' = w_payload w))))"

text \<open>The requests from outside that a run allows; without strangers, only subscriptions.\<close>

fun may_ask ::
  "('db, 'sk, 'pk, 'sg, 'lk, 'x) env_scheme \<Rightarrow> 'sk set \<Rightarrow> bool \<Rightarrow>
   ('db, 'sk, 'lk, 'kg, 'mk, 'off, 'mo, 'cos, 'ps) cluster \<Rightarrow> ('sk, 'db) cluster_event \<Rightarrow> bool" where
  "may_ask E honest strangers c (Ask (For_broadcast text)) \<longleftrightarrow> strangers \<and> unforged E honest c text"
| "may_ask E honest strangers c _ \<longleftrightarrow> True"

inductive cluster_reachable ::
  "('db, 'sk, 'pk, 'sg, 'lk, 'kg, 'mk, 'off, 'mo, 'ps) cenv \<Rightarrow>
   ('lk, 'kg, 'mk, 'off, 'mo, 'cos, 'man, 'ps) machines \<Rightarrow> 'sk set \<Rightarrow> bool \<Rightarrow>
   ('db, 'sk, 'lk, 'kg, 'mk, 'off, 'mo, 'cos, 'ps) cluster \<Rightarrow> bool"
  for E M honest strangers where
  begin_cluster: "cluster_reachable E M honest strangers cluster_empty"
| continue_cluster:
  "cluster_reachable E M honest strangers c \<Longrightarrow> may_ask E honest strangers c e \<Longrightarrow>
   cluster_step E M e c = Some c' \<Longrightarrow> cluster_reachable E M honest strangers c'"

end
