(* ===== verification/Cluster_Facts.thy ===== *)
theory Cluster_Facts
  imports Cluster Whole_Origin
begin

text \<open>
  Lemmas about the runs of several servers: the broker and each server do nothing that they could not
  do alone, every text in the broker has a source, and what a server hears comes from there.
\<close>

section \<open>The parts of a step\<close>

lemma world_functions:
  "world_step w (world_ask p w)"
  "world_serve i w = Some w' \<Longrightarrow> world_step w w'"
  "world_yield j w = Some w' \<Longrightarrow> world_step w w'"
  "world_close j w = Some w' \<Longrightarrow> world_step w w'"
  by (auto simp: world_ask_def world_serve_def world_yield_def world_close_def
      intro: world_step.intros split: if_splits prod.splits)

lemma at_member_Some:
  "at_member i f c = Some c' \<longleftrightarrow> i < length (cu_members c) \<and>
     (\<exists>mb. f (cu_members c ! i) = Some mb \<and> c' = c\<lparr>cu_members := (cu_members c)[i := mb]\<rparr>)"
  by (auto simp: at_member_def)

lemma asks_now_eq:
  "asks_now E mb m =
     (case me_link mb of
        None \<Rightarrow> []
      | Some l \<Rightarrow> (case outgoing_text E (ln_key l) (ln_pub_key l) m of Ok t \<Rightarrow> [t] | _ \<Rightarrow> []))"
  by (auto simp: asks_now_def messenger_sink.send_cases sm_broadcast_def List.map_filter_simps
      split: option.split outcome.split)

text \<open>What a member may do in a step: the texts that it asks for, and the event of its server.\<close>

inductive member_step ::
  "('db, 'sk, 'pk, 'sg, 'lk, 'kg, 'mk, 'off, 'mo, 'ps) cenv \<Rightarrow>
   ('lk, 'kg, 'mk, 'off, 'mo, 'cos, 'man, 'ps) machines \<Rightarrow> world \<Rightarrow>
   ('db, 'sk, 'lk, 'kg, 'mk, 'off, 'mo, 'cos, 'ps) member \<Rightarrow>
   ('db, 'sk, 'lk, 'kg, 'mk, 'off, 'mo, 'cos, 'ps) member \<Rightarrow> string list \<Rightarrow> bool"
  for E M w where
  alone:
  "is_local e \<or> e = Stream_ends \<Longrightarrow> whole_step E M e (me_server mb) = Some s \<Longrightarrow>
   member_step E M w mb (mb\<lparr>me_server := s\<rparr>) []"
| receives:
  "me_read mb < length (lv_got (wd_streams w ! me_stream mb)) \<Longrightarrow>
   me_waits mb = None \<Longrightarrow>
   text = snd (lv_got (wd_streams w ! me_stream mb) ! me_read mb) \<Longrightarrow>
   s = me_server mb \<or> whole_step E M (Arrive text now) (me_server mb) = Some s \<Longrightarrow>
   member_step E M w mb (mb\<lparr>me_server := s, me_read := me_read mb + 1\<rparr>) []"
| sends:
  "me_waits mb = None \<Longrightarrow> next_out p mb = Some m \<Longrightarrow> asks_now E mb m = [text] \<Longrightarrow>
   member_step E M w mb (mb\<lparr>me_asked := me_asked mb @ [text], me_waits := Some (p, length (wd_tasks w))\<rparr>) [text]"
| skips:
  "me_waits mb = None \<Longrightarrow> next_out p mb = Some m \<Longrightarrow>
   member_sent E M reply p m (mb\<lparr>me_asked := me_asked mb @ asks_now E mb m\<rparr>) = Some mb' \<Longrightarrow>
   member_step E M w mb mb' []"
| gets_reply:
  "me_waits mb = Some (p, k) \<Longrightarrow> reply = None \<or> wd_tasks w ! k = Finished \<Longrightarrow> next_out p mb = Some m \<Longrightarrow>
   member_sent E M reply p m mb = Some mb' \<Longrightarrow> member_step E M w mb mb' []"

text \<open>Each step is a join, a request from outside, a step of the broker, or a step of one member.\<close>

inductive cluster_moves ::
  "('db, 'sk, 'pk, 'sg, 'lk, 'kg, 'mk, 'off, 'mo, 'ps) cenv \<Rightarrow>
   ('lk, 'kg, 'mk, 'off, 'mo, 'cos, 'man, 'ps) machines \<Rightarrow> ('sk, 'db) cluster_event \<Rightarrow>
   ('db, 'sk, 'lk, 'kg, 'mk, 'off, 'mo, 'cos, 'ps) cluster \<Rightarrow>
   ('db, 'sk, 'lk, 'kg, 'mk, 'off, 'mo, 'cos, 'ps) cluster \<Rightarrow> bool"
  for E M e c where
  joins:
  "j < length (wd_streams (cu_world c)) \<Longrightarrow> lv_from (wd_streams (cu_world c) ! j) = 0 \<Longrightarrow>
   j \<notin> me_stream ` set (cu_members c) \<Longrightarrow>
   cluster_moves E M e c (c\<lparr>cu_members := cu_members c @ [member_new E (link_of E url sk) sk shares results j]\<rparr>)"
| asks: "e = Ask p \<Longrightarrow> cluster_moves E M e c (c\<lparr>cu_world := world_ask p (cu_world c)\<rparr>)"
| broker:
  "world_serve k (cu_world c) = Some w \<or> world_yield k (cu_world c) = Some w \<or> world_close k (cu_world c) = Some w \<Longrightarrow>
   cluster_moves E M e c (c\<lparr>cu_world := w\<rparr>)"
| moves:
  "i < length (cu_members c) \<Longrightarrow> member_step E M (cu_world c) (cu_members c ! i) mb ts \<Longrightarrow>
   cluster_moves E M e c
     \<lparr>cu_world = fold (\<lambda>t. world_ask (For_broadcast t)) ts (cu_world c), cu_members = (cu_members c)[i := mb]\<rparr>"

lemma member_moves:
  assumes "i < length (cu_members c)" and "member_step E M (cu_world c) (cu_members c ! i) mb []"
  shows "cluster_moves E M e c (c\<lparr>cu_members := (cu_members c)[i := mb]\<rparr>)"
  using cluster_moves.moves [OF assms, of e] by (cases c) simp

lemma member_receive_step:
  assumes "member_receive E M now text mb = Some mb'" and "me_read mb < length (lv_got (wd_streams w ! me_stream mb))"
    and "me_waits mb = None" and "text = snd (lv_got (wd_streams w ! me_stream mb) ! me_read mb)"
  shows "member_step E M w mb mb' []"
proof -
  from assms(1) obtain s where "mb' = mb\<lparr>me_server := s, me_read := me_read mb + 1\<rparr>"
    "s = me_server mb \<or> whole_step E M (Arrive text now) (me_server mb) = Some s"
    by (cases mb) (auto simp: member_receive_def sm_event_def from_utf8_def simp del: whole_step.simps split: if_splits)
  with member_step.receives [OF assms(2-4)] show ?thesis by blast
qed

lemma cluster_step_moves:
  assumes "cluster_step E M e c = Some c'"
  shows "cluster_moves E M e c c'"
proof (cases e)
  case (Join url sk shares results j)
  with assms show ?thesis
    by (auto split: if_splits outcome.splits simp: join_via_messenger_Ok intro: cluster_moves.joins)
next
  case (Ask p)
  with assms show ?thesis by (auto intro: cluster_moves.asks)
next
  case (Local i e')
  with assms show ?thesis
    by (auto simp: at_member_Some member_local_def intro!: member_moves intro: member_step.alone split: if_splits)
next
  case (Send i p)
  let ?mb = "cu_members c ! i"
  from Send assms obtain mb m where i: "i < length (cu_members c)" "me_waits ?mb = None" "next_out p ?mb = Some m"
    and mb: "(case asks_now E ?mb m of
        [t] \<Rightarrow> if broker_accepts t
          then Some (?mb\<lparr>me_asked := me_asked ?mb @ [t], me_waits := Some (p, length (wd_tasks (cu_world c)))\<rparr>) else None
      | _ \<Rightarrow> None) = Some mb"
    and c': "c' = c\<lparr>cu_members := (cu_members c)[i := mb], cu_world := world_ask (For_broadcast (last (me_asked mb))) (cu_world c)\<rparr>"
    by (auto simp: at_member_Some bind_eq_Some_conv simp del: not_None_eq split: if_splits)
  from mb obtain t where t: "asks_now E ?mb m = [t]"
    by (cases "asks_now E ?mb m" rule: remdups_adj.cases) auto
  with mb have mb': "mb = ?mb\<lparr>me_asked := me_asked ?mb @ [t], me_waits := Some (p, length (wd_tasks (cu_world c)))\<rparr>"
    by (simp split: if_splits)
  from cluster_moves.moves [OF i(1) member_step.sends [OF i(2,3) t], of M e] show ?thesis
    by (cases c) (simp add: c' mb')
next
  case (Skip i p reply)
  let ?mb = "cu_members c ! i"
  from Skip assms obtain mb m where i: "i < length (cu_members c)" "me_waits ?mb = None" "next_out p ?mb = Some m"
    and sent: "member_sent E M reply p m (?mb\<lparr>me_asked := me_asked ?mb @ asks_now E ?mb m\<rparr>) = Some mb"
    and c': "c' = c\<lparr>cu_members := (cu_members c)[i := mb]\<rparr>"
    by (auto simp only: cluster_step.simps at_member_Some bind_eq_Some_conv split: if_splits)
  from member_moves [OF i(1) member_step.skips [OF i(2,3) sent]] show ?thesis unfolding c' .
next
  case (Reply i reply)
  with assms show ?thesis
    by (auto simp: at_member_Some bind_eq_Some_conv intro!: member_moves intro: member_step.gets_reply split: if_splits)
next
  case (Receive i now)
  with assms show ?thesis
    by (auto simp: at_member_Some Let_def intro!: member_moves intro: member_receive_step split: if_splits)
next
  case (Hang_up i)
  with assms show ?thesis
    by (auto simp: at_member_Some simp del: whole_step.simps intro!: member_moves intro: member_step.alone split: if_splits)
qed (use assms in \<open>auto intro: cluster_moves.broker\<close>)

section \<open>The texts in the broker\<close>

fun purpose_texts :: "purpose \<Rightarrow> string set" where
  "purpose_texts (For_broadcast text) = {text}"
| "purpose_texts (For_subscribe l) = {}"

fun task_texts :: "task \<Rightarrow> string set" where
  "task_texts (Enter p) = purpose_texts p"
| "task_texts (Missed p) = purpose_texts p"
| "task_texts (Have a p) = purpose_texts p"
| "task_texts Finished = {}"

definition room_texts :: "broker \<Rightarrow> string set" where
  "room_texts db = (\<Union>r \<in> set (bk_heap db). set (ro_messages r))"

definition stream_texts :: "live \<Rightarrow> string set" where
  "stream_texts l = snd ` set (lv_got l)"

lemma stream_texts_simps [simp]:
  "stream_texts (l\<lparr>lv_sub := s, lv_got := lv_got l @ [ev]\<rparr>) = insert (snd ev) (stream_texts l)"
  "stream_texts (l\<lparr>lv_open := b\<rparr>) = stream_texts l" "stream_texts (new_stream s) = {}"
  by (simp_all add: stream_texts_def new_stream_def)

definition world_texts :: "world \<Rightarrow> string set" where
  "world_texts w = room_texts (wd_db w) \<union> (\<Union>t \<in> set (wd_tasks w). task_texts t) \<union>
     (\<Union>l \<in> set (wd_streams w). stream_texts l)"

lemma world_texts_empty [simp]: "world_texts world_empty = {}"
  by (simp add: world_texts_def world_empty_def room_texts_def db_empty_def)

lemma world_texts_ask [simp]: "world_texts (world_ask p w) = world_texts w \<union> purpose_texts p"
  by (auto simp: world_texts_def world_ask_def)

lemma room_texts_update:
  assumes "set (ro_messages (f (bk_heap db ! a))) \<subseteq> set (ro_messages (bk_heap db ! a)) \<union> ts"
  shows "room_texts (update_room a f db) \<subseteq> room_texts db \<union> ts"
proof (cases "a < length (bk_heap db)")
  case True
  with assms show ?thesis
    by (auto simp: room_texts_def update_room_def dest!: subsetD [OF set_update_subset_insert] intro: nth_mem)
qed (simp add: room_texts_def update_room_def list_update_beyond)

lemma room_texts_enter: "enter_room rid db = (db', a) \<Longrightarrow> room_texts db' = room_texts db"
  by (auto simp: enter_room_cases room_texts_def room_empty_def split: if_splits)

lemma advance_texts:
  assumes "advance t db = (db', t', new)"
  shows "room_texts db' \<union> task_texts t' \<union> (\<Union>l \<in> set new. stream_texts l) \<subseteq> room_texts db \<union> task_texts t"
proof (cases "(t, db)" rule: advance.cases)
  case (1 p db)
  with assms show ?thesis by (auto split: option.splits)
next
  case (2 p db)
  with assms show ?thesis by (auto simp: room_texts_enter split: prod.splits)
next
  case (3 a l db0)
  with assms room_texts_update [of "\<lambda>r. r\<lparr>ro_subscribers := ro_subscribers r + 1\<rparr>" db a "{}"] show ?thesis
    by (auto simp: room_subscribe_def)
next
  case (4 a m db0)
  with assms room_texts_update [of "\<lambda>r. r\<lparr>ro_messages := ro_messages r @ [m]\<rparr>" db a "{m}"] show ?thesis
    by (auto simp: publish_def)
qed (use assms in auto)

lemma next_event_text:
  assumes "next_event s db = Some (s', ev)" and "sub_room s < length (bk_heap db)"
  shows "snd ev \<in> room_texts db"
  using assms by (auto simp: next_event_def room_texts_def Let_def split: if_splits intro!: bexI [OF _ nth_mem])

lemma world_texts_serve:
  assumes "world_serve k w = Some w'" shows "world_texts w' \<subseteq> world_texts w"
proof -
  from assms obtain db' t' new where k: "k < length (wd_tasks w)" "advance (wd_tasks w ! k) (wd_db w) = (db', t', new)"
    and w': "w' = w\<lparr>wd_db := db', wd_tasks := (wd_tasks w)[k := t'], wd_streams := wd_streams w @ new\<rparr>"
    by (auto simp: world_serve_def split: if_splits prod.splits)
  have "task_texts (wd_tasks w ! k) \<subseteq> world_texts w" "room_texts (wd_db w) \<subseteq> world_texts w"
    using nth_mem [OF k(1)] by (auto simp: world_texts_def)
  with advance_texts [OF k(2)] show ?thesis
    by (auto simp: world_texts_def w' dest!: subsetD [OF set_update_subset_insert])
qed

lemma world_texts_stream:
  "world_texts (w\<lparr>wd_streams := (wd_streams w)[k := l]\<rparr>) \<subseteq> world_texts w \<union> stream_texts l"
  by (auto simp: world_texts_def dest!: subsetD [OF set_update_subset_insert])

lemma world_texts_broker:
  assumes "world_serve k w = Some w' \<or> world_yield k w = Some w' \<or> world_close k w = Some w'"
    and inv: "world_inv w"
  shows "world_texts w' \<subseteq> world_texts w"
  using assms(1)
proof (elim disjE)
  assume "world_serve k w = Some w'"
  then show ?thesis by (rule world_texts_serve)
next
  assume "world_yield k w = Some w'"
  then obtain s' ev where k: "k < length (wd_streams w)"
    and n: "next_event (lv_sub (wd_streams w ! k)) (wd_db w) = Some (s', ev)"
    and w': "w' = w\<lparr>wd_streams := (wd_streams w)[k := (wd_streams w ! k)
      \<lparr>lv_sub := s', lv_got := lv_got (wd_streams w ! k) @ [ev]\<rparr>]\<rparr>"
    by (auto simp: world_yield_def split: if_splits)
  have ev: "snd ev \<in> world_texts w"
    using next_event_text [OF n] inv nth_mem [OF k] by (auto simp: world_inv_def world_texts_def)
  have "stream_texts (wd_streams w ! k) \<subseteq> world_texts w"
    using nth_mem [OF k] unfolding world_texts_def by blast
  with ev world_texts_stream [of w k "(wd_streams w ! k)\<lparr>lv_sub := s', lv_got := lv_got (wd_streams w ! k) @ [ev]\<rparr>"]
  show ?thesis unfolding w' stream_texts_simps by blast
next
  assume "world_close k w = Some w'"
  then have k: "k < length (wd_streams w)" and w': "w' = w\<lparr>wd_db := drop_subscription (lv_sub (wd_streams w ! k)) (wd_db w),
      wd_streams := (wd_streams w)[k := (wd_streams w ! k)\<lparr>lv_open := False\<rparr>]\<rparr>"
    by (auto simp: world_close_def split: if_splits)
  have "room_texts (wd_db w') \<subseteq> room_texts (wd_db w)"
    using room_texts_update [of "\<lambda>r. r\<lparr>ro_subscribers := ro_subscribers r - 1\<rparr>" "wd_db w" _ "{}"]
    by (simp add: w' drop_subscription_def)
  with nth_mem [OF k] show ?thesis
    by (auto simp: world_texts_def w' dest!: subsetD [OF set_update_subset_insert])
qed

section \<open>The invariant\<close>

text \<open>A text that a member has asked to broadcast, or one of a stranger.\<close>

definition source ::
  "('db, 'sk, 'pk, 'sg, 'lk, 'x) env_scheme \<Rightarrow> 'sk set \<Rightarrow> bool \<Rightarrow>
   ('db, 'sk, 'lk, 'kg, 'mk, 'off, 'mo, 'cos, 'ps) cluster \<Rightarrow> string \<Rightarrow> bool" where
  "source E honest strangers c t \<longleftrightarrow>
     (\<exists>mb \<in> set (cu_members c). t \<in> set (me_asked mb)) \<or> strangers \<and> unforged E honest c t"

definition sources ::
  "('db, 'sk, 'pk, 'sg, 'lk, 'x) env_scheme \<Rightarrow> 'sk set \<Rightarrow> bool \<Rightarrow>
   ('db, 'sk, 'lk, 'kg, 'mk, 'off, 'mo, 'cos, 'ps) cluster \<Rightarrow> wire_message set" where
  "sources E honest strangers c = {w. \<exists>t. source E honest strangers c t \<and> do_parse_signed E t = Ok w}"

definition member_ok ::
  "('db, 'sk, 'pk, 'sg, 'lk, 'kg, 'mk, 'off, 'mo, 'ps) cenv \<Rightarrow> ('db \<Rightarrow> string \<Rightarrow> string option) \<Rightarrow>
   ('lk, 'kg, 'mk, 'off, 'mo, 'cos, 'man, 'ps) machines \<Rightarrow> wire_message set \<Rightarrow> nat \<Rightarrow>
   ('db, 'sk, 'lk, 'kg, 'mk, 'off, 'mo, 'cos, 'ps) member \<Rightarrow> bool" where
  "member_ok E view M base n mb \<longleftrightarrow>
     (\<exists>shares results. whole_reachable E M (me_key mb) shares results (me_server mb)) \<and> me_stream mb < n \<and>
     (\<forall>l. me_link mb = Some l \<longrightarrow> (\<exists>url. l = link_of E url (me_key mb))) \<and>
     (\<forall>t \<in> set (me_asked mb). \<exists>m \<in> set (outbox (co_out (wh_node (me_server mb)))).
        outgoing_text E (me_key mb) (identity_of (env_crypto E) (me_key mb)) m = Ok t) \<and>
     all_origins E view (me_key mb) base (me_server mb)"

lemma member_ok_asked:
  "member_ok E view M base n mb \<Longrightarrow> t \<in> set (me_asked mb) \<Longrightarrow>
   \<exists>m \<in> set (outbox (co_out (wh_node (me_server mb)))).
     outgoing_text E (me_key mb) (identity_of (env_crypto E) (me_key mb)) m = Ok t"
  unfolding member_ok_def by blast

definition cluster_inv ::
  "('db, 'sk, 'pk, 'sg, 'lk, 'kg, 'mk, 'off, 'mo, 'ps) cenv \<Rightarrow> ('db \<Rightarrow> string \<Rightarrow> string option) \<Rightarrow>
   ('lk, 'kg, 'mk, 'off, 'mo, 'cos, 'man, 'ps) machines \<Rightarrow> 'sk set \<Rightarrow> bool \<Rightarrow>
   ('db, 'sk, 'lk, 'kg, 'mk, 'off, 'mo, 'cos, 'ps) cluster \<Rightarrow> bool" where
  "cluster_inv E view M honest strangers c \<longleftrightarrow>
     world_reachable (cu_world c) \<and> (\<forall>t \<in> world_texts (cu_world c). source E honest strangers c t) \<and>
     (\<forall>mb \<in> set (cu_members c).
        member_ok E view M (sources E honest strangers c) (length (wd_streams (cu_world c))) mb)"

definition members_grow ::
  "('db, 'sk, 'lk, 'kg, 'mk, 'off, 'mo, 'cos, 'ps) cluster \<Rightarrow>
   ('db, 'sk, 'lk, 'kg, 'mk, 'off, 'mo, 'cos, 'ps) cluster \<Rightarrow> bool" where
  "members_grow c c' \<longleftrightarrow> (\<forall>mb \<in> set (cu_members c). \<exists>mb' \<in> set (cu_members c').
     me_key mb' = me_key mb \<and> set (me_asked mb) \<subseteq> set (me_asked mb'))"

lemma source_mono:
  assumes "members_grow c c'" and "source E honest strangers c t"
  shows "source E honest strangers c' t"
  using assms(2) unfolding source_def
proof (elim disjE bexE conjE)
  fix mb assume "mb \<in> set (cu_members c)" "t \<in> set (me_asked mb)"
  with assms(1) show "(\<exists>mb \<in> set (cu_members c'). t \<in> set (me_asked mb)) \<or> strangers \<and> unforged E honest c' t"
    unfolding members_grow_def by blast
next
  assume u: strangers "unforged E honest c t"
  have "unforged E honest c' t"
    unfolding unforged_def
  proof (intro allI impI ballI)
    fix w sk assume "do_parse_signed E t = Ok w" "sk \<in> honest"
      "w_sender_public_key w = identity_of (env_crypto E) sk"
    with u(2) obtain mb t' w' where m: "mb \<in> set (cu_members c)" "me_key mb = sk" "t' \<in> set (me_asked mb)"
      "do_parse_signed E t' = Ok w'" "w_payload w' = w_payload w"
      unfolding unforged_def by blast
    from assms(1) m(1) obtain mb' where "mb' \<in> set (cu_members c')" "me_key mb' = me_key mb"
      "set (me_asked mb) \<subseteq> set (me_asked mb')"
      unfolding members_grow_def by blast
    with m(2-5) show "\<exists>mb \<in> set (cu_members c'). me_key mb = sk \<and>
      (\<exists>text' \<in> set (me_asked mb). \<exists>w'. do_parse_signed E text' = Ok w' \<and> w_payload w' = w_payload w)"
      by blast
  qed
  with u(1) show "(\<exists>mb \<in> set (cu_members c'). t \<in> set (me_asked mb)) \<or> strangers \<and> unforged E honest c' t"
    by blast
qed

lemma sources_mono: "members_grow c c' \<Longrightarrow> sources E honest strangers c \<subseteq> sources E honest strangers c'"
  by (auto simp: sources_def intro: source_mono)

lemma all_origins_mono:
  "all_origins E view sk base s \<Longrightarrow> base \<subseteq> base' \<Longrightarrow> all_origins E view sk base' s"
  by (auto simp: all_origins_def intro: has_origin_mono)

lemma member_ok_mono:
  "member_ok E view M base n mb \<Longrightarrow> base \<subseteq> base' \<Longrightarrow> n \<le> n' \<Longrightarrow> member_ok E view M base' n' mb"
  by (auto simp: member_ok_def intro: all_origins_mono)

section \<open>A step of a member\<close>

lemma member_sent_Some:
  "member_sent E M reply p m mb = Some mb' \<longleftrightarrow>
     (\<exists>s l. snd (sink_send (unfold_messenger E) reply m (me_link mb)) = Ok l \<and>
        whole_step E M (whole_event.Post p (l \<noteq> None)) (me_server mb) = Some s \<and>
        mb' = mb\<lparr>me_server := s, me_waits := None, me_link := l\<rparr>)"
  by (auto simp: member_sent_def simp del: whole_step.simps split: outcome.split)

lemma link_after_send:
  "snd (sink_send (unfold_messenger E) reply m l) = Ok l' \<Longrightarrow> l \<noteq> None \<and> (l' = l \<or> l' = None)"
  by (cases l) (auto simp: messenger_sink.send_cases split: if_splits)

text \<open>What a member keeps, and the event of its server, if it took part.\<close>

lemma member_step_facts:
  assumes "member_step E M w mb mb' ts"
  shows "me_key mb' = me_key mb" "me_stream mb' = me_stream mb" "set ts \<subseteq> set (me_asked mb')"
    "me_link mb' = me_link mb \<or> me_link mb' = None"
    "me_asked mb' = me_asked mb \<or> (\<exists>p m. next_out p mb = Some m \<and> me_asked mb' = me_asked mb @ asks_now E mb m)"
proof -
  show "me_key mb' = me_key mb" "me_stream mb' = me_stream mb" "set ts \<subseteq> set (me_asked mb')"
    using assms by (cases; auto simp: member_sent_Some simp del: whole_step.simps)+
  show "me_link mb' = me_link mb \<or> me_link mb' = None"
    using assms by (cases; auto simp: member_sent_Some simp del: whole_step.simps dest!: link_after_send)
  show "me_asked mb' = me_asked mb \<or> (\<exists>p m. next_out p mb = Some m \<and> me_asked mb' = me_asked mb @ asks_now E mb m)"
    using assms
  proof cases
    case (sends p m t)
    then have "next_out p mb = Some m \<and> me_asked mb' = me_asked mb @ asks_now E mb m" by simp
    then show ?thesis by blast
  next
    case (skips p m reply)
    then have "next_out p mb = Some m \<and> me_asked mb' = me_asked mb @ asks_now E mb m"
      by (auto simp: member_sent_Some simp del: whole_step.simps)
    then show ?thesis by blast
  qed (auto simp: member_sent_Some simp del: whole_step.simps)
qed

lemma member_step_server:
  assumes "member_step E M w mb mb' ts"
  shows "me_server mb' = me_server mb \<or> (\<exists>e. whole_step E M e (me_server mb) = Some (me_server mb') \<and>
      (\<forall>raw now. e = Arrive raw now \<longrightarrow> me_read mb < length (lv_got (wd_streams w ! me_stream mb)) \<and>
         raw = snd (lv_got (wd_streams w ! me_stream mb) ! me_read mb)))"
  using assms
proof cases
  case (alone e s)
  then have "\<not> (\<exists>raw now. e = Arrive raw now)" by auto
  with alone show ?thesis by (auto simp del: whole_step.simps)
next
  case (receives t s now)
  from receives(6) show ?thesis
  proof
    assume "whole_step E M (Arrive t now) (me_server mb) = Some s"
    with receives(1,3,5) show ?thesis by (intro disjI2 exI [of _ "Arrive t now"]) (simp del: whole_step.simps)
  qed (simp add: receives(1))
next
  case (skips p m reply)
  then show ?thesis by (intro disjI2) (auto simp: member_sent_Some simp del: whole_step.simps)
next
  case (gets_reply p k reply m)
  then show ?thesis by (intro disjI2) (auto simp: member_sent_Some simp del: whole_step.simps)
qed simp

lemma next_out_Some: "next_out p mb = Some m \<Longrightarrow> m \<in> set (outbox (co_out (wh_node (me_server mb))))"
  by (auto simp: next_out_def Let_def simp del: mailbox_member split: if_splits)

lemma asks_now_text:
  assumes "t \<in> set (asks_now E mb m)" and "\<And>l. me_link mb = Some l \<Longrightarrow> \<exists>url. l = link_of E url (me_key mb)"
  shows "outgoing_text E (me_key mb) (identity_of (env_crypto E) (me_key mb)) m = Ok t"
  using assms by (cases "me_link mb") (fastforce simp: asks_now_eq split: outcome.splits)+

lemma whole_step_outbox:
  assumes "linked s" and "whole_step E M e s = Some s'"
  shows "\<exists>ms. outbox (co_out (wh_node s')) = outbox (co_out (wh_node s)) @ ms"
  using whole_step_adds [OF assms] by (auto simp: adds_def)

lemma reachable_node_inv:
  assumes "store_laws E view" and "whole_reachable E M sk shares results s"
  shows "node_inv E view sk (wh_node s)"
proof -
  have "node_reachable E (\<lambda>_. True) sk shares (wh_node s)"
    using whole_node_submitted [OF assms(2)] by simp
  from node_inv_reachable [OF assms(1) this] show ?thesis .
qed

lemma member_step_ok:
  assumes laws: "store_laws E view" and ok: "member_ok E view M base (length (wd_streams w)) mb"
    and step: "member_step E M w mb mb' ts"
    and texts: "\<And>t v. t \<in> world_texts w \<Longrightarrow> do_parse_signed E t = Ok v \<Longrightarrow> v \<in> base"
  shows "member_ok E view M base (length (wd_streams w)) mb'"
proof -
  note keeps = member_step_facts [OF step]
  from ok obtain shares results where reach: "whole_reachable E M (me_key mb) shares results (me_server mb)"
    and o: "all_origins E view (me_key mb) base (me_server mb)" and j: "me_stream mb < length (wd_streams w)"
    and link: "\<And>l. me_link mb = Some l \<Longrightarrow> \<exists>url. l = link_of E url (me_key mb)"
    and asked: "\<And>t. t \<in> set (me_asked mb) \<Longrightarrow> \<exists>m \<in> set (outbox (co_out (wh_node (me_server mb)))).
        outgoing_text E (me_key mb) (identity_of (env_crypto E) (me_key mb)) m = Ok t"
    by (auto simp: member_ok_def)
  note l = linked_reachable [OF reach]
  have server: "whole_reachable E M (me_key mb) shares results (me_server mb') \<and>
      all_origins E view (me_key mb) base (me_server mb') \<and>
      set (outbox (co_out (wh_node (me_server mb)))) \<subseteq> set (outbox (co_out (wh_node (me_server mb'))))"
    using member_step_server [OF step]
  proof (elim disjE exE conjE)
    fix e assume e: "whole_step E M e (me_server mb) = Some (me_server mb')"
      and arrive: "\<forall>raw now. e = Arrive raw now \<longrightarrow> me_read mb < length (lv_got (wd_streams w ! me_stream mb)) \<and>
        raw = snd (lv_got (wd_streams w ! me_stream mb) ! me_read mb)"
    have "heard E e \<subseteq> base"
    proof (cases e)
      case (Arrive raw now)
      with arrive have "raw \<in> stream_texts (wd_streams w ! me_stream mb)"
        by (auto simp: stream_texts_def)
      with nth_mem [OF j] have "raw \<in> world_texts w" unfolding world_texts_def by blast
      with texts show ?thesis by (auto simp: Arrive)
    qed simp_all
    then have "all_origins E view (me_key mb) base (me_server mb')"
      by (intro all_origins_step [OF laws l e reachable_node_inv [OF laws reach] o]) simp
    with continue_whole [OF reach e] whole_step_outbox [OF l e] show ?thesis by (auto simp del: mailbox_member)
  qed (use reach o in simp)
  have asked': "\<exists>m \<in> set (outbox (co_out (wh_node (me_server mb')))).
      outgoing_text E (me_key mb) (identity_of (env_crypto E) (me_key mb)) m = Ok t" if "t \<in> set (me_asked mb')" for t
  proof -
    from keeps(5) that have "t \<in> set (me_asked mb) \<or> (\<exists>p m. next_out p mb = Some m \<and> t \<in> set (asks_now E mb m))"
      by auto
    then have "\<exists>m \<in> set (outbox (co_out (wh_node (me_server mb)))).
        outgoing_text E (me_key mb) (identity_of (env_crypto E) (me_key mb)) m = Ok t"
    proof
      assume "\<exists>p m. next_out p mb = Some m \<and> t \<in> set (asks_now E mb m)"
      then obtain p m where m: "next_out p mb = Some m" "t \<in> set (asks_now E mb m)" by blast
      from next_out_Some [OF m(1)] asks_now_text [OF m(2) link] show ?thesis by (rule bexI [rotated])
    qed (rule asked)
    with server show ?thesis by blast
  qed
  have link': "\<exists>url. l = link_of E url (me_key mb)" if "me_link mb' = Some l" for l
    using keeps(4) that link by auto
  show ?thesis
    unfolding member_ok_def keeps(1,2)
  proof (intro conjI allI ballI impI)
    show "\<exists>shares results. whole_reachable E M (me_key mb) shares results (me_server mb')"
      using server by blast
  qed (use server j link' asked' in blast)+
qed

section \<open>Every run\<close>

lemma world_step_streams: "world_step w w' \<Longrightarrow> length (wd_streams w) \<le> length (wd_streams w')"
  by (auto elim!: world_stepE)

lemma world_ask_streams [simp]: "wd_streams (world_ask p w) = wd_streams w"
  by (simp add: world_ask_def)

lemma world_reachable_ask: "world_reachable w \<Longrightarrow> world_reachable (world_ask p w)"
  by (rule world_reachable.continue [OF _ world_functions(1)])

lemma world_asks:
  "wd_streams (fold (\<lambda>t. world_ask (For_broadcast t)) ts w) = wd_streams w"
  "world_texts (fold (\<lambda>t. world_ask (For_broadcast t)) ts w) = world_texts w \<union> set ts"
  "world_reachable w \<Longrightarrow> world_reachable (fold (\<lambda>t. world_ask (For_broadcast t)) ts w)"
  by (induction ts arbitrary: w) (simp_all add: world_reachable_ask)

lemma cluster_inv_step:
  assumes laws: "store_laws E view" and inv: "cluster_inv E view M honest strangers c"
    and may: "may_ask E honest strangers c e" and step: "cluster_step E M e c = Some c'"
  shows "cluster_inv E view M honest strangers c'"
proof -
  let ?S = "source E honest strangers" and ?base = "sources E honest strangers"
  let ?n = "\<lambda>c. length (wd_streams (cu_world c))"
  from inv have w: "world_reachable (cu_world c)" and t: "\<And>t. t \<in> world_texts (cu_world c) \<Longrightarrow> ?S c t"
    and ok: "\<And>mb. mb \<in> set (cu_members c) \<Longrightarrow> member_ok E view M (?base c) (?n c) mb"
    by (auto simp: cluster_inv_def)
  have heard: "v \<in> ?base c" if "t \<in> world_texts (cu_world c)" "do_parse_signed E t = Ok v" for t v
    using that \<open>\<And>t. t \<in> world_texts (cu_world c) \<Longrightarrow> ?S c t\<close> by (auto simp: sources_def)
  have rest: "cluster_inv E view M honest strangers c'"
    if "members_grow c c'" and "world_reachable (cu_world c')" and "?n c \<le> ?n c'"
      and "\<And>t. t \<in> world_texts (cu_world c') \<Longrightarrow> t \<in> world_texts (cu_world c) \<or> ?S c' t"
      and "\<And>mb. mb \<in> set (cu_members c') \<Longrightarrow> mb \<in> set (cu_members c) \<or> member_ok E view M (?base c') (?n c') mb" for c'
    unfolding cluster_inv_def
    using that t source_mono [OF that(1)] member_ok_mono [OF ok sources_mono [OF that(1)] that(3)] by blast
  have same: "members_grow c c'" if "set (cu_members c) \<subseteq> set (cu_members c')" for c'
    using that by (auto simp: members_grow_def)
  from cluster_step_moves [OF step] show ?thesis
  proof cases
    case (joins j url sk shares results)
    let ?mb = "member_new E (link_of E url sk) sk shares results j"
    have "whole_reachable E M sk shares results (whole_new E sk shares results)" by (rule begin_whole)
    moreover have "all_origins E view sk (?base c') (whole_new E sk shares results)"
      by (simp add: all_origins_def whole_new_def coordinator_new_def)
    ultimately have "member_ok E view M (?base c') (?n c') ?mb"
      using joins by (auto simp: member_ok_def member_new_def)
    with joins(1) w show ?thesis by (intro rest same) auto
  next
    case (asks p)
    have g: "members_grow c c'" by (rule same) (simp add: asks)
    have "?S c' t" if "t \<in> purpose_texts p" for t
    proof (rule source_mono [OF g])
      from that may asks show "?S c t" by (cases p) (simp_all add: source_def)
    qed
    with asks w show ?thesis
      by (intro rest [OF g]) (auto intro: world_reachable_ask)
  next
    case (broker k w')
    have step: "world_step (cu_world c) w'" using broker(2) by (auto intro: world_functions)
    from world_texts_broker [OF broker(2) world_inv_reachable [OF w]] broker(1) world_step_streams [OF step]
      world_reachable.continue [OF w step]
    show ?thesis by (intro rest same) auto
  next
    case (moves i mb ts)
    let ?old = "cu_members c ! i"
    have old: "?old \<in> set (cu_members c)" using moves(2) by simp
    note keeps = member_step_facts [OF moves(3)]
    have mb: "mb \<in> set (cu_members c')" using moves(1,2) by (simp add: set_update_memI)
    have asked: "set (me_asked ?old) \<subseteq> set (me_asked mb)" using keeps(5) by auto
    have g: "members_grow c c'"
      unfolding members_grow_def
    proof
      fix m assume "m \<in> set (cu_members c)"
      then obtain k where k: "k < length (cu_members c)" "m = cu_members c ! k" by (auto simp: in_set_conv_nth)
      show "\<exists>mb' \<in> set (cu_members c'). me_key mb' = me_key m \<and> set (me_asked m) \<subseteq> set (me_asked mb')"
      proof (cases "k = i")
        case True
        with mb keeps(1) asked k show ?thesis by auto
      next
        case False
        with k moves(1) have "m = cu_members c' ! k" "k < length (cu_members c')" by simp_all
        then show ?thesis by (auto intro: nth_mem)
      qed
    qed
    have new: "member_ok E view M (?base c) (?n c) mb"
      by (rule member_step_ok [OF laws ok [OF old] moves(3) heard])
    have n: "?n c' = ?n c" and texts: "world_texts (cu_world c') = world_texts (cu_world c) \<union> set ts"
      and reach: "world_reachable (cu_world c')"
      using world_asks [where ts = ts and w = "cu_world c"] moves(1) w by simp_all
    have "?S c' t" if "t \<in> set ts" for t
      using that keeps(3) mb by (auto simp: source_def)
    then show ?thesis
      using reach n texts member_ok_mono [OF new sources_mono [OF g]] moves(1)
      by (intro rest [OF g]) (auto dest!: subsetD [OF set_update_subset_insert])
  qed
qed

lemma cluster_inv_reachable:
  assumes "store_laws E view" and "cluster_reachable E M honest strangers c"
  shows "cluster_inv E view M honest strangers c"
  using assms(2)
proof induction
  case begin_cluster
  show ?case by (simp add: cluster_inv_def cluster_empty_def world_reachable.start)
next
  case (continue_cluster c e c')
  then show ?case by (blast intro: cluster_inv_step [OF assms(1)])
qed

section \<open>What a member hears\<close>

text \<open>The messages in the mailboxes of a server.\<close>

definition mailboxes ::
  "('db, 'sk, 'lk, 'kg, 'mk, 'off, 'mo, 'cos, 'ps) whole \<Rightarrow> wire_message set" where
  "mailboxes s =
     {w. \<exists>a. w \<in> im_wire_message ` set (inbox_keygen a (co_out (wh_node s))) \<or>
       w \<in> im_wire_message ` set (inbox_offline a (co_out (wh_node s))) \<or>
       w \<in> im_wire_message ` set (inbox_signer a (co_out (wh_node s)))}"

lemma mailboxes_opened:
  "all_origins E view sk base s \<Longrightarrow> w \<in> mailboxes s \<Longrightarrow> opened E sk base w"
  by (auto simp: mailboxes_def simp del: mailbox_member dest: all_origins_delivered)

text \<open>A message under an honest identity carries the payload of one that its server has asked to send.\<close>

lemma source_signed:
  assumes laws: "transport_laws E" and inv: "cluster_inv E view M honest strangers c"
    and w: "w \<in> sources E honest strangers c" and sk: "sk \<in> honest"
    and signer: "w_sender_public_key w = identity_of (env_crypto E) sk"
  shows "\<exists>mb m. mb \<in> set (cu_members c) \<and>
    identity_of (env_crypto E) (me_key mb) = identity_of (env_crypto E) sk \<and>
    m \<in> set (outbox (co_out (wh_node (me_server mb)))) \<and> w_payload w = c_message m \<and>
    (strangers \<or> w_room w = c_room m)"
proof -
  have asked: "\<exists>m. m \<in> set (outbox (co_out (wh_node (me_server mb)))) \<and> v = signed_wire E (me_key mb) m"
    if "mb \<in> set (cu_members c)" "t \<in> set (me_asked mb)" "do_parse_signed E t = Ok v" for mb t v
  proof -
    have "member_ok E view M (sources E honest strangers c) (length (wd_streams (cu_world c))) mb"
      using inv that(1) unfolding cluster_inv_def by blast
    from member_ok_asked [OF this that(2)] obtain m where m: "m \<in> set (outbox (co_out (wh_node (me_server mb))))"
      "outgoing_text E (me_key mb) (identity_of (env_crypto E) (me_key mb)) m = Ok t" by blast
    with parse_outgoing_text(1) [OF laws m(2)] that(3) show ?thesis by auto
  qed
  from w obtain t where t: "source E honest strangers c t" "do_parse_signed E t = Ok w"
    by (auto simp: sources_def)
  from t(1) show ?thesis
    unfolding source_def
  proof (elim disjE bexE conjE)
    fix mb assume mb: "mb \<in> set (cu_members c)" "t \<in> set (me_asked mb)"
    from asked [OF mb t(2)] obtain m where m: "m \<in> set (outbox (co_out (wh_node (me_server mb))))"
      "w = signed_wire E (me_key mb) m" by blast
    from m(2) signer have "identity_of (env_crypto E) (me_key mb) = identity_of (env_crypto E) sk"
      "w_payload w = c_message m" "w_room w = c_room m" by simp_all
    with mb(1) m(1) show ?thesis by blast
  next
    assume strangers and u: "unforged E honest c t"
    from u t(2) sk signer obtain mb t' w' where mb: "mb \<in> set (cu_members c)" "me_key mb = sk"
      "t' \<in> set (me_asked mb)" "do_parse_signed E t' = Ok w'" "w_payload w' = w_payload w"
      unfolding unforged_def by blast
    from asked [OF mb(1,3,4)] obtain m where "m \<in> set (outbox (co_out (wh_node (me_server mb))))"
      "w' = signed_wire E (me_key mb) m" by blast
    with mb \<open>strangers\<close> show ?thesis by (metis signed_wire_simps(2))
  qed
qed

text \<open>What was sealed by one server and opened by another.\<close>

lemma opened_sealed:
  assumes laws: "cipher_laws E" and enc: "maybe_encrypt E db m0 = Ok m"
    and w0: "w_payload w0 = c_message m" and dec: "maybe_decrypt E sk w0 = Ok w"
  shows "\<exists>g g'. de (env_gpm E) (c_message m0) = Some g \<and> de (env_gpm E) (w_payload w) = Some g' \<and>
    gpm_sender g' = gpm_sender g \<and> gpm_receiver g' = gpm_receiver g \<and>
    (case gpm_receiver g of
       None \<Rightarrow> w_payload w = c_message m0
     | Some r \<Rightarrow> addressed_to E db sk (c_room m0) r \<longrightarrow> g' = g)"
proof -
  obtain g where g: "de (env_gpm E) (c_message m0) = Some g"
    using enc by (cases "de (env_gpm E) (c_message m0)") (simp_all add: maybe_encrypt_unparsed)
  from maybe_encrypt_header [OF laws enc g] obtain h where h: "de (env_gpm E) (c_message m) = Some h"
    "gpm_sender h = gpm_sender g" "gpm_receiver h = gpm_receiver g" by blast
  show ?thesis
  proof (cases "gpm_receiver g")
    case None
    with h w0 dec maybe_decrypt_broadcast [of E w0 h sk] have "w = w0" by simp
    moreover from None maybe_encrypt_broadcast [OF g None, of db] enc have "m = m0" by simp
    ultimately show ?thesis using g w0 None by auto
  next
    case (Some r)
    with h w0 dec obtain b s where s: "w = w0\<lparr>w_payload := s\<rparr>" "ser (env_gpm E) (h\<lparr>gpm_body := b\<rparr>) = Some s"
      by (auto simp: maybe_decrypt_def and_then_eq_Ok)
    with laws have g': "de (env_gpm E) (w_payload w) = Some (h\<lparr>gpm_body := b\<rparr>)"
      by (simp add: cipher_laws_def json_lawsD(1))
    have "h\<lparr>gpm_body := b\<rparr> = g" if "addressed_to E db sk (c_room m0) r"
      using maybe_decrypt_maybe_encrypt [OF laws enc g Some that w0] dec g' by auto
    with g g' h Some show ?thesis by auto
  qed
qed

end
