(* ===== verification/Cluster_Order.thy ===== *)
theory Cluster_Order
  imports Cluster_Facts "HOL-Library.Sublist"
begin

text \<open>
  The order in which the broker publishes what one server asks for: \<open>send_one\<close> waits for the answer
  before it gives the sink back, and a sink that got none asks for nothing more, so that the tasks of one
  server never overtake each other.
\<close>

section \<open>The texts of one server\<close>

definition from_key :: "('db, 'sk, 'pk, 'sg, 'lk, 'x) env_scheme \<Rightarrow> 'sk \<Rightarrow> string \<Rightarrow> bool" where
  "from_key E sk t \<longleftrightarrow>
     (\<exists>w. do_parse_signed E t = Ok w \<and> w_sender_public_key w = identity_of (env_crypto E) sk)"

text \<open>The tasks that have yet to publish a text of the key.\<close>

definition pending :: "('db, 'sk, 'pk, 'sg, 'lk, 'x) env_scheme \<Rightarrow> 'sk \<Rightarrow> world \<Rightarrow> nat set" where
  "pending E sk w =
     {k. k < length (wd_tasks w) \<and> (\<exists>t \<in> task_texts (wd_tasks w ! k). from_key E sk t)}"

definition settled ::
  "('db, 'sk, 'pk, 'sg, 'lk, 'x) env_scheme \<Rightarrow> world \<Rightarrow>
   ('db, 'sk, 'lk, 'kg, 'mk, 'off, 'mo, 'cos, 'ps) member \<Rightarrow> string list" where
  "settled E w mb = (if pending E (me_key mb) w = {} then me_asked mb else butlast (me_asked mb))"

text \<open>
  At most one task is pending, for the last text that was asked for, and the sink waits for it or is
  lost; and each room has the texts of the server in the order in which it asked for them.
\<close>

definition ordered ::
  "('db, 'sk, 'pk, 'sg, 'lk, 'x) env_scheme \<Rightarrow> world \<Rightarrow>
   ('db, 'sk, 'lk, 'kg, 'mk, 'off, 'mo, 'cos, 'ps) member \<Rightarrow> bool" where
  "ordered E w mb \<longleftrightarrow>
     (\<forall>k \<in> pending E (me_key mb) w. me_asked mb \<noteq> [] \<and> task_texts (wd_tasks w ! k) = {last (me_asked mb)} \<and>
        (map_option snd (me_waits mb) = Some k \<or> me_link mb = None)) \<and>
     (\<forall>k \<in> pending E (me_key mb) w. \<forall>k' \<in> pending E (me_key mb) w. k = k') \<and>
     (\<forall>r \<in> set (bk_heap (wd_db w)). subseq (filter (from_key E (me_key mb)) (ro_messages r)) (settled E w mb))"

lemma orderedD:
  assumes "ordered E w mb"
  shows "k \<in> pending E (me_key mb) w \<Longrightarrow> me_asked mb \<noteq> []"
    and "k \<in> pending E (me_key mb) w \<Longrightarrow> task_texts (wd_tasks w ! k) = {last (me_asked mb)}"
    and "k \<in> pending E (me_key mb) w \<Longrightarrow> map_option snd (me_waits mb) = Some k \<or> me_link mb = None"
    and "k \<in> pending E (me_key mb) w \<Longrightarrow> k' \<in> pending E (me_key mb) w \<Longrightarrow> k = k'"
    and "r \<in> set (bk_heap (wd_db w)) \<Longrightarrow>
      subseq (filter (from_key E (me_key mb)) (ro_messages r)) (settled E w mb)"
proof -
  note o = assms [unfolded ordered_def]
  show "k \<in> pending E (me_key mb) w \<Longrightarrow> me_asked mb \<noteq> []"
    and "k \<in> pending E (me_key mb) w \<Longrightarrow> task_texts (wd_tasks w ! k) = {last (me_asked mb)}"
    and "k \<in> pending E (me_key mb) w \<Longrightarrow> map_option snd (me_waits mb) = Some k \<or> me_link mb = None"
    using o [THEN conjunct1] by simp_all
  show "k \<in> pending E (me_key mb) w \<Longrightarrow> k' \<in> pending E (me_key mb) w \<Longrightarrow> k = k'"
    using o [THEN conjunct2, THEN conjunct1] by simp
  show "r \<in> set (bk_heap (wd_db w)) \<Longrightarrow>
      subseq (filter (from_key E (me_key mb)) (ro_messages r)) (settled E w mb)"
    using o [THEN conjunct2, THEN conjunct2] by simp
qed

text \<open>Steps that leave the tasks and the messages alone.\<close>

lemma ordered_same:
  assumes "ordered E w mb" and "wd_tasks w' = wd_tasks w"
    and "ro_messages ` set (bk_heap (wd_db w')) \<subseteq> insert [] (ro_messages ` set (bk_heap (wd_db w)))"
  shows "ordered E w' mb"
proof -
  have p: "pending E (me_key mb) w' = pending E (me_key mb) w" by (simp add: pending_def assms(2))
  then have s: "settled E w' mb = settled E w mb" by (simp add: settled_def)
  have "subseq (filter (from_key E (me_key mb)) (ro_messages r)) (settled E w mb)"
    if "r \<in> set (bk_heap (wd_db w'))" for r
  proof -
    from that assms(3) have "ro_messages r = [] \<or> (\<exists>r' \<in> set (bk_heap (wd_db w)). ro_messages r = ro_messages r')"
      by blast
    with orderedD(5) [OF assms(1)] show ?thesis by auto
  qed
  with assms(1) show ?thesis by (simp add: ordered_def p s assms(2))
qed

lemma messages_update:
  assumes "ro_messages (f (bk_heap db ! a)) = ro_messages (bk_heap db ! a)"
  shows "map ro_messages (bk_heap (update_room a f db)) = map ro_messages (bk_heap db)"
  using assms by (cases "a < length (bk_heap db)") 
    (simp_all add: update_room_def list_update_beyond map_update list_update_same_conv)

lemma messages_set: "map ro_messages xs = map ro_messages ys \<Longrightarrow> ro_messages ` set xs = ro_messages ` set ys"
  by (metis list.set_map)

text \<open>A task of the broker advances.\<close>

lemma advance_cases:
  assumes "advance t db = (db', t', new)"
  shows "(task_texts t' = task_texts t \<and>
      ro_messages ` set (bk_heap db') \<subseteq> insert [] (ro_messages ` set (bk_heap db))) \<or>
    (\<exists>a m. t = Have a (For_broadcast m) \<and> t' = Finished \<and> db' = publish a m db)"
proof (cases "(t, db)" rule: advance.cases)
  case (1 p db)
  with assms show ?thesis by (auto split: option.splits)
next
  case (2 p db0)
  with assms show ?thesis by (auto simp: enter_room_cases room_empty_def split: if_splits)
next
  case (3 a l db0)
  have "map ro_messages (bk_heap (fst (room_subscribe a l db0))) = map ro_messages (bk_heap db0)"
    using messages_update [of "\<lambda>r. r\<lparr>ro_subscribers := ro_subscribers r + 1\<rparr>" db0 a] by (simp add: room_subscribe_def)
  from messages_set [OF this] 3 assms show ?thesis by (auto split: prod.splits)
qed (use assms in auto)

lemma pending_update:
  assumes "k < length (wd_tasks w)"
  shows "pending E sk (w\<lparr>wd_db := db, wd_tasks := (wd_tasks w)[k := t], wd_streams := ss\<rparr>) =
    (if \<exists>m \<in> task_texts t. from_key E sk m then insert k (pending E sk w) else pending E sk w - {k})"
  using assms by (auto simp: pending_def nth_list_update split: if_splits)

lemma ordered_serve:
  assumes o: "ordered E w mb" and step: "world_serve k w = Some w'"
  shows "ordered E w' mb"
proof -
  from step obtain db' t' new where k: "k < length (wd_tasks w)" "advance (wd_tasks w ! k) (wd_db w) = (db', t', new)"
    and w': "w' = w\<lparr>wd_db := db', wd_tasks := (wd_tasks w)[k := t'], wd_streams := wd_streams w @ new\<rparr>"
    by (auto simp: world_serve_def split: if_splits prod.splits)
  let ?P = "pending E (me_key mb)" and ?f = "from_key E (me_key mb)"
  from advance_cases [OF k(2)] show ?thesis
  proof (elim disjE exE conjE)
    assume t: "task_texts t' = task_texts (wd_tasks w ! k)"
      and m: "ro_messages ` set (bk_heap db') \<subseteq> insert [] (ro_messages ` set (bk_heap (wd_db w)))"
    have texts: "task_texts (wd_tasks w' ! j) = task_texts (wd_tasks w ! j)" for j
      using k(1) t by (cases "j = k") (simp_all add: w')
    have p: "?P w' = ?P w"
      unfolding pending_def texts by (simp add: w')
    have "subseq (filter ?f (ro_messages r)) (settled E w mb)" if "r \<in> set (bk_heap db')" for r
    proof -
      from that m have "ro_messages r = [] \<or> (\<exists>r' \<in> set (bk_heap (wd_db w)). ro_messages r = ro_messages r')"
        by blast
      with orderedD(5) [OF o] show ?thesis by auto
    qed
    moreover have "settled E w' mb = settled E w mb" by (simp add: settled_def p)
    ultimately show ?thesis
      using o unfolding ordered_def p texts by (simp add: w')
  next
    fix a m assume t: "wd_tasks w ! k = Have a (For_broadcast m)" "t' = Finished" "db' = publish a m (wd_db w)"
    have p: "?P w' = ?P w - {k}" unfolding w' pending_update [OF k(1)] t(2) by simp
    have texts: "task_texts (wd_tasks w' ! j) = task_texts (wd_tasks w ! j)" if "j \<in> ?P w'" for j
      using that p by (cases "j = k") (simp_all add: w')
    have old: "subseq (filter ?f (ro_messages r)) (settled E w mb)" if "r \<in> set (bk_heap (wd_db w))" for r
      using orderedD(5) [OF o that] .
    have step: "subseq (filter ?f (ro_messages r @ [m])) (settled E w' mb)" and
      kept: "subseq (filter ?f (ro_messages r)) (settled E w' mb)"
      if "r \<in> set (bk_heap (wd_db w))" for r
    proof -
      have "subseq (filter ?f (ro_messages r @ [m])) (settled E w' mb) \<and>
        subseq (filter ?f (ro_messages r)) (settled E w' mb)"
      proof (cases "k \<in> ?P w")
        case True
        then have "?P w = {k}" using orderedD(4) [OF o] by blast
        then have s: "settled E w mb = butlast (me_asked mb)" "settled E w' mb = me_asked mb"
          by (simp_all add: settled_def p)
        have last: "m = last (me_asked mb)" "me_asked mb \<noteq> []"
          using orderedD(1,2) [OF o True] t(1) by simp_all
        then have "butlast (me_asked mb) @ [m] = me_asked mb" by simp
        moreover have "subseq (filter ?f (ro_messages r) @ [m]) (butlast (me_asked mb) @ [m])"
          using old [OF that] s(1) by (simp add: subseq_append)
        ultimately have one: "subseq (filter ?f (ro_messages r) @ [m]) (me_asked mb)" by simp
        have "subseq (filter ?f (ro_messages r)) (filter ?f (ro_messages r) @ [m])"
          by (rule prefix_imp_subseq) simp
        with one have "subseq (filter ?f (ro_messages r)) (me_asked mb)"
          by (rule subseq_order.trans [rotated])
        with one show ?thesis by (simp add: s)
      next
        case False
        with k(1) t(1) have "\<not> ?f m" by (auto simp: pending_def)
        moreover from False p have "settled E w' mb = settled E w mb" by (simp add: settled_def)
        ultimately show ?thesis using old [OF that] by simp
      qed
      then show "subseq (filter ?f (ro_messages r @ [m])) (settled E w' mb)"
        "subseq (filter ?f (ro_messages r)) (settled E w' mb)" by blast+
    qed
    have "subseq (filter ?f (ro_messages r)) (settled E w' mb)" if "r \<in> set (bk_heap db')" for r
    proof -
      from that have "r \<in> set (bk_heap (wd_db w)) \<or>
          (a < length (bk_heap (wd_db w)) \<and> ro_messages r = ro_messages (bk_heap (wd_db w) ! a) @ [m])"
        by (cases "a < length (bk_heap (wd_db w))")
          (auto simp: t(3) publish_def update_room_def list_update_beyond dest!: subsetD [OF set_update_subset_insert])
      with kept step show ?thesis by fastforce
    qed
    moreover have "me_asked mb \<noteq> [] \<and> task_texts (wd_tasks w' ! j) = {last (me_asked mb)} \<and>
        (map_option snd (me_waits mb) = Some j \<or> me_link mb = None)" if "j \<in> ?P w'" for j
      using that p texts [OF that] orderedD(1-3) [OF o, of j] by simp
    ultimately show ?thesis
      using orderedD(4) [OF o] p unfolding ordered_def by (simp add: w')
  qed
qed

lemma ordered_broker:
  assumes o: "ordered E w mb"
    and step: "world_serve k w = Some w' \<or> world_yield k w = Some w' \<or> world_close k w = Some w'"
  shows "ordered E w' mb"
  using step
proof (elim disjE)
  assume "world_serve k w = Some w'"
  with o show ?thesis by (rule ordered_serve)
next
  assume "world_yield k w = Some w'"
  then show ?thesis by (intro ordered_same [OF o]) (auto simp: world_yield_def split: if_splits)
next
  assume c: "world_close k w = Some w'"
  let ?s = "lv_sub (wd_streams w ! k)"
  have "map ro_messages (bk_heap (drop_subscription ?s (wd_db w))) = map ro_messages (bk_heap (wd_db w))"
    using messages_update [of "\<lambda>r. r\<lparr>ro_subscribers := ro_subscribers r - 1\<rparr>" "wd_db w" "sub_room ?s"]
    by (simp add: drop_subscription_def)
  from messages_set [OF this] c show ?thesis
    by (intro ordered_same [OF o]) (auto simp: world_close_def split: if_splits)
qed

section \<open>Requests\<close>

lemma ordered_cong:
  assumes "me_key mb' = me_key mb" and "me_asked mb' = me_asked mb"
    and "me_waits mb' = me_waits mb" and "me_link mb' = me_link mb"
  shows "ordered E w mb' \<longleftrightarrow> ordered E w mb"
  using assms by (simp add: ordered_def settled_def)

lemma pending_ask:
  "pending E sk (world_ask p w) =
     (if \<exists>t \<in> purpose_texts p. from_key E sk t then insert (length (wd_tasks w)) (pending E sk w) else pending E sk w)"
  by (auto simp: pending_def world_ask_def nth_append less_Suc_eq split: if_splits)

lemma world_ask_fields [simp]:
  "wd_db (world_ask p w) = wd_db w" "wd_tasks (world_ask p w) = wd_tasks w @ [Enter p]"
  by (simp_all add: world_ask_def)

lemma pending_bound: "k \<in> pending E sk w \<Longrightarrow> k < length (wd_tasks w)"
  by (simp add: pending_def)

lemma ordered_ask:
  assumes o: "ordered E w mb" and "\<not> (\<exists>t \<in> purpose_texts p. from_key E (me_key mb) t)"
  shows "ordered E (world_ask p w) mb"
proof -
  have p: "pending E (me_key mb) (world_ask p w) = pending E (me_key mb) w"
    using assms(2) unfolding pending_ask by simp
  have "task_texts (wd_tasks (world_ask p w) ! k) = task_texts (wd_tasks w ! k)" if "k \<in> pending E (me_key mb) w" for k
    using pending_bound [OF that] by (simp add: nth_append)
  with o show ?thesis unfolding ordered_def settled_def p by simp
qed

text \<open>A sink that is not lost, and does not wait, has no task that is pending.\<close>

lemma nothing_pending:
  assumes o: "ordered E w mb" and w: "me_waits mb = None" and l: "me_link mb \<noteq> None"
  shows "pending E (me_key mb) w = {}"
  using orderedD(3) [OF o] w l by auto

lemma asks_linked: "asks_now E mb m \<noteq> [] \<Longrightarrow> me_link mb \<noteq> None"
  by (cases "me_link mb") (simp_all add: asks_now_eq)

lemma ordered_sends:
  assumes o: "ordered E w mb" and w: "me_waits mb = None" and l: "me_link mb \<noteq> None"
    and t: "from_key E (me_key mb) t"
  shows "ordered E (world_ask (For_broadcast t) w)
    (mb\<lparr>me_asked := me_asked mb @ [t], me_waits := Some (p, length (wd_tasks w))\<rparr>)"
proof -
  note e = nothing_pending [OF o w l]
  then have p: "pending E (me_key mb) (world_ask (For_broadcast t) w) = {length (wd_tasks w)}"
    using t unfolding pending_ask by simp
  have "subseq (filter (from_key E (me_key mb)) (ro_messages r)) (me_asked mb)" if "r \<in> set (bk_heap (wd_db w))" for r
    using orderedD(5) [OF o that] e by (simp add: settled_def)
  then show ?thesis by (simp add: ordered_def settled_def p)
qed

lemma ordered_asks_more:
  assumes o: "ordered E w mb" and e: "pending E (me_key mb) w = {}"
  shows "ordered E w (mb\<lparr>me_asked := me_asked mb @ ts, me_server := s, me_waits := x, me_link := l\<rparr>)"
proof -
  have "subseq (filter (from_key E (me_key mb)) (ro_messages r)) (me_asked mb @ ts)" if "r \<in> set (bk_heap (wd_db w))" for r
  proof -
    have "subseq (filter (from_key E (me_key mb)) (ro_messages r)) (me_asked mb)"
      using orderedD(5) [OF o that] e by (simp add: settled_def)
    moreover have "subseq (me_asked mb) (me_asked mb @ ts)" by (rule prefix_imp_subseq) simp
    ultimately show ?thesis by (rule subseq_order.trans)
  qed
  with e show ?thesis by (simp add: ordered_def settled_def)
qed

lemma ordered_lost:
  assumes o: "ordered E w mb"
  shows "ordered E w (mb\<lparr>me_server := s, me_waits := x, me_link := None\<rparr>)"
proof -
  let ?mb = "mb\<lparr>me_server := s, me_waits := x, me_link := None\<rparr>"
  have "settled E w ?mb = settled E w mb" by (simp add: settled_def)
  with o show ?thesis by (simp add: ordered_def)
qed

lemma ordered_member_step:
  assumes o: "ordered E w mb" and step: "member_step E M w mb mb' ts"
    and t: "\<And>t. t \<in> set ts \<Longrightarrow> from_key E (me_key mb) t"
  shows "ordered E (fold (\<lambda>t. world_ask (For_broadcast t)) ts w) mb'"
  using step
proof cases
  case (alone e s)
  with o ordered_cong [of "mb\<lparr>me_server := s\<rparr>" mb E w] show ?thesis by simp
next
  case (receives t s now)
  with o ordered_cong [of "mb\<lparr>me_server := s, me_read := me_read mb + 1\<rparr>" mb E w] show ?thesis by simp
next
  case (sends p m t')
  with t ordered_sends [OF o sends(3) asks_linked [of E mb m]] show ?thesis by simp
next
  case (skips p m reply)
  from skips obtain s l where sent: "snd (sink_send (unfold_messenger E) reply m (me_link mb)) = Ok l"
    and mb': "mb' = mb\<lparr>me_asked := me_asked mb @ asks_now E mb m, me_server := s, me_waits := None, me_link := l\<rparr>"
    by (auto simp: member_sent_Some simp del: whole_step.simps)
  from link_after_send [OF sent] ordered_asks_more [OF o nothing_pending [OF o skips(2)]] skips(1)
  show ?thesis by (simp add: mb')
next
  case (gets_reply p k reply m)
  from gets_reply obtain s l where sent: "snd (sink_send (unfold_messenger E) reply m (me_link mb)) = Ok l"
    and mb': "mb' = mb\<lparr>me_server := s, me_waits := None, me_link := l\<rparr>"
    by (auto simp: member_sent_Some simp del: whole_step.simps)
  show ?thesis
  proof (cases l)
    case None
    with ordered_lost [OF o, where s = s and x = None] gets_reply(1) show ?thesis by (simp add: mb')
  next
    case (Some lk)
    have linked: "me_link mb \<noteq> None" using link_after_send [OF sent] by simp
    with sent Some have "reply \<noteq> None" by (auto simp: messenger_sink.send_cases split: if_splits)
    with gets_reply(3) have f: "wd_tasks w ! k = Finished" by simp
    have "pending E (me_key mb) w = {}"
    proof (rule ccontr)
      assume "pending E (me_key mb) w \<noteq> {}"
      then obtain j where j: "j \<in> pending E (me_key mb) w" by blast
      with orderedD(3) [OF o j] gets_reply(2) linked have "j = k" by auto
      with f j show False by (simp add: pending_def)
    qed
    from ordered_asks_more [OF o this, where s = s and ts = "[]" and x = None and l = l] gets_reply(1) show ?thesis by (simp add: mb')
  qed
qed

section \<open>Every run without strangers\<close>

abbreviation identities ::
  "('db, 'sk, 'pk, 'sg, 'lk, 'x) env_scheme \<Rightarrow>
   ('db, 'sk, 'lk, 'kg, 'mk, 'off, 'mo, 'cos, 'ps) cluster \<Rightarrow> string list" where
  "identities E c \<equiv> map (\<lambda>mb. identity_of (env_crypto E) (me_key mb)) (cu_members c)"

lemma asked_from_key:
  assumes laws: "transport_laws E" and ok: "member_ok E view M base n mb" and t: "t \<in> set (me_asked mb)"
  shows "from_key E sk t \<longleftrightarrow> identity_of (env_crypto E) (me_key mb) = identity_of (env_crypto E) sk"
proof -
  from member_ok_asked [OF ok t] obtain m where
    "outgoing_text E (me_key mb) (identity_of (env_crypto E) (me_key mb)) m = Ok t" by blast
  from parse_outgoing_text(1) [OF laws this] show ?thesis by (simp add: from_key_def)
qed

lemma world_text_asked:
  assumes laws: "transport_laws E" and inv: "cluster_inv E view M honest False c"
    and t: "t \<in> world_texts (cu_world c)" and f: "from_key E sk t"
  shows "identity_of (env_crypto E) sk \<in> set (identities E c)"
proof -
  from inv t obtain mb where mb: "mb \<in> set (cu_members c)" "t \<in> set (me_asked mb)"
    unfolding cluster_inv_def source_def by blast
  with inv have "member_ok E view M (sources E honest False c) (length (wd_streams (cu_world c))) mb"
    unfolding cluster_inv_def by blast
  from asked_from_key [OF laws this mb(2)] f mb(1) show ?thesis by force
qed

lemma identities_step:
  assumes "cluster_moves E M e c c'"
  shows "\<exists>ks. identities E c' = identities E c @ ks"
  using assms
proof cases
  case (moves i mb ts)
  then have "identities E c' = identities E c"
    using member_step_facts(1) [OF moves(3)] by (simp add: map_update list_update_same_conv)
  then show ?thesis by simp
qed simp_all

lemma ordered_new:
  assumes laws: "transport_laws E" and inv: "cluster_inv E view M honest False c"
    and new: "identity_of (env_crypto E) sk \<notin> set (identities E c)"
  shows "ordered E (cu_world c) (member_new E l sk shares results j)"
proof -
  have no: "\<not> from_key E sk t" if "t \<in> world_texts (cu_world c)" for t
    using world_text_asked [OF laws inv that] new by blast
  have "task_texts (wd_tasks (cu_world c) ! k) \<subseteq> world_texts (cu_world c)" if "k < length (wd_tasks (cu_world c))" for k
    using nth_mem [OF that] unfolding world_texts_def by blast
  with no have "pending E sk (cu_world c) = {}" unfolding pending_def by blast
  moreover have "filter (from_key E sk) (ro_messages r) = []" if "r \<in> set (bk_heap (wd_db (cu_world c)))" for r
    using that no unfolding filter_empty_conv world_texts_def room_texts_def by blast
  ultimately show ?thesis by (simp add: ordered_def settled_def member_new_def)
qed

lemma ordered_step:
  assumes laws: "store_laws E view" "transport_laws E" and reach: "cluster_reachable E M honest False c"
    and step: "cluster_step E M e c = Some c'" and may: "may_ask E honest False c e"
    and d: "distinct (identities E c')" and o: "\<And>mb. mb \<in> set (cu_members c) \<Longrightarrow> ordered E (cu_world c) mb"
    and mb: "mb \<in> set (cu_members c')"
  shows "ordered E (cu_world c') mb"
proof -
  have inv: "cluster_inv E view M honest False c" "cluster_inv E view M honest False c'"
    using cluster_inv_reachable [OF laws(1)] reach continue_cluster [OF reach may step] by blast+
  from cluster_step_moves [OF step] show ?thesis
  proof cases
    case (joins j url sk shares results)
    with d have "identity_of (env_crypto E) sk \<notin> set (identities E c)" by (auto simp: member_new_def)
    from ordered_new [OF laws(2) inv(1) this] o mb joins(1) show ?thesis by auto
  next
    case (asks p)
    with may have "purpose_texts p = {}" by (cases p) auto
    with asks o mb show ?thesis by (auto intro!: ordered_ask)
  next
    case (broker k w)
    with o mb show ?thesis by (auto intro: ordered_broker)
  next
    case (moves i new ts)
    let ?old = "cu_members c ! i"
    have new: "new \<in> set (cu_members c')" using moves(1,2) by (simp add: set_update_memI)
    with inv(2) have ok: "member_ok E view M (sources E honest False c') (length (wd_streams (cu_world c'))) new"
      unfolding cluster_inv_def by blast
    note keeps = member_step_facts [OF moves(3)]
    have from_new: "from_key E sk t \<longleftrightarrow> identity_of (env_crypto E) (me_key new) = identity_of (env_crypto E) sk"
      if "t \<in> set ts" for t sk
      using asked_from_key [OF laws(2) ok] keeps(3) that by blast
    from mb obtain k where k: "k < length (cu_members c)" "mb = (cu_members c)[i := new] ! k"
      using moves(1) by (auto simp: in_set_conv_nth)
    show ?thesis
    proof (cases "k = i")
      case True
      with k moves(2) have "mb = new" by simp
      with ordered_member_step [OF o moves(3)] moves(1,2) from_new keeps(1) show ?thesis by simp
    next
      case False
      with k have e: "mb = cu_members c ! k" by simp
      have "identities E c' ! k \<noteq> identities E c' ! i"
        by (subst nth_eq_iff_index_eq [OF d]) (use False k(1) moves(1,2) in simp_all)
      with False k(1) moves(1,2) e have ne: "identity_of (env_crypto E) (me_key mb) \<noteq> identity_of (env_crypto E) (me_key new)"
        by simp
      have "ordered E (fold (\<lambda>t. world_ask (For_broadcast t)) ts w) mb"
        if "ordered E w mb" and "\<forall>t \<in> set ts. \<not> from_key E (me_key mb) t" for w ts
        using that by (induction ts arbitrary: w) (simp_all add: ordered_ask)
      with o e k(1) from_new ne moves(1) show ?thesis by auto
    qed
  qed
qed

lemma ordered_reachable:
  assumes laws: "store_laws E view" "transport_laws E"
    and reach: "cluster_reachable E M honest False c" and d: "distinct (identities E c)"
    and mb: "mb \<in> set (cu_members c)"
  shows "ordered E (cu_world c) mb"
  using reach d mb
proof (induction arbitrary: mb)
  case begin_cluster
  then show ?case by (simp add: cluster_empty_def)
next
  case (continue_cluster c e c')
  from identities_step [OF cluster_step_moves [OF continue_cluster.hyps(3)]] continue_cluster.prems(1)
  have "distinct (identities E c)" by auto
  from ordered_step [OF laws continue_cluster.hyps(1,3,2) continue_cluster.prems(1) continue_cluster.IH [OF this] continue_cluster.prems(2)]
  show ?case .
qed

section \<open>What was given to the sink\<close>

text \<open>The text that the sink makes of a message, if it can be signed and written.\<close>

definition text_of ::
  "('db, 'sk, 'pk, 'sg, 'lk, 'x) env_scheme \<Rightarrow> 'sk \<Rightarrow> core_message \<Rightarrow> string list" where
  "text_of E sk m = (case outgoing_text E sk (identity_of (env_crypto E) sk) m of Ok t \<Rightarrow> [t] | _ \<Rightarrow> [])"

text \<open>The positions in the outbox of the messages that the sink was given, the one it works on last.\<close>

definition given ::
  "('db, 'sk, 'lk, 'kg, 'mk, 'off, 'mo, 'cos, 'ps) member \<Rightarrow> nat list" where
  "given mb = wh_posted (me_server mb) @ (case me_waits mb of None \<Rightarrow> [] | Some (p, k) \<Rightarrow> [p])"

definition texts_of ::
  "('db, 'sk, 'pk, 'sg, 'lk, 'x) env_scheme \<Rightarrow> 'sk \<Rightarrow> core_message list \<Rightarrow> nat list \<Rightarrow> string list" where
  "texts_of E sk out ps = concat (map (\<lambda>p. text_of E sk (out ! p)) ps)"

lemma texts_of_simps [simp]:
  "texts_of E sk out [] = []"
  "texts_of E sk out (ps @ [p]) = texts_of E sk out ps @ text_of E sk (out ! p)"
  by (simp_all add: texts_of_def)

lemma texts_of_append:
  assumes "set ps \<subseteq> {..<length out}" shows "texts_of E sk (out @ ms) ps = texts_of E sk out ps"
proof -
  have "map (\<lambda>p. text_of E sk ((out @ ms) ! p)) ps = map (\<lambda>p. text_of E sk (out ! p)) ps"
    using assms by (auto simp: nth_append)
  then show ?thesis by (simp only: texts_of_def)
qed

text \<open>
  No message is given to the sink twice, what the sink asks for are texts of what it was given, in this
  order, and the server knows that the sink has lost its state when it has.
\<close>

definition posts_ok ::
  "('db, 'sk, 'pk, 'sg, 'lk, 'x) env_scheme \<Rightarrow>
   ('db, 'sk, 'lk, 'kg, 'mk, 'off, 'mo, 'cos, 'ps) member \<Rightarrow> bool" where
  "posts_ok E mb \<longleftrightarrow>
     (let out = outbox (co_out (wh_node (me_server mb))) in
      distinct (given mb) \<and> set (given mb) \<subseteq> {..<length out} \<and>
      subseq (me_asked mb) (texts_of E (me_key mb) out (given mb)) \<and>
      (wh_lost (me_server mb) \<longleftrightarrow> me_link mb = None))"

fun is_post :: "whole_event \<Rightarrow> bool" where
  "is_post (whole_event.Post p ok) = True"
| "is_post _ = False"

lemma whole_step_posted:
  assumes "whole_step E M e s = Some s'" and "\<not> is_post e"
  shows "wh_posted s' = wh_posted s" and "wh_lost s' = wh_lost s"
  using assms by (cases e; auto simp: node_moves_Some bind_eq_Some_conv split: if_splits option.splits list.splits effect.splits)+

lemma whole_step_posts:
  assumes "whole_step E M (whole_event.Post p ok) s = Some s'"
  shows "wh_posted s' = wh_posted s @ [p]" and "wh_lost s' = (\<not> ok)" and "wh_node s' = wh_node s"
  using assms by (auto simp: node_moves_Some send_one_Ok split: if_splits)

lemma posts_later:
  assumes o: "posts_ok E mb" and l: "linked (me_server mb)" and step: "whole_step E M e (me_server mb) = Some s"
    and e: "\<not> is_post e"
  shows "posts_ok E (mb\<lparr>me_server := s\<rparr>)"
proof -
  from whole_step_outbox [OF l step] obtain ms where
    "outbox (co_out (wh_node s)) = outbox (co_out (wh_node (me_server mb))) @ ms" by blast
  with o whole_step_posted [OF step e] show ?thesis
    by (auto simp: posts_ok_def Let_def given_def texts_of_append)
qed

lemma next_outD:
  assumes "next_out p mb = Some m"
  shows "p < length (outbox (co_out (wh_node (me_server mb))))" "p \<notin> set (wh_posted (me_server mb))"
    "m = outbox (co_out (wh_node (me_server mb))) ! p"
  using assms by (auto simp: next_out_def Let_def split: if_splits)

lemma asks_now_text_of:
  assumes "\<And>l. me_link mb = Some l \<Longrightarrow> \<exists>url. l = link_of E url (me_key mb)"
  shows "subseq (asks_now E mb m) (text_of E (me_key mb) m)"
  using assms by (cases "me_link mb") (fastforce simp: asks_now_eq text_of_def)+

text \<open>The sink is given the next message.\<close>

lemma posts_next:
  assumes o: "posts_ok E mb" and w: "me_waits mb = None" and n: "next_out p mb = Some m"
    and link: "\<And>l. me_link mb = Some l \<Longrightarrow> \<exists>url. l = link_of E url (me_key mb)"
  shows "posts_ok E (mb\<lparr>me_asked := me_asked mb @ asks_now E mb m, me_waits := Some (p, k)\<rparr>)"
  using o w next_outD [OF n] list_emb_append_mono [OF _ asks_now_text_of [OF link]]
  by (auto simp: posts_ok_def Let_def given_def)

text \<open>The sink is done with it.\<close>

lemma posts_done:
  assumes o: "posts_ok E mb" and w: "me_waits mb = Some (p, k)"
    and sent: "whole_step E M (whole_event.Post p (l \<noteq> None)) (me_server mb) = Some s"
  shows "posts_ok E (mb\<lparr>me_server := s, me_waits := None, me_link := l\<rparr>)"
  using o w whole_step_posts [OF sent] by (simp add: posts_ok_def Let_def given_def)

lemma posts_member_step:
  assumes o: "posts_ok E mb" and l: "linked (me_server mb)" and step: "member_step E M w mb mb' ts"
    and link: "\<And>l. me_link mb = Some l \<Longrightarrow> \<exists>url. l = link_of E url (me_key mb)"
  shows "posts_ok E mb'"
  using step
proof cases
  case (alone e s)
  then have "\<not> is_post e" by (cases e) auto
  with posts_later [OF o l alone(4)] alone(1) show ?thesis by simp
next
  case (receives t s now)
  have "posts_ok E (mb\<lparr>me_server := s\<rparr>)"
    using receives(6)
  proof
    assume "whole_step E M (Arrive t now) (me_server mb) = Some s"
    from posts_later [OF o l this] show ?thesis by simp
  qed (use o in simp)
  then show ?thesis by (simp add: receives(1) posts_ok_def given_def)
next
  case (sends p m t)
  with posts_next [OF o sends(3,4) link] show ?thesis by simp
next
  case (skips p m reply)
  from skips(4) obtain s l where "whole_step E M (whole_event.Post p (l \<noteq> None)) (me_server mb) = Some s"
    "mb' = mb\<lparr>me_asked := me_asked mb @ asks_now E mb m, me_server := s, me_waits := None, me_link := l\<rparr>"
    by (auto simp: member_sent_Some simp del: whole_step.simps)
  with posts_done [OF posts_next [OF o skips(2,3) link], where p = p and k = 0 and l = l and s = s] show ?thesis by simp
next
  case (gets_reply p k reply m)
  from gets_reply(5) obtain s l where "whole_step E M (whole_event.Post p (l \<noteq> None)) (me_server mb) = Some s"
    "mb' = mb\<lparr>me_server := s, me_waits := None, me_link := l\<rparr>"
    by (auto simp: member_sent_Some simp del: whole_step.simps)
  with posts_done [OF o gets_reply(2)] show ?thesis by simp
qed

text \<open>The streams of the members start at the beginning of a room, and only events are read that were yielded.\<close>

definition reads_ok ::
  "world \<Rightarrow> ('db, 'sk, 'lk, 'kg, 'mk, 'off, 'mo, 'cos, 'ps) member \<Rightarrow> bool" where
  "reads_ok w mb \<longleftrightarrow> me_stream mb < length (wd_streams w) \<and> lv_from (wd_streams w ! me_stream mb) = 0 \<and>
     me_read mb \<le> length (lv_got (wd_streams w ! me_stream mb))"

lemma reads_later:
  assumes "reads_ok w mb" and "world_step w w'" shows "reads_ok w' mb"
  using assms(2,1) by cases (auto simp: reads_ok_def nth_append nth_list_update)

lemma reads_member_step:
  assumes "reads_ok w mb" and "member_step E M w mb mb' ts" shows "reads_ok w mb'"
  using assms(2,1) by cases (auto simp: reads_ok_def member_sent_Some simp del: whole_step.simps)

lemma reads_asks: "reads_ok (fold (\<lambda>t. world_ask (For_broadcast t)) ts w) mb \<longleftrightarrow> reads_ok w mb"
  by (simp add: reads_ok_def world_asks(1))

lemma members_ok_step:
  assumes inv: "cluster_inv E view M honest strangers c" and step: "cluster_step E M e c = Some c'"
    and o: "\<And>mb. mb \<in> set (cu_members c) \<Longrightarrow> posts_ok E mb \<and> reads_ok (cu_world c) mb"
    and mb: "mb \<in> set (cu_members c')"
  shows "posts_ok E mb \<and> reads_ok (cu_world c') mb"
  using cluster_step_moves [OF step]
proof cases
  case (joins j url sk shares results)
  let ?new = "member_new E (link_of E url sk) sk shares results j"
  have "posts_ok E ?new \<and> reads_ok (cu_world c) ?new"
    using joins(2,3) by (simp add: member_new_def posts_ok_def given_def reads_ok_def whole_new_def coordinator_new_def)
  with o mb joins(1) show ?thesis by auto
next
  case (asks p)
  with o mb show ?thesis by (auto intro: reads_later world_functions)
next
  case (broker k w)
  with o mb show ?thesis by (auto intro: reads_later world_functions)
next
  case (moves i new ts)
  let ?old = "cu_members c ! i"
  have old: "?old \<in> set (cu_members c)" using moves(2) by simp
  with inv have ok: "member_ok E view M (sources E honest strangers c) (length (wd_streams (cu_world c))) ?old"
    unfolding cluster_inv_def by blast
  then have "linked (me_server ?old)" unfolding member_ok_def by (blast intro: linked_reachable)
  moreover from ok have "\<And>l. me_link ?old = Some l \<Longrightarrow> \<exists>url. l = link_of E url (me_key ?old)"
    unfolding member_ok_def by blast
  ultimately have "posts_ok E new \<and> reads_ok (cu_world c) new"
    using o [OF old] posts_member_step [OF _ _ moves(3)] reads_member_step [OF _ moves(3)] by blast
  with o mb moves(1) show ?thesis
    by (auto simp: reads_asks dest!: subsetD [OF set_update_subset_insert])
qed

lemma members_ok_reachable:
  assumes laws: "store_laws E view" and reach: "cluster_reachable E M honest strangers c"
    and mb: "mb \<in> set (cu_members c)"
  shows "posts_ok E mb" and "reads_ok (cu_world c) mb"
proof -
  have "posts_ok E mb \<and> reads_ok (cu_world c) mb"
    using reach mb
  proof (induction arbitrary: mb)
    case begin_cluster
    then show ?case by (simp add: cluster_empty_def)
  next
    case (continue_cluster c e c')
    from members_ok_step [OF cluster_inv_reachable [OF laws continue_cluster.hyps(1)] continue_cluster.hyps(3)
        continue_cluster.IH continue_cluster.prems] show ?case .
  qed
  then show "posts_ok E mb" "reads_ok (cu_world c) mb" by blast+
qed

text \<open>The texts that a member has read from its stream, and those of what its sink was given.\<close>

definition texts_read ::
  "world \<Rightarrow> ('db, 'sk, 'lk, 'kg, 'mk, 'off, 'mo, 'cos, 'ps) member \<Rightarrow> string list" where
  "texts_read w mb = map snd (take (me_read mb) (lv_got (wd_streams w ! me_stream mb)))"

definition texts_sent ::
  "('db, 'sk, 'pk, 'sg, 'lk, 'x) env_scheme \<Rightarrow>
   ('db, 'sk, 'lk, 'kg, 'mk, 'off, 'mo, 'cos, 'ps) member \<Rightarrow> string list" where
  "texts_sent E mb = texts_of E (me_key mb) (outbox (co_out (wh_node (me_server mb)))) (given mb)"

lemma posts_okD:
  assumes "posts_ok E mb"
  shows "subseq (me_asked mb) (texts_sent E mb)" "distinct (given mb)"
    "set (given mb) \<subseteq> {..<length (outbox (co_out (wh_node (me_server mb))))}"
    "wh_lost (me_server mb) \<longleftrightarrow> me_link mb = None"
  using assms by (auto simp: posts_ok_def Let_def texts_sent_def)

lemma settled_asked: "subseq (settled E w mb) (me_asked mb)"
  by (simp add: settled_def prefix_imp_subseq prefixeq_butlast)

lemma texts_read_room:
  assumes w: "world_reachable w" and r: "reads_ok w mb"
    and small: "length (ro_messages (bk_heap (wd_db w) ! sub_room (lv_sub (wd_streams w ! me_stream mb)))) < 65536"
  shows "prefix (texts_read w mb) (ro_messages (bk_heap (wd_db w) ! sub_room (lv_sub (wd_streams w ! me_stream mb))))"
    and "bk_heap (wd_db w) ! sub_room (lv_sub (wd_streams w ! me_stream mb)) \<in> set (bk_heap (wd_db w))"
proof -
  let ?l = "wd_streams w ! me_stream mb"
  have l: "?l \<in> set (wd_streams w)" "lv_from ?l = 0" using r by (simp_all add: reads_ok_def)
  with world_inv_reachable [OF w] have ok: "stream_ok ?l (ro_messages (bk_heap (wd_db w) ! sub_room (lv_sub ?l)))"
    "sub_room (lv_sub ?l) < length (bk_heap (wd_db w))"
    unfolding world_inv_def by blast+
  then show "bk_heap (wd_db w) ! sub_room (lv_sub ?l) \<in> set (bk_heap (wd_db w))" by simp
  let ?msgs = "ro_messages (bk_heap (wd_db w) ! sub_room (lv_sub ?l))"
  have "texts_read w mb = take (me_read mb) (map snd (lv_got ?l))" by (simp add: texts_read_def take_map)
  also have "\<dots> = take (me_read mb) (take (length (lv_got ?l)) ?msgs)"
    using stream_ok_segment(1) [OF ok(1) small] l(2) by simp
  finally show "prefix (texts_read w mb) ?msgs" by (simp add: take_is_prefix)
qed

lemma heard_in_order:
  assumes laws: "store_laws E view" "transport_laws E" and reach: "cluster_reachable E M honest False c"
    and d: "distinct (identities E c)" and teller: "teller \<in> set (cu_members c)" and hearer: "hearer \<in> set (cu_members c)"
    and small: "length (ro_messages (bk_heap (wd_db (cu_world c)) !
      sub_room (lv_sub (wd_streams (cu_world c) ! me_stream hearer)))) < 65536"
  shows "subseq (filter (from_key E (me_key teller)) (texts_read (cu_world c) hearer)) (texts_sent E teller)"
proof -
  let ?f = "from_key E (me_key teller)"
  have w: "world_reachable (cu_world c)"
    using cluster_inv_reachable [OF laws(1) reach] by (simp add: cluster_inv_def)
  note room = texts_read_room [OF w members_ok_reachable(2) [OF laws(1) reach hearer] small]
  from room(1) have "subseq (filter ?f (texts_read (cu_world c) hearer))
      (filter ?f (ro_messages (bk_heap (wd_db (cu_world c)) ! sub_room (lv_sub (wd_streams (cu_world c) ! me_stream hearer)))))"
    by (intro subseq_filter prefix_imp_subseq)
  also have "subseq \<dots> (settled E (cu_world c) teller)"
    by (rule orderedD(5) [OF ordered_reachable [OF laws reach d teller] room(2)])
  also have "subseq \<dots> (me_asked teller)" by (rule settled_asked)
  also have "subseq \<dots> (texts_sent E teller)" by (rule posts_okD(1) [OF members_ok_reachable(1) [OF laws(1) reach teller]])
  finally show ?thesis .
qed

end
