(* ===== verification/Cluster_Progress.thy ===== *)
theory Cluster_Progress
  imports Cluster_Order
begin

text \<open>
  Runs of several servers that go on: a sink that lost its client never asks again, and the next message
  that is given to it ends its server; and a server whose sink is up gets a message to the others.
\<close>

section \<open>Runs\<close>

lemma cluster_run_append:
  "cluster_run E M (es @ fs) c = Option.bind (cluster_run E M es c) (cluster_run E M fs)"
  by (induction es arbitrary: c) (auto split: bind_split simp del: cluster_step.simps)

lemma cluster_run_snoc:
  "cluster_run E M es c = Some c1 \<Longrightarrow> cluster_step E M e c1 = Some c2 \<Longrightarrow>
   cluster_run E M (es @ [e]) c = Some c2"
  by (simp add: cluster_run_append del: cluster_step.simps)

text \<open>Steps that are neither a join nor a message from outside need no permission.\<close>

fun harmless :: "('sk, 'db) cluster_event \<Rightarrow> bool" where
  "harmless (Ask (For_broadcast t)) = False"
| "harmless e = True"

lemma harmless_may: "harmless e \<Longrightarrow> may_ask E honest strangers c e"
  by (cases "(E, honest, strangers, c, e)" rule: may_ask.cases) simp_all

lemma cluster_reachable_run:
  "cluster_reachable E M honest strangers c \<Longrightarrow> list_all harmless es \<Longrightarrow> cluster_run E M es c = Some c' \<Longrightarrow>
   cluster_reachable E M honest strangers c'"
  by (induction es arbitrary: c)
    (auto simp: bind_eq_Some_conv simp del: cluster_step.simps intro: continue_cluster harmless_may)

text \<open>What a server does alone, it does in the cluster.\<close>

lemma cluster_run_local:
  assumes "i < length (cu_members c)" and "me_waits (cu_members c ! i) = None" and "list_all is_local es"
    and "whole_run E M es (me_server (cu_members c ! i)) = Some s"
  shows "cluster_run E M (map (Local i) es) c =
    Some (c\<lparr>cu_members := (cu_members c)[i := (cu_members c ! i)\<lparr>me_server := s\<rparr>]\<rparr>)"
  using assms
proof (induction es arbitrary: c)
  case Nil
  then have "(cu_members c ! i)\<lparr>me_server := s\<rparr> = cu_members c ! i"
    by (cases "cu_members c ! i") simp
  then show ?case by (cases c) simp
next
  case (Cons e es)
  from Cons.prems(4) obtain t where t: "whole_step E M e (me_server (cu_members c ! i)) = Some t"
    "whole_run E M es t = Some s" by (auto simp: bind_eq_Some_conv simp del: whole_step.simps)
  let ?c = "c\<lparr>cu_members := (cu_members c)[i := (cu_members c ! i)\<lparr>me_server := t\<rparr>]\<rparr>"
  have "cluster_step E M (Local i e) c = Some ?c"
    using Cons.prems t by (simp add: at_member_def member_local_def del: whole_step.simps)
  moreover have "cluster_run E M (map (Local i) es) ?c =
      Some (?c\<lparr>cu_members := (cu_members ?c)[i := (cu_members ?c ! i)\<lparr>me_server := s\<rparr>]\<rparr>)"
    using Cons.prems t(2) by (intro Cons.IH) simp_all
  ultimately show ?case using Cons.prems(1) by (simp del: cluster_step.simps)
qed

section \<open>A lost sink\<close>

lemma link_lost: "snd (sink_send (unfold_messenger E) None m l) = Ok l' \<Longrightarrow> l' = None"
  by (cases l) (simp_all add: messenger_sink.send_cases)

text \<open>The sinks of two states have been given the same and have asked for the same, and the later one is lost.\<close>

abbreviation mute ::
  "('db, 'sk, 'lk, 'kg, 'mk, 'off, 'mo, 'cos, 'ps) member \<Rightarrow>
   ('db, 'sk, 'lk, 'kg, 'mk, 'off, 'mo, 'cos, 'ps) member \<Rightarrow> bool" where
  "mute mb mb' \<equiv> me_link mb' = None \<and> me_asked mb' = me_asked mb \<and> given mb' = given mb"

lemma silent_member_step:
  assumes "member_step E M w mb mb' ts" and "me_link mb = None"
  shows "mute mb mb'"
  using assms
proof cases
  case (alone e s)
  then have "\<not> is_post e" by (cases e) auto
  with alone assms(2) whole_step_posted(1) show ?thesis by (fastforce simp: given_def)
next
  case (receives t s now)
  then have "wh_posted s = wh_posted (me_server mb)" using whole_step_posted(1) by fastforce
  with receives(1) assms(2) show ?thesis by (simp add: given_def)
qed (use assms(2) in \<open>auto simp: asks_now_eq member_sent_Some dest: link_after_send simp del: whole_step.simps\<close>)

lemma silent_step:
  assumes "i < length (cu_members c)" and "me_link (cu_members c ! i) = None"
    and step: "cluster_step E M e c = Some c'"
  shows "i < length (cu_members c') \<and> mute (cu_members c ! i) (cu_members c' ! i)"
  using cluster_step_moves [OF step]
proof cases
  case (moves k mb ts)
  with assms(1,2) silent_member_step [OF moves(3)] show ?thesis by (cases "k = i") simp_all
qed (use assms(1,2) in \<open>simp_all add: nth_append\<close>)

lemma silent_run:
  assumes "i < length (cu_members c)" and "me_link (cu_members c ! i) = None" and "cluster_run E M es c = Some c'"
  shows "i < length (cu_members c') \<and> mute (cu_members c ! i) (cu_members c' ! i)"
  using assms
proof (induction es arbitrary: c)
  case (Cons e es)
  then obtain c1 where "cluster_step E M e c = Some c1" "cluster_run E M es c1 = Some c'"
    by (auto simp: bind_eq_Some_conv simp del: cluster_step.simps)
  with Cons silent_step [OF Cons.prems(1,2)] show ?case by fastforce
qed simp

lemma lost_reply:
  assumes "cluster_step E M (Reply i None) c = Some c'"
  shows "i < length (cu_members c') \<and> mute (cu_members c ! i) (cu_members c' ! i)"
proof -
  let ?mb = "cu_members c ! i"
  from assms obtain p k m mb where i: "i < length (cu_members c)" "me_waits ?mb = Some (p, k)"
    and mb: "member_sent E M None p m ?mb = Some mb" and c': "c' = c\<lparr>cu_members := (cu_members c)[i := mb]\<rparr>"
    by (auto simp: at_member_Some bind_eq_Some_conv)
  from mb obtain s l where s: "snd (sink_send (unfold_messenger E) None m (me_link ?mb)) = Ok l"
    "whole_step E M (whole_event.Post p (l \<noteq> None)) (me_server ?mb) = Some s"
    "mb = ?mb\<lparr>me_server := s, me_waits := None, me_link := l\<rparr>"
    unfolding member_sent_Some by blast
  from link_lost [OF s(1)] whole_step_posts(1) [OF s(2)] i s(3) c' show ?thesis by (simp add: given_def)
qed

lemma member_inv:
  assumes "store_laws E view" and "cluster_reachable E M honest strangers c" and "mb \<in> set (cu_members c)"
  shows "node_inv E view (me_key mb) (wh_node (me_server mb))"
proof -
  from cluster_inv_reachable [OF assms(1,2)] assms(3)
  have "member_ok E view M (sources E honest strangers c) (length (wd_streams (cu_world c))) mb"
    unfolding cluster_inv_def by blast
  with reachable_node_inv [OF assms(1)] show ?thesis unfolding member_ok_def by blast
qed

text \<open>The next message ends its coordinator.\<close>

lemma next_send_panics:
  assumes laws: "store_laws E view" and reach: "cluster_reachable E M honest strangers c"
    and i: "i < length (cu_members c)" "me_link (cu_members c ! i) = None"
  shows "snd (sink_send (unfold_messenger E) reply m (me_link (cu_members c ! i))) = Panic"
    and "snd (send_one (sink_result (wh_lost (me_server (cu_members c ! i))) ok) m
       (wh_node (me_server (cu_members c ! i)))) = Panic"
    and "cluster_step E M (Send i p) c = None" and "cluster_step E M (Skip i p reply) c = None"
proof -
  have "wh_lost (me_server (cu_members c ! i))"
    using posts_okD(4) [OF members_ok_reachable(1) [OF laws reach nth_mem [OF i(1)]]] i(2) by simp
  then show "snd (send_one (sink_result (wh_lost (me_server (cu_members c ! i))) ok) m
       (wh_node (me_server (cu_members c ! i)))) = Panic"
    by (simp add: send_one_Panic sink_result_def)
  show "snd (sink_send (unfold_messenger E) reply m (me_link (cu_members c ! i))) = Panic" using i(2) by simp
  show "cluster_step E M (Send i p) c = None" "cluster_step E M (Skip i p reply) c = None"
    using i by (auto simp: at_member_def asks_now_eq member_sent_def split: bind_split)
qed

text \<open>As long as the sink has its client, it takes a message.\<close>

lemma sent_unless_stopped:
  assumes inv: "node_inv E view sk (wh_node (me_server mb))" and o: "posts_ok E mb" and l: "me_link mb \<noteq> None"
    and n: "next_out p mb = Some m"
  shows "\<exists>s. whole_step E M (whole_event.Post p ok) (me_server mb) = Some s"
proof -
  from inv have "co_sink (wh_node (me_server mb))" by (simp add: node_inv_def)
  moreover have "\<not> wh_lost (me_server mb)" using posts_okD(4) [OF o] l by simp
  ultimately have "send_one (sink_result (wh_lost (me_server mb)) ok) m (wh_node (me_server mb)) =
      (wh_node (me_server mb), Ok ())"
    by (simp add: send_one_Ok sink_result_def)
  moreover have "\<not> wh_stopped (me_server mb)" using n by (simp add: next_out_def Let_def split: if_splits)
  ultimately show ?thesis using next_outD [OF n] by (simp add: node_moves_def)
qed

section \<open>A message gets through\<close>

lemma room_is_found:
  assumes w: "world_inv w" and j: "j < length (wd_streams w)" "lv_open (wd_streams w ! j)"
    and room: "bk_rooms (wd_db w) ROOM_ID = Some (sub_room (lv_sub (wd_streams w ! j)))"
    and few: "length (wd_streams w) < 65536"
  shows "find_room ROOM_ID (wd_db w) = Some (sub_room (lv_sub (wd_streams w ! j)))"
proof -
  let ?a = "sub_room (lv_sub (wd_streams w ! j))"
  have n: "open_streams ?a (wd_streams w) < 65536" "open_streams ?a (wd_streams w) \<noteq> 0"
  proof -
    have "open_streams ?a (wd_streams w) \<le> length (wd_streams w)"
      by (simp add: open_streams_def)
    with few show "open_streams ?a (wd_streams w) < 65536" by simp
    show "open_streams ?a (wd_streams w) \<noteq> 0"
      using j nth_mem [OF j(1)] by (auto simp: open_streams_def reads_def filter_empty_conv)
  qed
  have "?a < length (bk_heap (wd_db w))" using w nth_mem [OF j(1)] by (auto simp: world_inv_def)
  with w have "ro_subscribers (bk_heap (wd_db w) ! ?a) = word_of_nat (open_streams ?a (wd_streams w))"
    by (simp add: world_inv_def)
  moreover from n have "(word_of_nat (open_streams ?a (wd_streams w)) :: u16) \<noteq> 0"
    by (simp add: word_of_nat_eq_0_iff) (metis nat_dvd_not_less neq0_conv)
  ultimately have "\<not> is_abandoned (bk_heap (wd_db w) ! ?a)" by (simp add: is_abandoned_def)
  with room show ?thesis by (simp add: find_room_def)
qed

text \<open>A stream can be read to the end of its room.\<close>

lemma next_event_Some:
  assumes "next_event s db = Some (s', ev)" shows "sub_room s' = sub_room s"
  using assms by (auto simp: next_event_def Let_def split: if_splits)

lemma drain:
  assumes "world_reachable (cu_world c)" and "j < length (wd_streams (cu_world c))"
    and "lv_open (wd_streams (cu_world c) ! j)" and "lv_from (wd_streams (cu_world c) ! j) = 0"
    and "msgs = ro_messages (bk_heap (wd_db (cu_world c)) ! sub_room (lv_sub (wd_streams (cu_world c) ! j)))"
    and "length msgs < 65536"
  shows "\<exists>n w. cluster_run E M (replicate n (Yield j)) c = Some (c\<lparr>cu_world := w\<rparr>) \<and>
    wd_tasks w = wd_tasks (cu_world c) \<and> length (wd_streams w) = length (wd_streams (cu_world c)) \<and>
    map snd (lv_got (wd_streams w ! j)) = msgs"
  using assms
proof (induction "length msgs - length (lv_got (wd_streams (cu_world c) ! j))" arbitrary: c rule: less_induct)
  case less
  let ?w = "cu_world c" and ?l = "wd_streams (cu_world c) ! j"
  have l: "?l \<in> set (wd_streams ?w)" using less.prems(2) by simp
  with world_inv_reachable [OF less.prems(1)] less.prems(5) have ok: "stream_ok ?l msgs"
    unfolding world_inv_def by blast
  have le: "length (lv_got ?l) \<le> length msgs"
    using stream_ok_segment(3) [OF ok less.prems(6)] less.prems(4) by (cases "lv_got ?l = []") simp_all
  show ?case
  proof (cases "next_event (lv_sub ?l) (wd_db ?w)")
    case None
    from waiting_stream_has_all [OF ok less.prems(6) _ None less.prems(5)] less.prems(4,6) le
    have "map snd (lv_got ?l) = msgs" by simp
    then show ?thesis by (intro exI [of _ 0] exI [of _ ?w]) simp
  next
    case (Some p)
    obtain s' ev where p: "p = (s', ev)" by (cases p)
    let ?l' = "?l\<lparr>lv_sub := s', lv_got := lv_got ?l @ [ev]\<rparr>"
    let ?v = "?w\<lparr>wd_streams := (wd_streams ?w)[j := ?l']\<rparr>"
    have y: "world_yield j ?w = Some ?v" using Some less.prems(2,3) p by (simp add: world_yield_def)
    then have step: "cluster_step E M (Yield j) c = Some (c\<lparr>cu_world := ?v\<rparr>)" by simp
    have reach: "world_reachable ?v" by (rule world_reachable.continue [OF less.prems(1) world_functions(3) [OF y]])
    have room: "sub_room s' = sub_room (lv_sub ?l)" using next_event_Some [OF Some [unfolded p]] .
    have "?l' \<in> set (wd_streams ?v)" using less.prems(2) by (simp add: set_update_memI)
    with world_inv_reachable [OF reach] less.prems(5) have ok': "stream_ok ?l' msgs"
      unfolding world_inv_def using room by fastforce
    have "length (lv_got ?l') \<le> length msgs"
      using stream_ok_segment(3) [OF ok' less.prems(6)] less.prems(4) by simp
    then have "length msgs - length (lv_got (wd_streams ?v ! j)) < length msgs - length (lv_got ?l)"
      using less.prems(2) by simp
    from less.hyps [of "c\<lparr>cu_world := ?v\<rparr>"] this reach less.prems room obtain n w where
      "cluster_run E M (replicate n (Yield j)) (c\<lparr>cu_world := ?v\<rparr>) = Some (c\<lparr>cu_world := w\<rparr>)"
      "wd_tasks w = wd_tasks ?w" "length (wd_streams w) = length (wd_streams ?w)"
      "map snd (lv_got (wd_streams w ! j)) = msgs"
      by fastforce
    with step show ?thesis
      by (intro exI [of _ "Suc n"] exI [of _ w]) (simp del: cluster_step.simps)
  qed
qed

text \<open>The task of a broadcast, in a broker whose room is found.\<close>

lemma task_publishes:
  assumes "wd_tasks w = ts @ [Enter (For_broadcast t)]" and "find_room ROOM_ID (wd_db w) = Some a"
  shows "\<exists>v. world_serve (length ts) w = Some v \<and>
    world_serve (length ts) v = Some (w\<lparr>wd_db := publish a t (wd_db w), wd_tasks := ts @ [Finished]\<rparr>)"
proof -
  let ?v = "w\<lparr>wd_tasks := ts @ [Have a (For_broadcast t)]\<rparr>"
  have "world_serve (length ts) w = Some ?v"
    using assms by (cases w) (simp add: world_serve_def)
  moreover have "world_serve (length ts) ?v =
      Some (w\<lparr>wd_db := publish a t (wd_db w), wd_tasks := ts @ [Finished]\<rparr>)"
    by (cases w) (simp add: world_serve_def)
  ultimately show ?thesis by blast
qed

lemma publish_room:
  "a < length (bk_heap db) \<Longrightarrow> ro_messages (bk_heap (publish a t db) ! a) = ro_messages (bk_heap db ! a) @ [t]"
  by (simp add: publish_def update_room_def)

lemma post_succeeds:
  assumes i: "i < length (cu_members c)" and mb: "mb = cu_members c ! i"
    and w: "me_waits mb = None" and l: "me_link mb = Some l"
    and n: "next_out p mb = Some m" and t: "asks_now E mb m = [t]" and accepted: "broker_accepts t"
    and s: "whole_step E M (whole_event.Post p True) (me_server mb) = Some s"
    and room: "find_room ROOM_ID (wd_db (cu_world c)) = Some a"
  shows "cluster_run E M [Send i p, Serve (length (wd_tasks (cu_world c))), Serve (length (wd_tasks (cu_world c))),
      Reply i (Some 200)] c =
    Some \<lparr>cu_world = (cu_world c)\<lparr>wd_db := publish a t (wd_db (cu_world c)),
        wd_tasks := wd_tasks (cu_world c) @ [Finished]\<rparr>,
      cu_members = (cu_members c)[i := mb\<lparr>me_server := s, me_asked := me_asked mb @ [t]\<rparr>]\<rparr>"
proof -
  let ?n = "length (wd_tasks (cu_world c))" and ?w1 = "world_ask (For_broadcast t) (cu_world c)"
  let ?w3 = "(cu_world c)\<lparr>wd_db := publish a t (wd_db (cu_world c)), wd_tasks := wd_tasks (cu_world c) @ [Finished]\<rparr>"
  let ?m1 = "mb\<lparr>me_asked := me_asked mb @ [t], me_waits := Some (p, ?n)\<rparr>"
  let ?c = "\<lambda>v m. \<lparr>cu_world = v, cu_members = (cu_members c)[i := m]\<rparr>"
  from task_publishes [of ?w1 "wd_tasks (cu_world c)" t a] room obtain v where
    v: "world_serve ?n ?w1 = Some v" "world_serve ?n v = Some ?w3"
    by (auto simp: world_ask_def)
  have "cluster_step E M (Send i p) c = Some (?c ?w1 ?m1)"
    using i w n t accepted mb by (cases c) (simp add: at_member_def)
  moreover have "cluster_step E M (Serve ?n) (?c ?w1 ?m1) = Some (?c v ?m1)"
    "cluster_step E M (Serve ?n) (?c v ?m1) = Some (?c ?w3 ?m1)"
    using v by simp_all
  moreover have "cluster_step E M (Reply i (Some 200)) (?c ?w3 ?m1) =
      Some (?c ?w3 (mb\<lparr>me_server := s, me_asked := me_asked mb @ [t]\<rparr>))"
  proof -
    have o: "outgoing_text E (ln_key l) (ln_pub_key l) m = Ok t"
      using t l by (auto simp: asks_now_eq split: outcome.splits)
    have n1: "next_out p ?m1 = Some m" using n by (simp add: next_out_def)
    have "member_sent E M (Some 200) p m ?m1 = Some (mb\<lparr>me_server := s, me_asked := me_asked mb @ [t]\<rparr>)"
      using s l o w by (cases mb) (simp add: member_sent_def messenger_sink.send_cases sm_broadcast_def del: whole_step.simps)
    with i n1 show ?thesis by (simp add: at_member_def nth_append)
  qed
  ultimately show ?thesis by (simp del: cluster_step.simps)
qed

lemma gets_through:
  assumes laws: "store_laws E view" and reach: "cluster_reachable E M honest strangers c"
    and i: "i < length (cu_members c)" and mb: "mb = cu_members c ! i"
    and w: "me_waits mb = None" and l: "me_link mb = Some l"
    and n: "next_out p mb = Some m" and t: "asks_now E mb m = [t]" and accepted: "broker_accepts t"
    and j: "j < length (wd_streams (cu_world c))" "lv_open (wd_streams (cu_world c) ! j)"
      "lv_from (wd_streams (cu_world c) ! j) = 0"
    and a: "a = sub_room (lv_sub (wd_streams (cu_world c) ! j))" "bk_rooms (wd_db (cu_world c)) ROOM_ID = Some a"
    and few: "length (wd_streams (cu_world c)) < 65536"
    and small: "length (ro_messages (bk_heap (wd_db (cu_world c)) ! a)) < 65535"
  shows "\<exists>es c'. list_all (\<lambda>e. \<not> (\<exists>p. e = Ask p)) es \<and> cluster_run E M es c = Some c' \<and>
    map snd (lv_got (wd_streams (cu_world c') ! j)) = ro_messages (bk_heap (wd_db (cu_world c)) ! a) @ [t] \<and>
    (\<exists>s. cu_members c' = (cu_members c)[i := mb\<lparr>me_server := s, me_asked := me_asked mb @ [t]\<rparr>] \<and>
       whole_step E M (whole_event.Post p True) (me_server mb) = Some s)"
proof -
  let ?w = "cu_world c" and ?n = "length (wd_tasks (cu_world c))"
  have inv: "world_reachable ?w" using cluster_inv_reachable [OF laws reach] by (simp add: cluster_inv_def)
  note wi = world_inv_reachable [OF inv]
  from room_is_found [OF wi j(1,2) a(2) [unfolded a(1)] few] a(1)
  have room: "find_room ROOM_ID (wd_db ?w) = Some a" by simp
  have "mb \<in> set (cu_members c)" using i mb by simp
  from sent_unless_stopped [OF member_inv [OF laws reach this] members_ok_reachable(1) [OF laws reach this] _ n] l
  obtain s where s: "whole_step E M (whole_event.Post p True) (me_server mb) = Some s" by blast
  let ?es = "[Send i p, Serve ?n, Serve ?n, Reply i (Some 200)]"
  define c1 where "c1 = \<lparr>cu_world = ?w\<lparr>wd_db := publish a t (wd_db ?w), wd_tasks := wd_tasks ?w @ [Finished]\<rparr>,
      cu_members = (cu_members c)[i := mb\<lparr>me_server := s, me_asked := me_asked mb @ [t]\<rparr>]\<rparr>"
  have run: "cluster_run E M ?es c = Some c1"
    unfolding c1_def by (rule post_succeeds [OF i mb w l n t accepted s room])
  have "a < length (bk_heap (wd_db ?w))" using wi nth_mem [OF j(1)] a(1) by (auto simp: world_inv_def)
  then have msgs: "ro_messages (bk_heap (wd_db (cu_world c1)) ! a) = ro_messages (bk_heap (wd_db ?w) ! a) @ [t]"
    by (simp add: c1_def publish_room)
  have r1: "world_reachable (cu_world c1)"
  proof -
    obtain v where v: "world_serve ?n (world_ask (For_broadcast t) ?w) = Some v"
      "world_serve ?n v = Some (cu_world c1)"
      using task_publishes [of "world_ask (For_broadcast t) ?w" "wd_tasks ?w" t a] room
      by (auto simp: world_ask_def c1_def)
    have "world_reachable v"
      by (rule world_reachable.continue [OF world_reachable_ask [OF inv] world_functions(2) [OF v(1)]])
    then show ?thesis by (rule world_reachable.continue [OF _ world_functions(2) [OF v(2)]])
  qed
  have streams: "wd_streams (cu_world c1) = wd_streams ?w" by (simp add: c1_def)
  from drain [OF r1, where j = j and msgs = "ro_messages (bk_heap (wd_db ?w) ! a) @ [t]" and E = E and M = M] j small msgs a(1) streams
  obtain k v where d: "cluster_run E M (replicate k (Yield j)) c1 = Some (c1\<lparr>cu_world := v\<rparr>)"
    "map snd (lv_got (wd_streams v ! j)) = ro_messages (bk_heap (wd_db ?w) ! a) @ [t]"
    by auto
  have "cluster_run E M (?es @ replicate k (Yield j)) c = Some (c1\<lparr>cu_world := v\<rparr>)"
    using run d(1) by (simp add: cluster_run_append del: cluster_run.simps cluster_step.simps append_Cons)
  moreover have "list_all (\<lambda>e. \<not> (\<exists>p. e = Ask p)) (?es @ replicate k (Yield j))"
    by (simp add: list_all_iff)
  ultimately show ?thesis
    using d(2) s by (intro exI [of _ "?es @ replicate k (Yield j)"] exI [of _ "c1\<lparr>cu_world := v\<rparr>"]) (simp add: c1_def)
qed

end
