(* ===== verification/Cluster_Delivery.thy ===== *)
theory Cluster_Delivery
  imports Cluster_Progress Delivery
begin

text \<open>
  A message on its whole way, in a run of several servers over one broker: from the actor of one
  server over its coordinator, its sink, the broker and the stream of another server to the actors
  there.
\<close>

section \<open>The receiver reads on\<close>

text \<open>What a member needs to take in whatever its stream gives: its own key is in every stored group.\<close>

definition listens ::
  "('db, 'sk, 'pk, 'sg, 'lk, 'kg, 'mk, 'off, 'mo, 'ps) cenv \<Rightarrow> ('db \<Rightarrow> string \<Rightarrow> string option) \<Rightarrow>
   ('db, 'sk, 'lk, 'kg, 'mk, 'off, 'mo, 'cos, 'ps) member \<Rightarrow> bool" where
  "listens E view mb \<longleftrightarrow> me_waits mb = None \<and> \<not> wh_stopped (me_server mb) \<and>
     node_inv E view (me_key mb) (wh_node (me_server mb)) \<and> named E view (co_db (wh_node (me_server mb))) \<and>
     str_range (identity_of (env_crypto E) (me_key mb)) 2 10 \<noteq> None"

lemma reads_next:
  assumes laws: "store_laws E view" and l: "listens E view (cu_members c ! k)" and k: "k < length (cu_members c)"
    and n: "me_read (cu_members c ! k) < length (lv_got (wd_streams (cu_world c) ! me_stream (cu_members c ! k)))"
  shows "\<exists>s. let mb = cu_members c ! k; mb' = mb\<lparr>me_server := s, me_read := me_read mb + 1\<rparr> in
    cluster_step E M (Receive k now) c = Some (c\<lparr>cu_members := (cu_members c)[k := mb']\<rparr>) \<and>
    listens E view mb' \<and> heard_only (me_server mb) s \<and>
    (\<forall>raw r. sm_event (Some (Sse_message (snd (lv_got (wd_streams (cu_world c) ! me_stream mb) ! me_read mb)))) = Some (Ok raw) \<longrightarrow>
       incoming_filter E (co_pk_str (wh_node (me_server mb))) [Ok raw] = [r] \<longrightarrow>
       wh_node s = fst (stream_handle E now r (wh_node (me_server mb))))"
proof -
  let ?mb = "cu_members c ! k" and ?got = "lv_got (wd_streams (cu_world c) ! me_stream (cu_members c ! k))"
  let ?t = "snd (?got ! me_read ?mb)"
  show ?thesis
  proof (cases "\<exists>raw. sm_event (Some (Sse_message ?t)) = Some (Ok raw)")
    case True
    then obtain raw where raw: "sm_event (Some (Sse_message ?t)) = Some (Ok raw)" by blast
    note li = l [unfolded listens_def]
    from li arrives [OF laws, of "me_key ?mb" "me_server ?mb" M raw now] obtain s where
      s: "whole_step E M (Arrive raw now) (me_server ?mb) = Some s" "heard_only (me_server ?mb) s"
      "node_inv E view (me_key ?mb) (wh_node s)"
      "\<And>r. incoming_filter E (co_pk_str (wh_node (me_server ?mb))) [Ok raw] = [r] \<Longrightarrow>
       wh_node s = fst (stream_handle E now r (wh_node (me_server ?mb)))" by blast
    have "member_receive E M now ?t ?mb = Some (?mb\<lparr>me_server := s, me_read := me_read ?mb + 1\<rparr>)"
      using s(1) raw by (simp add: member_receive_def del: whole_step.simps)
    moreover have "me_waits ?mb = None" using l by (simp add: listens_def)
    moreover have "listens E view (?mb\<lparr>me_server := s, me_read := me_read ?mb + 1\<rparr>)"
      using l s(2,3) same_routes_db [OF heard_only_routes [OF s(2)]] by (simp add: listens_def heard_only_def)
    ultimately show ?thesis
      using k n raw s(2,4) by (intro exI [of _ s]) (simp add: Let_def at_member_def)
  next
    case False
    have "member_receive E M now ?t ?mb = Some (?mb\<lparr>me_server := me_server ?mb, me_read := me_read ?mb + 1\<rparr>)"
      using False by (simp add: member_receive_def split: option.split outcome.split)
    moreover have "me_waits ?mb = None" using l by (simp add: listens_def)
    moreover have "listens E view (?mb\<lparr>me_server := me_server ?mb, me_read := me_read ?mb + 1\<rparr>)"
      using l by (simp add: listens_def)
    ultimately show ?thesis
      using k n False by (intro exI [of _ "me_server ?mb"]) (simp add: Let_def at_member_def)
  qed
qed

lemma reads_on:
  assumes laws: "store_laws E view" and "listens E view (cu_members c ! k)" and "k < length (cu_members c)"
    and "me_read (cu_members c ! k) + n \<le> length (lv_got (wd_streams (cu_world c) ! me_stream (cu_members c ! k)))"
  shows "\<exists>s. let mb = cu_members c ! k; mb' = mb\<lparr>me_server := s, me_read := me_read mb + n\<rparr> in
    cluster_run E M (replicate n (Receive k now)) c = Some (c\<lparr>cu_members := (cu_members c)[k := mb']\<rparr>) \<and>
    listens E view mb' \<and> heard_only (me_server mb) s"
  using assms(2-)
proof (induction n arbitrary: c)
  case 0
  have "(cu_members c ! k)\<lparr>me_server := me_server (cu_members c ! k), me_read := me_read (cu_members c ! k) + 0\<rparr> =
      cu_members c ! k" by simp
  with 0 show ?case by (intro exI [of _ "me_server (cu_members c ! k)"]) simp
next
  case (Suc n)
  let ?mb = "cu_members c ! k"
  from reads_next [OF laws Suc.prems(1,2), of M now] Suc.prems(3) obtain s where s:
    "cluster_step E M (Receive k now) c =
       Some (c\<lparr>cu_members := (cu_members c)[k := ?mb\<lparr>me_server := s, me_read := me_read ?mb + 1\<rparr>]\<rparr>)"
    "listens E view (?mb\<lparr>me_server := s, me_read := me_read ?mb + 1\<rparr>)"
    "heard_only (me_server ?mb) s"
    by (auto simp: Let_def simp del: cluster_step.simps)
  let ?c = "c\<lparr>cu_members := (cu_members c)[k := ?mb\<lparr>me_server := s, me_read := me_read ?mb + 1\<rparr>]\<rparr>"
  from Suc.IH [of ?c] Suc.prems s(2) obtain s' where
    "cluster_run E M (replicate n (Receive k now)) ?c =
       Some (c\<lparr>cu_members := (cu_members c)[k := ?mb\<lparr>me_server := s', me_read := me_read ?mb + Suc n\<rparr>]\<rparr>)"
    "listens E view (?mb\<lparr>me_server := s', me_read := me_read ?mb + Suc n\<rparr>)"
    "heard_only s s'"
    by (auto simp: Let_def)
  with s(1,3) show ?case
    by (intro exI [of _ s']) (auto simp: Let_def simp del: cluster_step.simps intro: heard_only_trans)
qed

text \<open>The last event of the stream is the message of a member of the receiver's group.\<close>

lemma hears_last:
  assumes laws: "store_laws E view" "cipher_laws E" "transport_laws E"
    and l: "listens E view mb" and k: "k < length (cu_members c)" "mb = cu_members c ! k"
    and got: "map snd (lv_got (wd_streams (cu_world c) ! me_stream mb)) = msgs @ [t]" "me_read mb \<le> length msgs"
    and groups: "same_members pks th (identity_of (env_crypto E) sk) (identity_of (env_crypto E) (me_key mb)) g_a g_b"
    and ne: "identity_of (env_crypto E) sk \<noteq> identity_of (env_crypto E) (me_key mb)"
    and known: "retrieve_group E db_a (pg_group_id g_a) = Ok g_a"
      "retrieve_group E (co_db (wh_node (me_server mb))) (pg_group_id g_b) = Ok g_b"
    and room: "c_room msg = make_room_id rid (pg_group_id g_a)"
      "CHR ''@'' \<notin> set rid" "CHR ''@'' \<notin> set (pg_group_id g_a)"
    and m: "de (env_gpm E) (c_message msg) = Some m" "gpm_receiver m = None \<or> gpm_receiver m = get_i g_b"
    and enc: "maybe_encrypt E db_a msg = Ok msg'"
    and posted: "outgoing_text E sk (identity_of (env_crypto E) sk) msg' = Ok t"
  shows "\<exists>n w s. cluster_run E M (replicate n (Receive k now)) c =
      Some (c\<lparr>cu_members := (cu_members c)[k := mb\<lparr>me_server := s, me_read := length msgs + 1\<rparr>]\<rparr>) \<and>
    heard_only (me_server mb) s \<and>
    (me_read mb = length msgs \<longrightarrow>
       wh_node s = handle_incoming_unsafe E w now 0 (emit [Inc MESSAGES_TOTAL_RECEIVED] (wh_node (me_server mb)))) \<and>
    w_sender_public_key w = identity_of (env_crypto E) sk \<and> w_room w = c_room msg \<and> de (env_gpm E) (w_payload w) = Some m \<and>
    handed_on E (wh_node (me_server mb)) w (co_out (wh_node s))"
proof -
  let ?got = "lv_got (wd_streams (cu_world c) ! me_stream mb)" and ?n = "length msgs - me_read mb"
  have len: "length ?got = length msgs + 1" using arg_cong [OF got(1), where f = length] by simp
  with reads_on [OF laws(1) l [unfolded k(2)] k(1), of ?n M now] k(2) got(2) obtain s where s:
    "cluster_run E M (replicate ?n (Receive k now)) c =
       Some (c\<lparr>cu_members := (cu_members c)[k := mb\<lparr>me_server := s, me_read := length msgs\<rparr>]\<rparr>)"
    "listens E view (mb\<lparr>me_server := s, me_read := length msgs\<rparr>)"
    "heard_only (me_server mb) s"
    by (auto simp: Let_def)
  have same: "s = me_server mb" if "me_read mb = length msgs"
  proof -
    from s(1) that have "cu_members c = (cu_members c)[k := mb\<lparr>me_server := s, me_read := length msgs\<rparr>]"
      by (cases c) (simp split: if_splits)
    then have "mb = mb\<lparr>me_server := s, me_read := length msgs\<rparr>" using k by (metis nth_list_update_eq)
    then show ?thesis by (cases mb) simp
  qed
  let ?mb = "mb\<lparr>me_server := s, me_read := length msgs\<rparr>"
  let ?c = "c\<lparr>cu_members := (cu_members c)[k := ?mb]\<rparr>" and ?w = "signed_wire E sk msg'"
  have last: "snd (?got ! length msgs) = t"
    using arg_cong [OF got(1), where f = "\<lambda>xs. xs ! length msgs"] len by (simp add: nth_append)
  note parsed = parse_outgoing_text [OF laws(3) posted]
  have own: "co_pk_str (wh_node s) = identity_of (env_crypto E) (me_key mb)" "co_sk (wh_node s) = me_key mb"
    using s(2) by (simp_all add: listens_def node_inv_def)
  have raw: "sm_event (Some (Sse_message t)) = Some (Ok t)"
    using parsed(2) by (simp add: sm_event_def from_utf8_def)
  have fil: "incoming_filter E (co_pk_str (wh_node s)) [Ok t] = [Ok ?w]"
    using parsed(1) ne own(1) by (simp add: incoming_filter_single take_non_owned_def)
  from reads_next [OF laws(1), of ?c k M now] s(2) k len obtain s' where s':
    "cluster_step E M (Receive k now) ?c =
       Some (c\<lparr>cu_members := (cu_members c)[k := mb\<lparr>me_server := s', me_read := length msgs + 1\<rparr>]\<rparr>)"
    "wh_node s' = fst (stream_handle E now (Ok ?w) (wh_node s))" "heard_only s s'"
    using raw fil last by (auto simp: Let_def simp del: cluster_step.simps)
  have "retrieve_group E (co_db (wh_node s)) (pg_group_id g_b) = Ok g_b"
    using known(2) same_routes_db [OF heard_only_routes [OF s(3)]] by simp
  from member_is_heard [OF laws(2) groups refl refl known(1) this room m enc own, of now] obtain p where
    p: "de (env_gpm E) p = Some m" "stream_handle E now (Ok ?w) (wh_node s) =
      (handle_incoming_unsafe E (?w\<lparr>w_payload := p\<rparr>) now 0 (emit [Inc MESSAGES_TOTAL_RECEIVED] (wh_node s)), Ok ())"
    by blast
  let ?v = "?w\<lparr>w_payload := p\<rparr>"
  have h: "handed_on E (wh_node (me_server mb)) ?v (co_out (wh_node s'))"
    using handed_on_routes [OF heard_only_routes [OF s(3)] handed_on_unsafe] s'(2) p(2) by simp
  have "cluster_run E M (replicate (Suc ?n) (Receive k now)) c =
      Some (c\<lparr>cu_members := (cu_members c)[k := mb\<lparr>me_server := s', me_read := length msgs + 1\<rparr>]\<rparr>)"
    using cluster_run_snoc [OF s(1) s'(1)] by (simp only: replicate_Suc replicate_append_same)
  moreover have "wh_node s' = handle_incoming_unsafe E ?v now 0 (emit [Inc MESSAGES_TOTAL_RECEIVED] (wh_node (me_server mb)))"
    if "me_read mb = length msgs"
    using s'(2) p(2) same [OF that] by simp
  ultimately show ?thesis
    using h p(1) heard_only_trans [OF s(3) s'(3)] maybe_encrypt_room [OF enc]
    by (intro exI [of _ "Suc ?n"] exI [of _ ?v] exI [of _ s'] conjI impI) simp_all
qed

section \<open>From one server to another\<close>

text \<open>A member has read no more than its room holds.\<close>

lemma read_at_most:
  assumes laws: "store_laws E view" and reach: "cluster_reachable E M honest strangers c" and mb: "mb \<in> set (cu_members c)"
    and msgs: "msgs = ro_messages (bk_heap (wd_db (cu_world c)) ! sub_room (lv_sub (wd_streams (cu_world c) ! me_stream mb)))"
      "length msgs < 65536"
  shows "me_read mb \<le> length msgs"
proof -
  let ?l = "wd_streams (cu_world c) ! me_stream mb"
  have r: "reads_ok (cu_world c) mb" by (rule members_ok_reachable(2) [OF laws reach mb])
  then have l: "?l \<in> set (wd_streams (cu_world c))" "lv_from ?l = 0" "me_read mb \<le> length (lv_got ?l)"
    by (simp_all add: reads_ok_def)
  have "world_inv (cu_world c)"
    using cluster_inv_reachable [OF laws reach] by (simp add: cluster_inv_def world_inv_reachable)
  with l(1) msgs(1) have "stream_ok ?l msgs" unfolding world_inv_def by blast
  from stream_ok_segment(3) [OF this msgs(2)] l(2) have "length (lv_got ?l) \<le> length msgs"
    by (cases "lv_got ?l = []") simp_all
  with l(3) show ?thesis by simp
qed

lemma harmless_run:
  fixes es :: "('sk, 'db) cluster_event list"
  shows "list_all (\<lambda>e. \<not> (\<exists>p. e = Ask p)) es \<Longrightarrow> list_all harmless es"
proof -
  have "harmless e" if "\<nexists>p. e = Ask p" for e :: "('sk, 'db) cluster_event"
    using that by (cases e) auto
  then show "list_all (\<lambda>e. \<not> (\<exists>p. e = Ask p)) es \<Longrightarrow> list_all harmless es"
    by (simp add: list_all_iff)
qed

text \<open>The sender's coordinator gives the message to its sink, which asks the broker to broadcast it.\<close>

lemma says:
  assumes laws: "store_laws E view" and reach: "cluster_reachable E M honest strangers c"
    and a: "i < length (cu_members c)" "a = cu_members c ! i"
    and ready: "me_waits a = None" "me_link a \<noteq> None" "\<not> wh_stopped (me_server a)"
    and said: "said_in e (me_server a) = Some msg" and enc: "maybe_encrypt E (co_db (wh_node (me_server a))) msg = Ok msg'"
    and posted: "outgoing_text E (me_key a) (identity_of (env_crypto E) (me_key a)) msg' = Ok t"
  shows "\<exists>s p. cluster_step E M (Local i e) c = Some (c\<lparr>cu_members := (cu_members c)[i := a\<lparr>me_server := s\<rparr>]\<rparr>) \<and>
    next_out p (a\<lparr>me_server := s\<rparr>) = Some msg' \<and> asks_now E (a\<lparr>me_server := s\<rparr>) msg' = [t]"
proof -
  from said_moves [OF said enc ready(3)] obtain s where s: "whole_step E M e (me_server a) = Some s"
    "wh_node s = emit [Send_one msg'] (wh_node (me_server a))" "wh_posted s = wh_posted (me_server a)" "\<not> wh_stopped s"
    by blast
  have "is_local e" using said by (cases e) simp_all
  with a ready(1) s(1) have step: "cluster_step E M (Local i e) c = Some (c\<lparr>cu_members := (cu_members c)[i := a\<lparr>me_server := s\<rparr>]\<rparr>)"
    by (simp add: at_member_def member_local_def del: whole_step.simps)
  have in_c: "a \<in> set (cu_members c)" using a by simp
  have "outbox (co_out (wh_node s)) = outbox (co_out (wh_node (me_server a))) @ [msg']"
    using s(2) by (simp add: outbox_def map_filter_append List.map_filter_simps)
  moreover have "length (outbox (co_out (wh_node (me_server a)))) \<notin> set (wh_posted s)"
    using posts_okD(3) [OF members_ok_reachable(1) [OF laws reach in_c]] by (auto simp: given_def s(3))
  ultimately have "next_out (length (outbox (co_out (wh_node (me_server a))))) (a\<lparr>me_server := s\<rparr>) = Some msg'"
    using s(4) by (simp add: next_out_def Let_def)
  moreover have "asks_now E (a\<lparr>me_server := s\<rparr>) msg' = [t]"
  proof -
    from in_c cluster_inv_reachable [OF laws reach] have "member_ok E view M (sources E honest strangers c)
        (length (wd_streams (cu_world c))) a" by (simp add: cluster_inv_def)
    with ready(2) obtain url where "me_link a = Some (link_of E url (me_key a))"
      unfolding member_ok_def by fastforce
    with posted show ?thesis by (simp add: asks_now_eq link_of_def)
  qed
  ultimately show ?thesis using step by blast
qed

lemma travels:
  assumes laws: "store_laws E view" "cipher_laws E" "transport_laws E"
    and reach: "cluster_reachable E M honest strangers c"
    and a: "i < length (cu_members c)" "a = cu_members c ! i"
    and b: "k < length (cu_members c)" "b = cu_members c ! k" "i \<noteq> k"
    and groups: "same_members pks th (identity_of (env_crypto E) (me_key a)) (identity_of (env_crypto E) (me_key b)) g_a g_b"
    and ne: "identity_of (env_crypto E) (me_key a) \<noteq> identity_of (env_crypto E) (me_key b)"
    and known: "retrieve_group E (co_db (wh_node (me_server a))) (pg_group_id g_a) = Ok g_a"
      "retrieve_group E (co_db (wh_node (me_server b))) (pg_group_id g_b) = Ok g_b"
    and ready: "me_waits a = None" "me_link a \<noteq> None" "\<not> wh_stopped (me_server a)"
    and said: "said_in e (me_server a) = Some msg"
    and room: "c_room msg = make_room_id rid (pg_group_id g_a)"
      "CHR ''@'' \<notin> set rid" "CHR ''@'' \<notin> set (pg_group_id g_a)"
    and m: "de (env_gpm E) (c_message msg) = Some m" "gpm_receiver m = None \<or> gpm_receiver m = get_i g_b"
    and enc: "maybe_encrypt E (co_db (wh_node (me_server a))) msg = Ok msg'"
    and posted: "outgoing_text E (me_key a) (identity_of (env_crypto E) (me_key a)) msg' = Ok t" "broker_accepts t"
    and hears: "me_waits b = None" "\<not> wh_stopped (me_server b)" "named E view (co_db (wh_node (me_server b)))"
    and stream: "l = wd_streams (cu_world c) ! me_stream b" "lv_open l"
      "bk_rooms (wd_db (cu_world c)) ROOM_ID = Some (sub_room (lv_sub l))" "length (wd_streams (cu_world c)) < 65536"
      "length (ro_messages (bk_heap (wd_db (cu_world c)) ! sub_room (lv_sub l))) < 65535"
  shows "\<exists>es c' w. list_all harmless es \<and> cluster_run E M es c = Some c' \<and>
    w_sender_public_key w = identity_of (env_crypto E) (me_key a) \<and> w_room w = c_room msg \<and>
    de (env_gpm E) (w_payload w) = Some m \<and>
    handed_on E (wh_node (me_server b)) w (co_out (wh_node (me_server (cu_members c' ! k)))) \<and>
    k < length (cu_members c') \<and> me_waits (cu_members c' ! k) = None \<and>
    heard_only (me_server b) (me_server (cu_members c' ! k)) \<and>
    (me_read b = length (ro_messages (bk_heap (wd_db (cu_world c)) ! sub_room (lv_sub l))) \<longrightarrow>
       wh_node (me_server (cu_members c' ! k)) =
       handle_incoming_unsafe E w 0 0 (emit [Inc MESSAGES_TOTAL_RECEIVED] (wh_node (me_server b))))"
proof -
  have in_c: "a \<in> set (cu_members c)" "b \<in> set (cu_members c)" using a b by simp_all
  let ?msgs = "ro_messages (bk_heap (wd_db (cu_world c)) ! sub_room (lv_sub l))"
  from says [OF laws(1) reach a ready said enc posted(1)] obtain s p where
    s: "cluster_step E M (Local i e) c = Some (c\<lparr>cu_members := (cu_members c)[i := a\<lparr>me_server := s\<rparr>]\<rparr>)"
      "next_out p (a\<lparr>me_server := s\<rparr>) = Some msg'" "asks_now E (a\<lparr>me_server := s\<rparr>) msg' = [t]"
    by (elim exE conjE) (rule that)
  define c1 where "c1 = c\<lparr>cu_members := (cu_members c)[i := a\<lparr>me_server := s\<rparr>]\<rparr>"
  from s(1) have step: "cluster_step E M (Local i e) c = Some c1" by (simp add: c1_def del: cluster_step.simps)
  have reach1: "cluster_reachable E M honest strangers c1"
    by (rule continue_cluster [OF reach _ step]) simp
  have j: "reads_ok (cu_world c) b" by (rule members_ok_reachable(2) [OF laws(1) reach in_c(2)])
  from ready(2) obtain lk where lk: "me_link a = Some lk" by blast
  have "\<exists>es c2. list_all (\<lambda>e. \<not> (\<exists>p. e = Ask p)) es \<and> cluster_run E M es c1 = Some c2 \<and>
    map snd (lv_got (wd_streams (cu_world c2) ! me_stream b)) = ro_messages (bk_heap (wd_db (cu_world c1)) ! sub_room (lv_sub l)) @ [t] \<and>
    (\<exists>s'. cu_members c2 = (cu_members c1)[i := a\<lparr>me_server := s, me_server := s', me_asked := me_asked (a\<lparr>me_server := s\<rparr>) @ [t]\<rparr>] \<and>
       whole_step E M (whole_event.Post p True) (me_server (a\<lparr>me_server := s\<rparr>)) = Some s')"
    by (rule gets_through [OF laws(1) reach1, where m = msg' and l = lk])
      (use a s(2,3) ready(1) lk posted(2) j stream in \<open>simp_all add: c1_def reads_ok_def\<close>)
  then obtain es c2 where es: "list_all harmless es" "cluster_run E M es c1 = Some c2"
    and got: "map snd (lv_got (wd_streams (cu_world c2) ! me_stream b)) = ?msgs @ [t]"
    and b2: "cu_members c2 ! k = b" "length (cu_members c2) = length (cu_members c)"
    using b by (fastforce simp: c1_def intro: harmless_run)
  have read: "me_read b \<le> length ?msgs"
    by (rule read_at_most [OF laws(1) reach in_c(2)]) (use stream in simp_all)
  have "listens E view b"
    using hears member_inv [OF laws(1) reach in_c(2)] same_membersD(10) [OF groups] by (auto simp: listens_def)
  from hears_last [where M = M and now = 0, OF laws this _ b2(1) [symmetric] got read groups ne known room m enc posted(1)] b(1) b2(2)
  obtain n w s' where w: "cluster_run E M (replicate n (Receive k 0)) c2 =
      Some (c2\<lparr>cu_members := (cu_members c2)[k := b\<lparr>me_server := s', me_read := length ?msgs + 1\<rparr>]\<rparr>)"
    "w_sender_public_key w = identity_of (env_crypto E) (me_key a)" "w_room w = c_room msg" "de (env_gpm E) (w_payload w) = Some m"
    "handed_on E (wh_node (me_server b)) w (co_out (wh_node s'))" "heard_only (me_server b) s'"
    "me_read b = length ?msgs \<Longrightarrow>
       wh_node s' = handle_incoming_unsafe E w 0 0 (emit [Inc MESSAGES_TOTAL_RECEIVED] (wh_node (me_server b)))" by auto
  let ?c = "c2\<lparr>cu_members := (cu_members c2)[k := b\<lparr>me_server := s', me_read := length ?msgs + 1\<rparr>]\<rparr>"
  have run: "cluster_run E M ((Local i e # es) @ replicate n (Receive k 0)) c = Some ?c"
    using w(1) es(2) step unfolding cluster_run_append by (simp del: cluster_step.simps)
  have "list_all harmless ((Local i e # es) @ replicate n (Receive k 0))"
    using es(1) by (auto simp: list_all_iff)
  with run show ?thesis
    using w(2-) hears(1) b(1) b2(2) by (intro exI [of _ "(Local i e # es) @ replicate n (Receive k 0)"] exI [of _ ?c] exI [of _ w]) simp
qed

section \<open>The last message of a key\<close>

text \<open>A machine that has its output once it has taken a message and, if it wants to, proceeded.\<close>

definition completes :: "('sm, 'm, 'o) sm_api \<Rightarrow> 'sm \<Rightarrow> 'm msg \<Rightarrow> bool" where
  "completes SM s m \<longleftrightarrow>
     (\<exists>s1 s2. sm_handle_incoming SM s m = (s1, Inr ()) \<and> sm_step SM (sm_drained SM s1) = (s2, Inr ()) \<and>
        sm_result SM (sm_drained SM s2) \<noteq> None)"

lemma completes_collector:
  assumes "accepts (pl_index p) (im_message im)" and "completes SM (pl_state p) (im_message im)"
  shows "list_ex is_collector (pl_out (player_handle_message SM now im p))"
  using assms(2) unfolding completes_def
  by (auto simp: player_handle_message_out [OF assms(1) refl] proceed_out_def result_out_def)

text \<open>A player that has taken all its messages takes the one that it has just been given, and completes.\<close>

lemma last_message_ends_player:
  assumes laws: "picks_once (mc_keygen M) kspent" "picks_once (mc_offline M) ospent" and results: "results_laws E view"
    and reach: "whole_reachable E M sk shares results s" and up: "\<not> wh_stopped s"
    and once: "length (accepted (cq_request_id q) s) \<le> 1"
    and ac: "wh_kg s a = Some ac" "kr_request_id (pl_input (ac_state ac)) = cq_request_id q"
    and box: "inbox_keygen a (co_out (wh_node s)) = read @ [im]" "ac_read ac = length read"
    and last: "accepts (pl_index (ac_state ac)) (im_message im)" "completes (mc_keygen M) (pl_state (ac_state ac)) (im_message im)"
  shows "\<exists>es s' r. list_all is_local es \<and> whole_run E M es s = Some s' \<and>
    check_result E q (wh_imp s') = Ok r \<and> cr_request_status r = request_status_i32 Done"
proof -
  let ?ac = "ac\<lparr>ac_state := player_handle_message (mc_keygen M) 0 im (ac_state ac), ac_read := ac_read ac + 1\<rparr>"
  let ?s = "s\<lparr>wh_kg := (wh_kg s)(a \<mapsto> ?ac)\<rparr>"
  have step: "whole_step E M (Read_keygen a 0) s = Some ?s"
    using ac(1) box by (simp add: takes_message_def)
  have fin: "list_ex is_collector (pl_out (ac_state ?ac))"
    using completes_collector [OF last] by simp
  have "whole_reachable E M sk shares results ?s" by (rule continue_whole [OF reach step])
  from keygen_done_reaches_client [OF laws results this, of q a ?ac 0] up once ac(2) fin obtain m s' r where
    r: "whole_run E M (replicate (length (pl_out (ac_state ?ac)) - ac_sent ?ac) (Emit_keygen a 0) @ replicate m Store) ?s = Some s'"
    "check_result E q (wh_imp s') = Ok r" "cr_request_status r = request_status_i32 Done"
    by (auto simp: accepted_def player_handle_message_simps)
  let ?es = "Read_keygen a 0 # replicate (length (pl_out (ac_state ?ac)) - ac_sent ?ac) (Emit_keygen a 0) @ replicate m Store"
  have "whole_run E M ?es s = Some s'" using step r(1) by (simp del: whole_step.simps)
  moreover have "list_all is_local ?es" by (auto simp: list_all_iff)
  ultimately show ?thesis using r(2,3) by blast
qed

lemma heard_only_accepted: "heard_only s s' \<Longrightarrow> accepted rid s' = accepted rid s"
  by (simp add: heard_only_def accepted_def)

lemma completes_at_client:
  assumes laws: "store_laws E view" "picks_once (mc_keygen M) kspent" "picks_once (mc_offline M) ospent"
      "results_laws E view'"
    and reach: "cluster_reachable E M honest strangers c" and k: "k < length (cu_members c)" "b = cu_members c ! k"
    and b: "me_waits b = None" "\<not> wh_stopped (me_server b)" "length (accepted (cq_request_id q) (me_server b)) \<le> 1"
    and ac: "wh_kg (me_server b) a = Some ac" "kr_request_id (pl_input (ac_state ac)) = cq_request_id q"
    and box: "inbox_keygen a (co_out (wh_node (me_server b))) = read @ [im]" "ac_read ac = length read"
    and last: "accepts (pl_index (ac_state ac)) (im_message im)" "completes (mc_keygen M) (pl_state (ac_state ac)) (im_message im)"
  shows "\<exists>es c' r. list_all harmless es \<and> cluster_run E M es c = Some c' \<and>
    check_result E q (wh_imp (me_server (cu_members c' ! k))) = Ok r \<and> cr_request_status r = request_status_i32 Done"
proof -
  have "b \<in> set (cu_members c)" using k by simp
  with cluster_inv_reachable [OF laws(1) reach] have "member_ok E view M (sources E honest strangers c)
      (length (wd_streams (cu_world c))) b" by (simp add: cluster_inv_def)
  then obtain shares results where "whole_reachable E M (me_key b) shares results (me_server b)"
    unfolding member_ok_def by blast
  from last_message_ends_player [OF laws(2-4) this b(2,3) ac box last] obtain es s' r where
    r: "list_all is_local es" "whole_run E M es (me_server b) = Some s'"
    "check_result E q (wh_imp s') = Ok r" "cr_request_status r = request_status_i32 Done" by blast
  have "list_all harmless (map (Local k) es)" by (simp add: list_all_iff)
  with cluster_run_local [of k c es E M s'] k b(1) r show ?thesis
    by (intro exI [of _ "map (Local k) es"] exI) auto
qed

end
