(* ===== verification/Grpc.thy ===== *)
theory Grpc
  imports Server
begin

text \<open>
  The generated gRPC code of \<open>src/src/pb/mpc.rs\<close> around the service: \<open>MpcServer\<close>, which dispatches a
  request on its path, and \<open>MpcClient\<close>. What \<open>tonic\<close> does for them, the encodings and the transport, is
  an argument.
\<close>

section \<open>The service\<close>

text \<open>The trait \<open>Mpc\<close>: its methods share the state behind the \<open>Arc\<close>.\<close>

record 'st mpc_methods =
  mt_keygen :: "keygen_request \<Rightarrow> 'st \<Rightarrow> 'st \<times> (status, keygen_response) outcome"
  mt_sign :: "sign_request \<Rightarrow> 'st \<Rightarrow> 'st \<times> (status, sign_response) outcome"
  mt_check_result :: "check_result_request \<Rightarrow> 'st \<Rightarrow> 'st \<times> (status, check_result_response) outcome"

definition mpc_imp_methods ::
  "('db, 'sk, 'pk, 'sg, 'lk, 'kg, 'mk, 'off, 'mo, 'ps) cenv \<Rightarrow> 'db mpc_imp mpc_methods" where
  "mpc_imp_methods E =
     \<lparr>mt_keygen = keygen E, mt_sign = sign E, mt_check_result = \<lambda>req s. (s, check_result E req s)\<rparr>"

text \<open>
  Of \<open>tonic\<close>: the set of enabled encodings, and \<open>Grpc::unary\<close> with the compression configuration, which
  decodes the body, runs the method and encodes its answer.
\<close>

record ('st, 'cfg, 'enc, 'body, 'rep) tonic_server =
  tn_default :: 'cfg
  tn_enable :: "'enc \<Rightarrow> 'cfg \<Rightarrow> 'cfg"
  tn_keygen :: "'cfg \<Rightarrow> 'cfg \<Rightarrow> (keygen_request \<Rightarrow> 'st \<Rightarrow> 'st \<times> (status, keygen_response) outcome) \<Rightarrow>
    'body \<Rightarrow> 'st \<Rightarrow> 'st \<times> 'rep"
  tn_sign :: "'cfg \<Rightarrow> 'cfg \<Rightarrow> (sign_request \<Rightarrow> 'st \<Rightarrow> 'st \<times> (status, sign_response) outcome) \<Rightarrow>
    'body \<Rightarrow> 'st \<Rightarrow> 'st \<times> 'rep"
  tn_check_result :: "'cfg \<Rightarrow> 'cfg \<Rightarrow>
    (check_result_request \<Rightarrow> 'st \<Rightarrow> 'st \<times> (status, check_result_response) outcome) \<Rightarrow>
    'body \<Rightarrow> 'st \<Rightarrow> 'st \<times> 'rep"

record ('st, 'cfg) mpc_server =
  sv_inner :: "'st mpc_methods"
  sv_accept_compression_encodings :: 'cfg
  sv_send_compression_encodings :: 'cfg

definition mpc_server_from_arc ::
  "('st, 'cfg, 'enc, 'body, 'rep) tonic_server \<Rightarrow> 'st mpc_methods \<Rightarrow> ('st, 'cfg) mpc_server" where
  "mpc_server_from_arc T inner =
     \<lparr>sv_inner = inner, sv_accept_compression_encodings = tn_default T,
      sv_send_compression_encodings = tn_default T\<rparr>"

definition mpc_server_new ::
  "('st, 'cfg, 'enc, 'body, 'rep) tonic_server \<Rightarrow> 'st mpc_methods \<Rightarrow> ('st, 'cfg) mpc_server" where
  "mpc_server_new T inner = mpc_server_from_arc T inner"

text \<open>\<open>intercepted\<close> is \<open>InterceptedService::new\<close> of \<open>tonic\<close>, here and for the client.\<close>

definition mpc_server_with_interceptor ::
  "('st, 'cfg, 'enc, 'body, 'rep) tonic_server \<Rightarrow> (('st, 'cfg) mpc_server \<Rightarrow> 'f \<Rightarrow> 'is) \<Rightarrow>
   'st mpc_methods \<Rightarrow> 'f \<Rightarrow> 'is" where
  "mpc_server_with_interceptor T intercepted inner interceptor = intercepted (mpc_server_new T inner) interceptor"

definition mpc_server_accept_compressed ::
  "('st, 'cfg, 'enc, 'body, 'rep) tonic_server \<Rightarrow> 'enc \<Rightarrow> ('st, 'cfg) mpc_server \<Rightarrow> ('st, 'cfg) mpc_server" where
  "mpc_server_accept_compressed T encoding s =
     s\<lparr>sv_accept_compression_encodings := tn_enable T encoding (sv_accept_compression_encodings s)\<rparr>"

definition mpc_server_send_compressed ::
  "('st, 'cfg, 'enc, 'body, 'rep) tonic_server \<Rightarrow> 'enc \<Rightarrow> ('st, 'cfg) mpc_server \<Rightarrow> ('st, 'cfg) mpc_server" where
  "mpc_server_send_compressed T encoding s =
     s\<lparr>sv_send_compression_encodings := tn_enable T encoding (sv_send_compression_encodings s)\<rparr>"

text \<open>\<open>Clone\<close> copies the configuration and shares the service; \<open>poll_ready\<close> never waits.\<close>

definition mpc_server_clone :: "('st, 'cfg) mpc_server \<Rightarrow> ('st, 'cfg) mpc_server" where
  "mpc_server_clone s =
     \<lparr>sv_inner = sv_inner s, sv_accept_compression_encodings = sv_accept_compression_encodings s,
      sv_send_compression_encodings = sv_send_compression_encodings s\<rparr>"

definition mpc_server_poll_ready :: "('st, 'cfg) mpc_server \<Rightarrow> bool" where
  "mpc_server_poll_ready s = True"

definition mpc_server_name :: string where
  "mpc_server_name = ''mpc.Mpc''"

text \<open>The answer to a request: what the unary call gives, or an empty one with a status and headers.\<close>

datatype 'rep http_reply = Grpc_reply 'rep | Empty_reply nat "(string \<times> string) list"

definition mpc_server_call ::
  "('st, 'cfg, 'enc, 'body, 'rep) tonic_server \<Rightarrow> ('st, 'cfg) mpc_server \<Rightarrow> string \<Rightarrow> 'body \<Rightarrow> 'st \<Rightarrow>
   'st \<times> 'rep http_reply" where
  "mpc_server_call T s path req st =
     (let inner = sv_inner s; accept = sv_accept_compression_encodings s;
          send = sv_send_compression_encodings s in
      case server_call path of
        Unary Keygen_method \<Rightarrow> apsnd Grpc_reply (tn_keygen T accept send (mt_keygen inner) req st)
      | Unary Sign_method \<Rightarrow> apsnd Grpc_reply (tn_sign T accept send (mt_sign inner) req st)
      | Unary CheckResult_method \<Rightarrow>
          apsnd Grpc_reply (tn_check_result T accept send (mt_check_result inner) req st)
      | Grpc_status _ \<Rightarrow>
          (st, Empty_reply 200 [(''grpc-status'', ''12''), (''content-type'', ''application/grpc'')]))"

section \<open>The client\<close>

text \<open>
  Of \<open>tonic\<close>: the channel, whether it is ready or with which error it is not, and the unary call on a path.
  \<open>'w\<close> is the state of everything else.
\<close>

datatype client_status = Unknown string | From_service status

record ('g, 't, 'uri, 'enc, 'w) tonic_client =
  tc_new :: "'t \<Rightarrow> 'g"
  tc_with_origin :: "'t \<Rightarrow> 'uri \<Rightarrow> 'g"
  tc_send_compressed :: "'enc \<Rightarrow> 'g \<Rightarrow> 'g"
  tc_accept_compressed :: "'enc \<Rightarrow> 'g \<Rightarrow> 'g"
  tc_ready :: "'g \<Rightarrow> 'w \<Rightarrow> 'w \<times> string option"
  tc_keygen :: "'g \<Rightarrow> string \<Rightarrow> keygen_request \<Rightarrow> 'w \<Rightarrow> 'w \<times> (client_status, keygen_response) outcome"
  tc_sign :: "'g \<Rightarrow> string \<Rightarrow> sign_request \<Rightarrow> 'w \<Rightarrow> 'w \<times> (client_status, sign_response) outcome"
  tc_check_result ::
    "'g \<Rightarrow> string \<Rightarrow> check_result_request \<Rightarrow> 'w \<Rightarrow> 'w \<times> (client_status, check_result_response) outcome"

record 'g mpc_client =
  cl_inner :: 'g

definition mpc_client_new :: "('g, 't, 'uri, 'enc, 'w) tonic_client \<Rightarrow> 't \<Rightarrow> 'g mpc_client" where
  "mpc_client_new T inner = \<lparr>cl_inner = tc_new T inner\<rparr>"

definition mpc_client_with_origin ::
  "('g, 't, 'uri, 'enc, 'w) tonic_client \<Rightarrow> 't \<Rightarrow> 'uri \<Rightarrow> 'g mpc_client" where
  "mpc_client_with_origin T inner origin = \<lparr>cl_inner = tc_with_origin T inner origin\<rparr>"

definition mpc_client_with_interceptor ::
  "('g, 't, 'uri, 'enc, 'w) tonic_client \<Rightarrow> ('s \<Rightarrow> 'f \<Rightarrow> 't) \<Rightarrow> 's \<Rightarrow> 'f \<Rightarrow> 'g mpc_client" where
  "mpc_client_with_interceptor T intercepted inner interceptor = mpc_client_new T (intercepted inner interceptor)"

definition mpc_client_send_compressed ::
  "('g, 't, 'uri, 'enc, 'w) tonic_client \<Rightarrow> 'enc \<Rightarrow> 'g mpc_client \<Rightarrow> 'g mpc_client" where
  "mpc_client_send_compressed T encoding c = c\<lparr>cl_inner := tc_send_compressed T encoding (cl_inner c)\<rparr>"

definition mpc_client_accept_compressed ::
  "('g, 't, 'uri, 'enc, 'w) tonic_client \<Rightarrow> 'enc \<Rightarrow> 'g mpc_client \<Rightarrow> 'g mpc_client" where
  "mpc_client_accept_compressed T encoding c = c\<lparr>cl_inner := tc_accept_compressed T encoding (cl_inner c)\<rparr>"

text \<open>\<open>ready().await.map_err(..)?\<close>, and then the unary call.\<close>

definition when_ready ::
  "('g, 't, 'uri, 'enc, 'w) tonic_client \<Rightarrow> 'g mpc_client \<Rightarrow>
   ('w \<Rightarrow> 'w \<times> (client_status, 'r) outcome) \<Rightarrow> 'w \<Rightarrow> 'w \<times> (client_status, 'r) outcome" where
  "when_ready T c unary w =
     (case tc_ready T (cl_inner c) w of
        (w, Some e) \<Rightarrow> (w, Err (Unknown (''Service was not ready: '' @ e)))
      | (w, None) \<Rightarrow> unary w)"

definition mpc_client_keygen where
  "mpc_client_keygen T c request =
     when_ready T c (tc_keygen T (cl_inner c) (client_path Keygen_method) request)"

definition mpc_client_sign where
  "mpc_client_sign T c request =
     when_ready T c (tc_sign T (cl_inner c) (client_path Sign_method) request)"

definition mpc_client_check_result where
  "mpc_client_check_result T c request =
     when_ready T c (tc_check_result T (cl_inner c) (client_path CheckResult_method) request)"

section \<open>A call from end to end\<close>

text \<open>
  What \<open>tonic\<close> promises of a channel to a server: a unary call sends the encoded request to the path and
  decodes the reply, and the unary service of the server decodes the one and encodes the other, with the
  same codecs. The state of the world is that of the service.
\<close>

record ('body, 'rep) codecs =
  cd_keygen :: "keygen_request \<Rightarrow> 'body"
  cd_sign :: "sign_request \<Rightarrow> 'body"
  cd_check_result :: "check_result_request \<Rightarrow> 'body"
  cd_keygen_reply :: "'rep http_reply \<Rightarrow> (client_status, keygen_response) outcome"
  cd_sign_reply :: "'rep http_reply \<Rightarrow> (client_status, sign_response) outcome"
  cd_check_result_reply :: "'rep http_reply \<Rightarrow> (client_status, check_result_response) outcome"

fun seen_by_client :: "(status, 'r) outcome \<Rightarrow> (client_status, 'r) outcome" where
  "seen_by_client (Ok r) = Ok r"
| "seen_by_client (Err e) = Err (From_service e)"
| "seen_by_client Panic = Panic"

definition connected ::
  "('g, 't, 'uri, 'enc, 'st) tonic_client \<Rightarrow> ('st, 'cfg, 'enc, 'body, 'rep) tonic_server \<Rightarrow>
   ('body, 'rep) codecs \<Rightarrow> 'g \<Rightarrow> ('st, 'cfg) mpc_server \<Rightarrow> bool" where
  "connected T S K g s \<longleftrightarrow>
     (\<forall>path req st. tc_keygen T g path req st = apsnd (cd_keygen_reply K) (mpc_server_call S s path (cd_keygen K req) st)) \<and>
     (\<forall>path req st. tc_sign T g path req st = apsnd (cd_sign_reply K) (mpc_server_call S s path (cd_sign K req) st)) \<and>
     (\<forall>path req st. tc_check_result T g path req st =
        apsnd (cd_check_result_reply K) (mpc_server_call S s path (cd_check_result K req) st)) \<and>
     (\<forall>a b f req st. apsnd (cd_keygen_reply K \<circ> Grpc_reply) (tn_keygen S a b f (cd_keygen K req) st) =
        apsnd seen_by_client (f req st)) \<and>
     (\<forall>a b f req st. apsnd (cd_sign_reply K \<circ> Grpc_reply) (tn_sign S a b f (cd_sign K req) st) =
        apsnd seen_by_client (f req st)) \<and>
     (\<forall>a b f req st. apsnd (cd_check_result_reply K \<circ> Grpc_reply) (tn_check_result S a b f (cd_check_result K req) st) =
        apsnd seen_by_client (f req st))"

text \<open>A call of the client is a call of the method with the same name, whatever encodings are enabled.\<close>

lemma client_calls_service:
  assumes "connected T S K (cl_inner c) s" and "sv_inner s = mpc_imp_methods E"
    and "tc_ready T (cl_inner c) st = (st, None)"
  shows "mpc_client_keygen T c req st = apsnd seen_by_client (keygen E req st)"
    and "mpc_client_sign T c req' st = apsnd seen_by_client (sign E req' st)"
    and "mpc_client_check_result T c req'' st = (st, seen_by_client (check_result E req'' st))"
proof -
  have compose: "apsnd f (apsnd g p) = apsnd (f \<circ> g) p" for f g p by (cases p) simp
  note laws = assms(1) [unfolded connected_def]
  show "mpc_client_keygen T c req st = apsnd seen_by_client (keygen E req st)"
    using laws assms(2,3)
    by (simp add: mpc_client_keygen_def when_ready_def mpc_server_call_def server_call_def Let_def compose
        mpc_imp_methods_def)
  show "mpc_client_sign T c req' st = apsnd seen_by_client (sign E req' st)"
    using laws assms(2,3)
    by (simp add: mpc_client_sign_def when_ready_def mpc_server_call_def server_call_def Let_def compose
        mpc_imp_methods_def)
  show "mpc_client_check_result T c req'' st = (st, seen_by_client (check_result E req'' st))"
    using laws assms(2,3)
    by (simp add: mpc_client_check_result_def when_ready_def mpc_server_call_def server_call_def Let_def compose
        mpc_imp_methods_def)
qed

text \<open>Enabling an encoding leaves the service behind alone, and a clone has all of it.\<close>

lemma mpc_server_keeps_service:
  "sv_inner (mpc_server_new S inner) = inner"
  "sv_inner (mpc_server_accept_compressed S encoding s) = sv_inner s"
  "sv_inner (mpc_server_send_compressed S encoding s) = sv_inner s"
  "mpc_server_clone s = s"
  by (simp_all add: mpc_server_new_def mpc_server_from_arc_def mpc_server_accept_compressed_def
      mpc_server_send_compressed_def mpc_server_clone_def)

text \<open>A path that is none of the service's is answered with the status 12 and changes nothing.\<close>

lemma unknown_path:
  "path \<notin> range client_path \<Longrightarrow> mpc_server_call S s path req st =
     (st, Empty_reply 200 [(''grpc-status'', ''12''), (''content-type'', ''application/grpc'')])"
  by (cases "server_call path")
    (auto simp: mpc_server_call_def server_call_routes split: grpc_method.split)

end
