(* ===== verification/Samples.thy ===== *)
theory Samples
  imports Coordinator
begin

text \<open>
  One concrete instance of the foreign code, on which the laws that the theorems assume can be
  evaluated: a database that is a map, codecs that write the fields of a record one after the
  other, and cryptography without secrecy. It shows that the laws can hold together; nothing else
  depends on it.
\<close>

section \<open>Texts\<close>

fun enc_str :: "string \<Rightarrow> string" where
  "enc_str [] = ''.''"
| "enc_str (c # cs) = CHR ''c'' # c # enc_str cs"

lemma length_enc_str: "length (enc_str s) = 2 * length s + 1"
  by (induction s) simp_all

definition enc_list :: "string list \<Rightarrow> string" where
  "enc_list xs = concat (map enc_str xs)"

fun dec_list :: "string \<Rightarrow> string list option" where
  "dec_list [] = Some []"
| "dec_list [x] = (if x = CHR ''.'' then Some [[]] else None)"
| "dec_list (x # y # zs) =
     (if x = CHR ''.'' then map_option (\<lambda>ss. [] # ss) (dec_list (y # zs))
      else if x = CHR ''c''
      then (case dec_list zs of Some (s # ss) \<Rightarrow> Some ((y # s) # ss) | _ \<Rightarrow> None)
      else None)"

lemma dec_list_dot: "dec_list (CHR ''.'' # zs) = map_option (\<lambda>ss. [] # ss) (dec_list zs)"
  by (cases zs) simp_all

lemma dec_list_enc_str: "dec_list (enc_str s @ r) = map_option (\<lambda>ss. s # ss) (dec_list r)"
proof (induction s)
  case Nil
  then show ?case by (simp add: dec_list_dot)
next
  case (Cons c s)
  then show ?case by (cases "dec_list r") simp_all
qed

lemma dec_enc_list [simp]: "dec_list (enc_list xs) = Some xs"
proof (induction xs)
  case (Cons x xs)
  then show ?case by (simp add: enc_list_def dec_list_enc_str)
qed (simp add: enc_list_def)

definition enc_word :: "'a::len word \<Rightarrow> string" where
  "enc_word w = replicate (unat w) (CHR ''1'')"

definition dec_word :: "string \<Rightarrow> 'a::len word" where
  "dec_word s = word_of_nat (length s)"

lemma dec_enc_word [simp]: "dec_word (enc_word w) = w"
  by (simp add: dec_word_def enc_word_def)

definition enc_opt :: "u16 option \<Rightarrow> string" where
  "enc_opt r = (case r of None \<Rightarrow> [] | Some w \<Rightarrow> CHR ''r'' # enc_word w)"

definition dec_opt :: "string \<Rightarrow> u16 option" where
  "dec_opt s = (case s of [] \<Rightarrow> None | c # cs \<Rightarrow> Some (dec_word cs))"

lemma dec_enc_opt [simp]: "dec_opt (enc_opt r) = r"
  by (simp add: dec_opt_def enc_opt_def split: option.split)

section \<open>Codecs\<close>

definition gpm_codec :: "generic_protocol_message codec" where
  "gpm_codec =
     \<lparr>ser = (\<lambda>m. if valid_utf8 (gpm_body m)
        then Some (enc_list [enc_word (gpm_sender m), enc_opt (gpm_receiver m), gpm_body m]) else None),
      de = (\<lambda>s. case dec_list s of
        Some [a, b, c] \<Rightarrow>
          if valid_utf8 c
          then Some \<lparr>gpm_sender = dec_word a, gpm_receiver = dec_opt b, gpm_body = c\<rparr> else None
      | _ \<Rightarrow> None)\<rparr>"

definition encrypted_codec :: "encrypted codec" where
  "encrypted_codec =
     \<lparr>ser = (\<lambda>e. if valid_utf8 (en_encrypted e) then Some (en_encrypted e) else None),
      de = (\<lambda>s. Some \<lparr>en_encrypted = s\<rparr>)\<rparr>"

definition group_codec :: "group codec" where
  "group_codec =
     \<lparr>ser = (\<lambda>g. Some (enc_list [pg_group_id g, enc_word (pg_t g), enc_list (pg_public_keys g),
        pg_own_public_key g])),
      de = (\<lambda>s. case dec_list s of
        Some [a, b, c, d] \<Rightarrow>
          (case dec_list c of
             Some ks \<Rightarrow> Some \<lparr>pg_group_id = a, pg_t = dec_word b, pg_public_keys = ks,
               pg_own_public_key = d\<rparr>
           | None \<Rightarrow> None)
      | _ \<Rightarrow> None)\<rparr>"

definition share_codec :: "encrypted_stored_local_share codec" where
  "share_codec =
     \<lparr>ser = (\<lambda>s. Some (enc_list [enc_list (esls_public_keys s), esls_own_public_key s,
        esls_encrypted_share s])),
      de = (\<lambda>s. case dec_list s of
        Some [a, b, c] \<Rightarrow>
          (case dec_list a of
             Some ks \<Rightarrow> Some \<lparr>esls_public_keys = ks, esls_own_public_key = b,
               esls_encrypted_share = c\<rparr>
           | None \<Rightarrow> None)
      | _ \<Rightarrow> None)\<rparr>"

text \<open>A local key: its threshold and its public key.\<close>

definition local_key_codec :: "(u16 \<times> string) codec" where
  "local_key_codec =
     \<lparr>ser = (\<lambda>k. Some (enc_list [enc_word (fst k), snd k])),
      de = (\<lambda>s. case dec_list s of Some [a, b] \<Rightarrow> Some (dec_word a, b) | _ \<Rightarrow> None)\<rparr>"

definition wire_codec :: "wire_message codec" where
  "wire_codec =
     \<lparr>ser = (\<lambda>w. let s = enc_list [w_room w, w_payload w, w_sender_public_key w, w_signature w] in
        if valid_utf8 s then Some s else None),
      de = (\<lambda>s. case dec_list s of
        Some [a, b, c, d] \<Rightarrow>
          Some \<lparr>w_room = a, w_payload = b, w_sender_public_key = c, w_signature = d\<rparr>
      | _ \<Rightarrow> None)\<rparr>"

definition result_codec :: "check_result_response codec" where
  "result_codec =
     \<lparr>ser = (\<lambda>r. Some (enc_list [cr_request_id r, cr_result r, enc_word (cr_request_type r),
        enc_word (cr_request_status r)])),
      de = (\<lambda>s. case dec_list s of
        Some [a, b, c, d] \<Rightarrow>
          Some \<lparr>cr_request_id = a, cr_result = b, cr_request_type = dec_word c,
            cr_request_status = dec_word d\<rparr>
      | _ \<Rightarrow> None)\<rparr>"

section \<open>Database and cryptography\<close>

definition map_sled :: "(string \<rightharpoonup> string) sled" where
  "map_sled =
     \<lparr>sled_get = (\<lambda>d k. Some (d k)),
      sled_contains_key = (\<lambda>d k. Some (d k \<noteq> None)),
      sled_insert = (\<lambda>d k v. (d(k \<mapsto> v), Some ())),
      sled_cas = (\<lambda>d k ov nv. if d k = ov then (d(k := nv), Some True) else (d, Some False))\<rparr>"

lemma map_sled_laws: "sled_laws map_sled id"
  by (simp add: sled_laws_def map_sled_def)

fun twice :: "string \<Rightarrow> string" where
  "twice [] = []"
| "twice (c # cs) = c # c # twice cs"

fun halve :: "string \<Rightarrow> string option" where
  "halve [] = Some []"
| "halve [a] = None"
| "halve (a # b # cs) = (if a = b then map_option (\<lambda>s. a # s) (halve cs) else None)"

lemma halve_twice [simp]: "halve (twice s) = Some s"
  by (induction s) simp_all

lemma length_twice [simp]: "length (twice s) = 2 * length s"
  by (induction s) simp_all

definition plain_crypto :: "(string, string, string) crypto" where
  "plain_crypto =
     \<lparr>hex_encode = twice, hex_decode = halve, base64_encode = id, base64_decode = Some,
      sha256 = (\<lambda>d. replicate 32 (CHR ''0'')), pk_parse_slice = Some, pk_serialize = id,
      pk_serialize_compressed = id, pk_from_secret_key = id, sk_parse_slice = Some,
      sk_serialize = id, ecies_encrypt = (\<lambda>k m. Some (k @ m)),
      ecies_decrypt = (\<lambda>k c. if take (length k) c = k then Some (drop (length k) c) else None),
      sig_parse_slice = Some, sig_serialize = id, secp_sign = (\<lambda>h k. h @ k),
      secp_verify = (\<lambda>h sg k. sg = h @ k)\<rparr>"

lemma plain_crypto_laws: "crypto_laws plain_crypto"
  by (auto simp: crypto_laws_def plain_crypto_def)

text \<open>For \<open>BigInt::from_hex\<close>: accepts the texts of digits.\<close>

definition read_digits :: "string \<Rightarrow> int option" where
  "read_digits s =
     (if s \<noteq> [] \<and> (\<forall>c \<in> set s. byte_in c 48 57) then Some (int (length s)) else None)"

text \<open>A message of one protocol: the first character of its body tells which.\<close>

definition tagged :: "char \<Rightarrow> string \<Rightarrow> string msg option" where
  "tagged t s =
     (case de gpm_codec s of
        Some m \<Rightarrow>
          if take 1 (gpm_body m) = [t]
          then Some \<lparr>m_sender = gpm_sender m, m_receiver = gpm_receiver m, m_body = gpm_body m\<rparr>
          else None
      | None \<Rightarrow> None)"

definition sample :: "(string \<rightharpoonup> string, string, string, string, u16 \<times> string,
    u16 \<times> u16 \<times> u16, string, u16 \<times> u16 list, string, string) cenv" where
  "sample =
     \<lparr>env_crypto = plain_crypto, env_sled = map_sled, env_gpm = gpm_codec,
      env_encrypted = encrypted_codec, env_raw = (\<lambda>s. if valid_utf8 s then Some s else None),
      env_group = group_codec, env_share = share_codec, env_local_key = local_key_codec,
      env_lk_t = fst, env_lk_public_key = snd, env_wire = wire_codec, env_result = result_codec,
      ce_keygen_new = (\<lambda>i t n. if 1 \<le> i \<and> i \<le> n \<and> t < n then Some (i, t, n) else None),
      ce_offline_new = (\<lambda>i s_l k. if 1 \<le> i then Some (i, s_l) else None),
      ce_msg_kg = tagged (CHR ''k''), ce_msg_o = tagged (CHR ''o''), ce_msg_s = tagged (CHR ''s''),
      ce_from_hex = read_digits\<rparr>"

lemma sample_fields [simp]:
  "env_crypto sample = plain_crypto" "env_sled sample = map_sled" "env_gpm sample = gpm_codec"
  "env_encrypted sample = encrypted_codec"
  "env_raw sample s = (if valid_utf8 s then Some s else None)"
  "env_group sample = group_codec" "env_share sample = share_codec"
  "env_local_key sample = local_key_codec" "env_lk_t sample = fst"
  "env_lk_public_key sample = snd" "env_wire sample = wire_codec"
  "env_result sample = result_codec"
  "ce_keygen_new sample i t n = (if 1 \<le> i \<and> i \<le> n \<and> t < n then Some (i, t, n) else None)"
  "ce_offline_new sample i s_l k = (if 1 \<le> i then Some (i, s_l) else None)"
  "ce_msg_kg sample = tagged (CHR ''k'')" "ce_msg_o sample = tagged (CHR ''o'')"
  "ce_msg_s sample = tagged (CHR ''s'')" "ce_from_hex sample = read_digits"
  by (simp_all add: sample_def)

lemma sample_json_laws: "json_laws sample"
  by (auto simp: json_laws_def raw_laws_def codec_ok_def gpm_codec_def encrypted_codec_def
      group_codec_def share_codec_def local_key_codec_def wire_codec_def result_codec_def Let_def
      split: option.splits list.splits if_splits)

end
