(* ===== verification/Properties_Data.thy ===== *)
theory Properties_Data
  imports Samples Transport Keystore Msg_Utils
begin

text \<open>
  Properties of the data and of the components below the actors: room identifiers, groups, stores,
  payload encryption, the transport, the keystore, the gRPC routes. Each has a witness on the
  instance of \<open>Samples\<close> where it has hypotheses.
\<close>

section \<open>Sample data\<close>

definition sk_a :: string where "sk_a = ''0aaaaa''"
definition sk_b :: string where "sk_b = ''0bbbbb''"
definition key_a :: string where "key_a = ''00aaaaaaaaaa''"
definition key_b :: string where "key_b = ''00bbbbbbbbbb''"

definition group_ab :: "string \<Rightarrow> group" where
  "group_ab own = \<lparr>pg_group_id = ''aaaaaaaabbbbbbbb'', pg_t = 1, pg_public_keys = [key_a, key_b],
     pg_own_public_key = own\<rparr>"

lemma sample_cipher_laws: "cipher_laws sample"
  by (simp add: cipher_laws_def sample_json_laws plain_crypto_laws)

lemma sample_store_laws: "store_laws sample id"
  by (simp add: store_laws_def sample_json_laws plain_crypto_laws map_sled_laws)

lemma sample_transport_laws: "transport_laws sample"
proof -
  have "codec_ok wire_codec"
    using sample_json_laws by (simp add: json_laws_def)
  moreover have "\<forall>w s. ser wire_codec w = Some s \<longrightarrow> valid_utf8 s"
    by (auto simp: wire_codec_def Let_def split: if_splits)
  moreover have "\<forall>d. length (sha256 plain_crypto d) = 32"
    by (simp add: plain_crypto_def)
  ultimately show ?thesis
    by (simp add: transport_laws_def plain_crypto_laws)
qed

lemma sample_identity:
  "identity_of plain_crypto sk_a = key_a" "identity_of plain_crypto sk_b = key_b"
  by (simp_all add: identity_of_def plain_crypto_def sk_a_def sk_b_def key_a_def key_b_def)

lemma sample_db_up: "db_up sample db k"
  by (simp add: db_up_def map_sled_def)

lemma sample_ab_id: "group_new [key_a, key_b] 1 own = Some (group_ab own)"
  by (simp add: group_new_def key_a_def key_b_def group_ab_def str_range_def is_char_boundary_def
      continuation_byte_def)

section \<open>Rooms and groups\<close>

text \<open>A room leads back to the group id it was made of, if and only if the group id and the
  request id have no separator; with a separator in the request id, the text between the first
  two separators is taken for the group id.\<close>

lemma room_round_trip:
  "extract_group_id (make_room_id r g) = Ok g \<longleftrightarrow>
     (if CHR ''@'' \<in> set r then split_on (CHR ''@'') r ! 1 = g else CHR ''@'' \<notin> set g)"
proof -
  have "hd (split_on (CHR ''@'') g) = g \<longleftrightarrow> CHR ''@'' \<notin> set g"
    using split_on_pieces [of "hd (split_on (CHR ''@'') g)" "CHR ''@''" g]
    by (auto simp: split_on_no_sep)
  then show ?thesis
    by (simp add: extract_make_room_id)
qed

text \<open>The indices of a group built by \<open>PublicKeyGroup::new\<close> count from 1 and lead back to the
  keys: a key has an index if and only if it was given, an index has a key if and only if it is
  between 1 and the number of keys, and the key at the index of a key is that key.\<close>

lemma index_key_inverse:
  assumes "group_new pks t own = Some g"
  shows "(get_index g pk = None \<longleftrightarrow> pk \<notin> set pks) \<and>
    (is_ok (get_public_key g i) \<longleftrightarrow> 1 \<le> i \<and> i \<le> length pks) \<and>
    (case get_index g pk of None \<Rightarrow> True | Some k \<Rightarrow> get_public_key g k = Ok pk)"
proof -
  have "case get_index g pk of None \<Rightarrow> True | Some k \<Rightarrow> get_public_key g k = Ok pk"
    by (cases "get_index g pk") (simp_all only: option.case get_public_key_get_index)
  with group_new_fields [OF assms] show ?thesis
    by (auto simp: get_public_key_def is_ok_iff)
qed

text \<open>\<open>PublicKeyGroup::new\<close> panics if and only if some key is shorter than ten bytes or not cut at
  character boundaries; otherwise the group id has eight bytes for every key, in their order.\<close>

lemma group_new_total:
  "case group_new pks t own of
     None \<Rightarrow> \<exists>pk \<in> set pks. str_range pk 2 10 = None
   | Some g \<Rightarrow> pg_group_id g = concat (map (\<lambda>pk. the (str_range pk 2 10)) pks) \<and>
       length (get_group_id g) = 8 * length pks \<and> pg_public_keys g = pks \<and> get_t g = t \<and>
       get_n g = word_of_nat (length pks)"
proof (cases "group_new pks t own")
  case None
  then show ?thesis using None [unfolded group_new_None_iff] by simp
next
  case (Some g)
  from Some have "pg_group_id g = concat (map (\<lambda>pk. the (str_range pk 2 10)) pks)"
    by (simp add: group_new_Some_iff)
  with group_id_length [OF Some] group_new_fields [OF Some] show ?thesis
    unfolding Some by (simp add: get_group_id_def get_t_def get_n_def)
qed

section \<open>Stores\<close>

text \<open>What is saved first under a group id is what every later read returns: a second group with
  the same id is accepted without error and without effect.\<close>

lemma group_store_first_wins:
  assumes "store_laws E view"
    and "save_group E db g = (db1, Ok ())" and "view db (pg_group_id g) = None"
    and "save_group E db1 h = (db2, Ok ())" and "pg_group_id h = pg_group_id g"
    and "db_up E db2 (pg_group_id g)"
  shows "retrieve_group E db2 (pg_group_id g) = Ok g"
  by (rule groups.first_writer_wins [OF assms(1) TrueI assms(2-6)])

text \<open>A key share saved under a fresh key is read back, decrypted, as it was, and every other
  share is read as before.\<close>

lemma share_store_round_trip:
  assumes "store_laws E view" and "sls_own_public_key s = identity_of (env_crypto E) sk"
    and "save_share E db s = (db', Ok ())" and "view db (share_key E s) = None"
    and "db_up E db' (share_key E s)" and "k \<noteq> share_key E s" and "db_up E db k" and "db_up E db' k"
  shows "retrieve_share E sk db' (share_key E s) = Ok s \<and>
    retrieve_share E sk db' k = retrieve_share E sk db k"
proof -
  have "own_share E sk s" using assms(2) by (simp add: own_share_def)
  from shares.retrieve_after_save [OF assms(1) this assms(3-5)]
    shares.retrieve_other [OF assms(1,3,6-8)] show ?thesis by simp
qed

definition share_ab :: "string \<Rightarrow> (u16 \<times> string) stored_local_share" where
  "share_ab own = \<lparr>sls_public_keys = [key_a, key_b], sls_own_public_key = own, sls_share = (1, replicate 33 (CHR ''x''))\<rparr>"

lemma twice_replicate: "twice (replicate n c) = replicate (2 * n) c"
  by (induction n) simp_all

lemma share_ab_key: "share_key sample (share_ab own) = replicate 66 (CHR ''x'')"
  by (simp add: share_key_def share_ab_def plain_crypto_def twice_replicate)

lemma share_ab_saved:
  "save_share sample d (share_ab key_a) = (fst (save_share sample d (share_ab key_a)), Ok ())"
  by (simp add: save_share_def encrypt_share_def get_own_public_key_def plain_crypto_def
      local_key_codec_def share_codec_def map_sled_def pk_encrypt_def Let_def share_ab_def key_a_def)

lemma share_store_round_trip_sample:
  "retrieve_share sample sk_a (fst (save_share sample Map.empty (share_ab key_a)))
     (replicate 66 (CHR ''x'')) = Ok (share_ab key_a)"
proof -
  have own: "sls_own_public_key (share_ab key_a) = identity_of (env_crypto sample) sk_a"
    by (simp add: sample_identity share_ab_def)
  from share_store_round_trip [OF sample_store_laws own share_ab_saved, of Map.empty "[]"]
    sample_db_up
  show ?thesis by (simp add: share_ab_key)
qed

text \<open>Groups and shares share one database without disturbing each other: with the 33 bytes of a
  compressed key, the name of a share has 66 characters and that of a group a multiple of 8.\<close>

lemma stores_do_not_interfere:
  assumes laws: "store_laws E view"
    and hex: "\<And>b. length (hex_encode (env_crypto E) b) = 2 * length b"
    and compressed: "length (env_lk_public_key E (sls_share s)) = 33"
    and new: "group_new pks t own = Some g"
    and up: "\<And>d k. db_up E d k"
  shows "(snd (save_share E db s) = Ok () \<longrightarrow>
      retrieve_group E (fst (save_share E db s)) (pg_group_id g) = retrieve_group E db (pg_group_id g)) \<and>
    (snd (save_group E db g) = Ok () \<longrightarrow>
      retrieve_share E sk (fst (save_group E db g)) (share_key E s) = retrieve_share E sk db (share_key E s))"
proof -
  have "length (share_key E s) = 66"
    by (simp add: share_key_def hex compressed)
  moreover have "length (pg_group_id g) = 8 * length pks"
    by (rule group_id_length [OF new])
  ultimately have "length (pg_group_id g) \<noteq> length (share_key E s)"
    by presburger
  then have ne: "pg_group_id g \<noteq> share_key E s" by auto
  show ?thesis
  proof (intro conjI impI)
    assume "snd (save_share E db s) = Ok ()"
    then have "save_share E db s = (fst (save_share E db s), Ok ())" by (simp add: prod_eq_iff)
    from shares.save_frame [OF laws this ne]
    show "retrieve_group E (fst (save_share E db s)) (pg_group_id g) = retrieve_group E db (pg_group_id g)"
      by (intro groups.retrieve_cong [OF laws up up])
  next
    assume "snd (save_group E db g) = Ok ()"
    then have "save_group E db g = (fst (save_group E db g), Ok ())" by (simp add: prod_eq_iff)
    from groups.save_frame [OF laws this ne [symmetric]]
    show "retrieve_share E sk (fst (save_group E db g)) (share_key E s) = retrieve_share E sk db (share_key E s)"
      by (intro shares.retrieve_cong [OF laws up up])
  qed
qed

section \<open>Payload encryption\<close>

text \<open>C16: What the encrypter sealed for one receiver is opened by that receiver, and only the body was
  touched: the receiver reads the envelope and the body that the sender wrote, and the sealed
  message still shows the sender and the receiver in the clear.\<close>

theorem cipher_round_trip:
  assumes "cipher_laws E" and "maybe_encrypt E db msg = Ok msg'"
    and "de (env_gpm E) (c_message msg) = Some m" and "gpm_receiver m = Some r"
    and "addressed_to E db sk (c_room msg) r" and "w_payload w = c_message msg'"
  shows "(\<exists>s. maybe_decrypt E sk w = Ok (w\<lparr>w_payload := s\<rparr>) \<and> de (env_gpm E) s = Some m) \<and>
    (\<exists>g. de (env_gpm E) (c_message msg') = Some g \<and> gpm_sender g = gpm_sender m \<and>
       gpm_receiver g = Some r) \<and> c_room msg' = c_room msg"
  using simple.unseal_sealed [OF assms] simple.seal_header [OF assms(1-3)] assms(4)
    simple.seal_room [OF assms(2)] by simp

definition msg_ab :: core_message where
  "msg_ab = \<lparr>c_room = ''r@aaaaaaaabbbbbbbb'',
     c_message = enc_list [''1'', ''r11'', ''khello'']\<rparr>"

definition gpm_ab :: generic_protocol_message where
  "gpm_ab = \<lparr>gpm_sender = 1, gpm_receiver = Some 2, gpm_body = ''khello''\<rparr>"

definition db_ab :: "string \<Rightarrow> string \<rightharpoonup> string" where
  "db_ab own = fst (save_group sample Map.empty (group_ab own))"

lemma retrieve_ab: "retrieve_group sample (db_ab own) ''aaaaaaaabbbbbbbb'' = Ok (group_ab own)"
  by (simp add: db_ab_def save_group_def retrieve_group_def group_codec_def map_sled_def
      get_group_id_def group_ab_def)

lemma room_ab: "extract_group_id ''r@aaaaaaaabbbbbbbb'' = Ok ''aaaaaaaabbbbbbbb''"
  by (simp add: extract_group_id_def ROOM_SEPARATOR_def)

lemma msg_ab_room: "c_room msg_ab = ''r@aaaaaaaabbbbbbbb''"
  by (simp add: msg_ab_def)

lemma enc_word_small: "enc_word (1 :: 'a::len word) = ''1''" "enc_word (2 :: u16) = ''11''"
proof -
  have "replicate 2 c = [c, c]" for c :: char by (simp add: numeral_2_eq_2)
  then show "enc_word (1 :: 'a::len word) = ''1''" "enc_word (2 :: u16) = ''11''"
    by (simp_all add: enc_word_def)
qed

lemma parse_ab: "de gpm_codec (c_message msg_ab) = Some gpm_ab"
  by (simp add: gpm_codec_def msg_ab_def gpm_ab_def dec_word_def dec_opt_def byte_in_def)

definition sealed_ab :: core_message where
  "sealed_ab = \<lparr>c_room = ''r@aaaaaaaabbbbbbbb'',
     c_message = enc_list [''1'', ''r11'', ''0bbbbbkhello'']\<rparr>"

lemma seal_ab: "maybe_encrypt sample (db_ab own) msg_ab = Ok sealed_ab"
proof -
  have "group_encrypt plain_crypto (group_ab own) 2 ''khello'' = Ok ''0bbbbbkhello''"
    by (simp add: group_encrypt_def get_public_key_def group_ab_def key_b_def plain_crypto_def
        pk_encrypt_def)
  then show ?thesis
    using parse_ab
    by (simp add: maybe_encrypt_def gpm_ab_def room_ab retrieve_ab encrypted_codec_def gpm_codec_def
        msg_ab_def sealed_ab_def byte_in_def enc_word_small enc_opt_def)
qed

theorem cipher_round_trip_witness:
  "\<exists>s. maybe_decrypt sample sk_b \<lparr>w_room = [], w_payload = c_message sealed_ab,
     w_sender_public_key = [], w_signature = []\<rparr> = Ok \<lparr>w_room = [], w_payload = s,
     w_sender_public_key = [], w_signature = []\<rparr> \<and> de (env_gpm sample) s = Some gpm_ab"
proof -
  have "addressed_to sample (db_ab key_a) sk_b (c_room msg_ab) 2"
    by (simp add: addressed_to_def msg_ab_room room_ab retrieve_ab get_public_key_def group_ab_def
        sample_identity)
  with cipher_round_trip [OF sample_cipher_laws seal_ab, where m = gpm_ab and r = 2 and sk = sk_b and
      w = "\<lparr>w_room = [],
      w_payload = c_message sealed_ab, w_sender_public_key = [], w_signature = []\<rparr>"] parse_ab
  show ?thesis by (simp add: gpm_ab_def)
qed

text \<open>C33: The encrypter never lets the body of a message for one receiver out in the clear: it fails
  when the room names no stored group or the receiver is no index of the group, and otherwise
  what it sends is the encryption of the body under the key of that index.\<close>

theorem unicast_is_encrypted:
  assumes "de (env_gpm E) (c_message msg) = Some m" and "gpm_receiver m = Some r"
  shows "case maybe_encrypt E db msg of
      Panic \<Rightarrow> False
    | Err e \<Rightarrow> True
    | Ok msg' \<Rightarrow> \<exists>gid group key bytes ct body raw s.
        extract_group_id (c_room msg) = Ok gid \<and> retrieve_group E db gid = Ok group \<and>
        1 \<le> unat r \<and> unat r \<le> length (pg_public_keys group) \<and>
        hex_decode (env_crypto E) (pg_public_keys group ! (unat r - 1)) = Some bytes \<and>
        pk_parse_slice (env_crypto E) bytes = Some key \<and>
        pk_encrypt (env_crypto E) key (gpm_body m) = Some ct \<and>
        ser (env_encrypted E) \<lparr>en_encrypted = base64_encode (env_crypto E) ct\<rparr> = Some body \<and>
        env_raw E body = Some raw \<and> ser (env_gpm E) (m\<lparr>gpm_body := raw\<rparr>) = Some s \<and>
        msg' = msg\<lparr>c_message := s\<rparr>"
proof (cases "maybe_encrypt E db msg")
  case (Ok msg')
  then obtain gid group ct body raw s where *: "extract_group_id (c_room msg) = Ok gid"
    "retrieve_group E db gid = Ok group"
    "group_encrypt (env_crypto E) group (unat r) (gpm_body m) = Ok ct"
    "ser (env_encrypted E) \<lparr>en_encrypted = ct\<rparr> = Some body"
    "env_raw E body = Some raw" "ser (env_gpm E) (m\<lparr>gpm_body := raw\<rparr>) = Some s"
    "msg' = msg\<lparr>c_message := s\<rparr>"
    by (auto simp: maybe_encrypt_unicast [OF assms])
  from *(3) obtain key bytes c where
    k: "1 \<le> unat r" "unat r \<le> length (pg_public_keys group)"
      "hex_decode (env_crypto E) (pg_public_keys group ! (unat r - 1)) = Some bytes"
      "pk_parse_slice (env_crypto E) bytes = Some key"
      "pk_encrypt (env_crypto E) key (gpm_body m) = Some c" "ct = base64_encode (env_crypto E) c"
    by (auto simp: group_encrypt_def and_then_eq_Ok get_public_key_def split: if_splits)
  from *(4) k(6) have b: "ser (env_encrypted E) \<lparr>en_encrypted = base64_encode (env_crypto E) c\<rparr> = Some body"
    by simp
  show ?thesis
    unfolding Ok outcome.case by (intro exI conjI) (fact * k b)+
qed simp_all

theorem unicast_is_encrypted_witness:
  "maybe_encrypt sample (db_ab key_a) msg_ab = Ok sealed_ab \<and>
   (\<exists>group. retrieve_group sample (db_ab key_a) ''aaaaaaaabbbbbbbb'' = Ok group \<and>
      2 \<le> length (pg_public_keys group))"
proof -
  have "de (env_gpm sample) (c_message msg_ab) = Some gpm_ab" "gpm_receiver gpm_ab = Some 2"
    using parse_ab by (simp_all add: gpm_ab_def)
  from unicast_is_encrypted [OF this, of "db_ab key_a"] show ?thesis
    unfolding seal_ab outcome.case by (auto simp: seal_ab msg_ab_room room_ab)
qed

section \<open>Transport\<close>

text \<open>A text from the broker is accepted if and only if it is a wire message whose signature
  verifies, over the hash of its payload, under the key that it names as its sender.\<close>

lemma accepted_iff_signed:
  "do_parse_signed E text = Ok w \<longleftrightarrow>
     de (env_wire E) text = Some w \<and>
     (\<exists>pk sg. Option.bind (hex_decode (env_crypto E) (w_sender_public_key w))
          (pk_parse_slice (env_crypto E)) = Some pk \<and>
        Option.bind (hex_decode (env_crypto E) (w_signature w))
          (sig_parse_slice (env_crypto E)) = Some sg \<and>
        length (sha256 (env_crypto E) (w_payload w)) = 32 \<and>
        secp_verify (env_crypto E) (sha256 (env_crypto E) (w_payload w)) sg pk)"
  by (auto simp: do_parse_signed_Ok_iff signature_valid_def split: option.splits)

text \<open>C34: The signature does not cover the room: a text that was accepted for one room is accepted, with
  the same payload and signature, for any other.\<close>

theorem room_not_signed:
  assumes "codec_ok (env_wire E)" and "do_parse_signed E text = Ok w"
    and "ser (env_wire E) (w\<lparr>w_room := room\<rparr>) = Some text'"
  shows "do_parse_signed E text' = Ok (w\<lparr>w_room := room\<rparr>)"
  using assms codec_okD [OF assms(1,3)] by (simp add: do_parse_signed_Ok_iff)

definition ascii :: "string \<Rightarrow> bool" where
  "ascii s \<longleftrightarrow> (\<forall>c \<in> set s. (of_char c :: nat) < 128)"

lemma ascii_simps [simp]:
  "ascii []" "ascii (c # cs) \<longleftrightarrow> (of_char c :: nat) < 128 \<and> ascii cs"
  "ascii (xs @ ys) \<longleftrightarrow> ascii xs \<and> ascii ys"
  "ascii (replicate n c) \<longleftrightarrow> n = 0 \<or> (of_char c :: nat) < 128"
  by (auto simp: ascii_def)

lemma ascii_twice [simp]: "ascii (twice s) = ascii s"
  by (induction s) auto

lemma ascii_enc_str: "ascii s \<Longrightarrow> ascii (enc_str s)"
  by (induction s) auto

lemma utf8_enc_list: "(\<forall>x \<in> set xs. ascii x) \<Longrightarrow> valid_utf8 (enc_list xs)"
proof -
  assume "\<forall>x \<in> set xs. ascii x"
  then have "ascii (enc_list xs)"
    by (induction xs) (auto simp: enc_list_def ascii_enc_str)
  then show ?thesis by (intro valid_utf8_ascii) (simp add: ascii_def)
qed

definition wire_ab :: wire_message where
  "wire_ab = signed_wire sample sk_a sealed_ab"

lemma wire_ab_ascii:
  "ascii (w_room wire_ab)" "ascii (w_payload wire_ab)" "ascii (w_sender_public_key wire_ab)"
  "ascii (w_signature wire_ab)"
  by (simp_all add: wire_ab_def signed_wire_def Let_def identity_of_def plain_crypto_def
      sealed_ab_def sk_a_def enc_list_def)

lemma wire_ab_text: "ser wire_codec wire_ab = Some (enc_list [w_room wire_ab, w_payload wire_ab,
    w_sender_public_key wire_ab, w_signature wire_ab])"
  using wire_ab_ascii utf8_enc_list [of "[w_room wire_ab, w_payload wire_ab,
      w_sender_public_key wire_ab, w_signature wire_ab]"]
  by (simp add: wire_codec_def Let_def)

theorem room_not_signed_witness:
  "\<exists>text text'. do_parse_signed sample text = Ok wire_ab \<and>
     do_parse_signed sample text' = Ok (wire_ab\<lparr>w_room := ''x''\<rparr>)"
proof -
  have c: "codec_ok (env_wire sample)"
    using sample_json_laws by (simp add: json_laws_def)
  have "outgoing_text sample sk_a (identity_of (env_crypto sample) sk_a) sealed_ab =
      Ok (enc_list [w_room wire_ab, w_payload wire_ab, w_sender_public_key wire_ab, w_signature wire_ab])"
    unfolding outgoing_text_Ok_iff [OF sample_transport_laws] using wire_ab_text
    by (simp add: wire_ab_def)
  from parse_outgoing_text(1) [OF sample_transport_laws this]
  have p: "do_parse_signed sample (enc_list [w_room wire_ab, w_payload wire_ab,
      w_sender_public_key wire_ab, w_signature wire_ab]) = Ok wire_ab"
    by (simp add: wire_ab_def)
  have "ser (env_wire sample) (wire_ab\<lparr>w_room := ''x''\<rparr>) = Some (enc_list [''x'', w_payload wire_ab,
      w_sender_public_key wire_ab, w_signature wire_ab])"
    using wire_ab_ascii utf8_enc_list [of "[''x'', w_payload wire_ab,
        w_sender_public_key wire_ab, w_signature wire_ab]"]
    by (simp add: wire_codec_def Let_def)
  from room_not_signed [OF c p this] p show ?thesis by blast
qed

text \<open>Through the messenger, a server receives the messages broadcast by the others, each once, in
  the order of the broadcasts and with the sender's key and signature, and none of its own.\<close>

lemma messenger_delivers_in_order:
  assumes "transport_laws E"
    and "list_all2 (\<lambda>(sk, m) req. messenger_outgoing E sk m = Ok req) sent reqs"
  shows "messenger_incoming E own (map sse_delivery reqs) =
    map Ok (filter (\<lambda>w. w_sender_public_key w \<noteq> own) (map (\<lambda>(sk, m). signed_wire E sk m) sent))"
  by (rule via_messenger.incoming_all [OF assms])

definition wire_text :: string where
  "wire_text = enc_list [w_room wire_ab, w_payload wire_ab, w_sender_public_key wire_ab,
     w_signature wire_ab]"

lemma outgoing_text_ab:
  "outgoing_text sample sk_a (identity_of (env_crypto sample) sk_a) sealed_ab = Ok wire_text"
  unfolding outgoing_text_Ok_iff [OF sample_transport_laws] using wire_ab_text
  by (simp add: wire_ab_def wire_text_def)

lemma messenger_ab: "messenger_outgoing sample sk_a sealed_ab = Ok (Post ''broadcast'' wire_text)"
  using outgoing_text_ab by (simp add: messenger_outgoing_def sm_broadcast_def)

lemma wire_ab_sender: "w_sender_public_key wire_ab = key_a"
  by (simp add: wire_ab_def sample_identity)

text \<open>The same through Redis, where every message goes to the one channel of the program.\<close>

lemma redis_delivers_in_order:
  assumes "transport_laws E"
    and "list_all2 (\<lambda>(sk, m) req. redis_outgoing E sk m = Ok req) sent reqs"
  shows "redis_incoming E own (map redis_delivery reqs) =
      map Ok (filter (\<lambda>w. w_sender_public_key w \<noteq> own) (map (\<lambda>(sk, m). signed_wire E sk m) sent)) \<and>
    list_all (\<lambda>req. case req of Publish channel text \<Rightarrow> channel = ''avalido.mpc'') reqs"
proof
  show "redis_incoming E own (map redis_delivery reqs) =
      map Ok (filter (\<lambda>w. w_sender_public_key w \<noteq> own) (map (\<lambda>(sk, m). signed_wire E sk m) sent))"
    by (rule via_redis.incoming_all [OF assms])
  show "list_all (\<lambda>req. case req of Publish channel text \<Rightarrow> channel = ''avalido.mpc'') reqs"
    using assms(2)
    by (induction rule: list_all2_induct)
      (auto simp: redis_outgoing_def and_then_eq_Ok redis_broadcast_def channel_name_def)
qed

section \<open>Keystore and service routes\<close>

text \<open>A server gets its secret key exactly when the password file is readable by its owner and
  closed in every other way (mode \<open>0o400\<close>), and the text of that file, without the white space
  around it, opens the keystore to a valid key.\<close>

lemma secret_key_needs_private_password:
  "get_secret_key C fs decrypt_key kp pp = Ok (sk, pk) \<longleftrightarrow>
     (\<exists>mode pw b. fs_mode fs pp = Some mode \<and> bit mode 8 \<and> \<not> (\<exists>n < 8. bit mode n) \<and>
        fs_read_to_string fs pp = Some pw \<and> decrypt_key kp (trim pw) = Some b \<and>
        sk_parse_slice C b = Some sk) \<and> pk = pk_from_secret_key C sk"
proof -
  have mode: "(and mode 0x1FF = 0x100) = (bit mode 8 \<and> \<not> (\<exists>n < 8. bit mode n))" for mode :: u32
    using mode_check [of mode] by simp
  show ?thesis
    unfolding get_secret_key_Ok_iff mode by auto
qed

text \<open>The generated service answers exactly the paths that the generated client calls, each with
  its own method, and any other path with the status of an unimplemented method.\<close>

lemma service_answers_client:
  "server_call (client_path m) = Unary m \<and>
   (server_call path = Grpc_status 12 \<longleftrightarrow> path \<notin> range client_path)"
proof -
  have "range client_path = {''/mpc.Mpc/Keygen'', ''/mpc.Mpc/Sign'', ''/mpc.Mpc/CheckResult''}"
    (is "_ = ?S")
  proof
    show "range client_path \<subseteq> ?S"
    proof
      fix p assume "p \<in> range client_path"
      then obtain m where "p = client_path m" ..
      then show "p \<in> ?S" by (cases m) simp_all
    qed
    show "?S \<subseteq> range client_path"
      by (auto intro: range_eqI [of _ _ Keygen_method] range_eqI [of _ _ Sign_method]
          range_eqI [of _ _ CheckResult_method])
  qed
  moreover have "server_call (client_path m) = Unary m"
    by (simp add: server_call_routes)
  ultimately show ?thesis
    by (simp add: server_call_def)
qed

end
