(* ===== verification/Properties_Actors.thy ===== *)
theory Properties_Actors
  imports Properties_Data Node
begin

text \<open>
  Properties of the actors: the coordinator's handlers, the runs of a server, the players and the
  signer. The sample run is that of server B in a key generation of A and B.
\<close>

section \<open>A sample run\<close>

type_synonym sample_coordinator =
  "(string \<rightharpoonup> string, string, u16 \<times> string, u16 \<times> u16 \<times> u16, string, u16 \<times> u16 list, string,
    unit, string) coordinator"

definition req_ab :: keygen_request where
  "req_ab = \<lparr>kr_request_id = ''r'', kr_participant_public_keys = [key_a, key_b], kr_threshold = 1\<rparr>"

definition room_ab_id :: string where
  "room_ab_id = ''r@aaaaaaaabbbbbbbb''"

definition node_b :: sample_coordinator where
  "node_b = coordinator_new sample sk_b Map.empty"

definition player_b where
  "player_b = player_new req_ab room_ab_id 2 (2, 1, 2)"

text \<open>B after the request, and after A's message for B.\<close>

definition node_b1 :: sample_coordinator where
  "node_b1 = emit [Start_keygen 0 player_b]
     ((emit [Inc REQUESTS_KEYGEN_HANDLED, Respond (mk_response ''r'' [] Keygen_type Processing)]
         node_b)\<lparr>co_next_addr := 1, co_db := db_ab key_b, co_keygen_runners := [room_ab_id \<mapsto> 0]\<rparr>)"

definition opened_ab :: wire_message where
  "opened_ab = wire_ab\<lparr>w_payload := c_message msg_ab\<rparr>"

definition delivered_ab :: "string msg incoming_message" where
  "delivered_ab = \<lparr>im_room = room_ab_id, im_wire_message = opened_ab,
     im_message = \<lparr>m_sender = 1, m_receiver = Some 2, m_body = ''khello''\<rparr>\<rparr>"

definition node_b2 :: sample_coordinator where
  "node_b2 = emit [Inc MESSAGES_TOTAL_RECEIVED, Deliver_keygen 0 delivered_ab,
     Inc MESSAGES_KEYGEN_HANDLED] node_b1"

lemma node_b_fields [simp]:
  "co_pk_str node_b = key_b" "co_db node_b = Map.empty" "co_sk node_b = sk_b"
  "co_keygen_runners node_b = Map.empty" "co_offline_state_runners node_b = Map.empty"
  "co_signers node_b = Map.empty" "co_sink node_b = True" "co_next_addr node_b = 0"
  "co_out node_b = []"
  by (simp_all add: node_b_def coordinator_new_def sample_identity)

lemma node_b1_fields [simp]:
  "co_pk_str node_b1 = key_b" "co_db node_b1 = db_ab key_b" "co_sk node_b1 = sk_b"
  "co_keygen_runners node_b1 = [room_ab_id \<mapsto> 0]" "co_offline_state_runners node_b1 = Map.empty"
  "co_signers node_b1 = Map.empty" "co_next_addr node_b1 = 1"
  "co_out node_b1 = [Inc REQUESTS_KEYGEN_HANDLED,
     Respond (mk_response ''r'' [] Keygen_type Processing), Start_keygen 0 player_b]"
  by (simp_all add: node_b1_def)

lemma room_ab_make: "make_room_id ''r'' ''aaaaaaaabbbbbbbb'' = room_ab_id"
  by (simp add: make_room_id_def room_ab_id_def ROOM_SEPARATOR_def)

lemma group_ab_fields [simp]:
  "pg_group_id (group_ab own) = ''aaaaaaaabbbbbbbb''" "pg_public_keys (group_ab own) = [key_a, key_b]"
  "pg_own_public_key (group_ab own) = own" "get_t (group_ab own) = 1" "get_n (group_ab own) = 2"
  by (simp_all add: group_ab_def get_t_def get_n_def)

lemma keys_differ [simp]: "key_a \<noteq> key_b" "key_b \<noteq> key_a"
  by (simp_all add: key_a_def key_b_def)

lemma get_i_ab [simp]: "get_i (group_ab key_a) = Some 1" "get_i (group_ab key_b) = Some 2"
  by (simp_all add: get_i_def get_index_def)

lemma request_step: "handle_keygen_request sample req_ab node_b = (node_b1, Ok ())"
  by (simp add: handle_keygen_request_eq Let_def req_ab_def sample_ab_id room_ab_make
      node_b1_def player_b_def db_ab_def)

lemma own_prefix_b: "str_range key_b 2 10 = Some ''bbbbbbbb''"
  by (simp add: key_b_def str_range_def is_char_boundary_def continuation_byte_def)

lemma wire_ab_fields [simp]:
  "w_room wire_ab = room_ab_id" "w_payload wire_ab = c_message sealed_ab"
  "w_sender_public_key wire_ab = key_a"
  by (simp_all add: wire_ab_def sealed_ab_def room_ab_id_def sample_identity)

lemma parse_sealed: "de gpm_codec (c_message sealed_ab) = Some (gpm_ab\<lparr>gpm_body := ''0bbbbbkhello''\<rparr>)"
  by (simp add: gpm_codec_def sealed_ab_def gpm_ab_def dec_word_def dec_opt_def byte_in_def)

lemma known_ab:
  "known_message sample (db_ab key_b) wire_ab (group_ab key_b) (gpm_ab\<lparr>gpm_body := ''0bbbbbkhello''\<rparr>)"
  by (simp add: known_message_def retrieve_ab room_ab parse_sealed room_ab_id_def)

lemma valid_ab: "valid_sender_and_receiver sample (db_ab key_b) wire_ab = Ok ()"
  unfolding valid_sender_and_receiver_Ok_iff
  by (rule exI, rule exI, rule conjI, rule known_ab) (simp add: gpm_ab_def)

lemma ser_ab: "ser gpm_codec gpm_ab = Some (c_message msg_ab)"
  by (simp add: gpm_codec_def gpm_ab_def msg_ab_def byte_in_def enc_word_small enc_opt_def)

lemma open_ab: "maybe_decrypt sample sk_b wire_ab = Ok opened_ab"
proof -
  have "group_decrypt plain_crypto sk_b ''0bbbbbkhello'' = Ok ''khello''"
    by (simp add: group_decrypt_def plain_crypto_def sk_decrypt_def sk_b_def byte_in_def)
  then show ?thesis
    using ser_ab by (simp add: maybe_decrypt_def parse_sealed encrypted_codec_def opened_ab_def
        gpm_ab_def byte_in_def)
qed

lemma room_mentions_b: "str_contains room_ab_id ''bbbbbbbb''"
  by (simp add: room_ab_id_def)

lemma tagged_ab: "tagged t (c_message msg_ab) =
    (if t = CHR ''k'' then Some \<lparr>m_sender = 1, m_receiver = Some 2, m_body = ''khello''\<rparr> else None)"
  by (simp add: tagged_def parse_ab) (simp add: gpm_ab_def)

lemma deliveries_ab: "deliveries sample opened_ab node_b1 =
    [Deliver_keygen 0 delivered_ab, Inc MESSAGES_KEYGEN_HANDLED]"
  by (simp add: deliveries_def opened_ab_def tagged_ab delivered_ab_def)

lemma message_step: "handle_incoming sample now wire_ab node_b1 = (node_b2, Ok ())"
  using own_prefix_b room_mentions_b
  by (simp add: handle_incoming_eq Let_def valid_ab open_ab handle_incoming_unsafe_eq deliveries_ab
      node_b2_def)

lemma stream_ab: "Ok wire_ab \<in> set (incoming_filter sample key_b [Ok wire_text])"
proof -
  have "do_parse_signed sample wire_text = Ok wire_ab"
    using parse_outgoing_text(1) [OF sample_transport_laws outgoing_text_ab] by (simp add: wire_ab_def)
  then show ?thesis by (simp add: incoming_filter_single take_non_owned_def)
qed

lemma reachable_b1:
  assumes "\<And>r. admit (KeygenRequest r)" shows "node_reachable sample admit sk_b Map.empty node_b1"
proof (rule node_reachable.continue)
  show "node_reachable sample admit sk_b Map.empty node_b"
    unfolding node_b_def by (rule node_reachable.start)
  show "node_step sample admit node_b node_b1"
    by (rule node_step.keygen_request [of admit req_ab])
      (use assms in \<open>simp_all add: request_step ignore_result_def\<close>)
qed

lemma reachable_b2:
  assumes "\<And>r. admit (KeygenRequest r)" shows "node_reachable sample admit sk_b Map.empty node_b2"
proof (rule node_reachable.continue)
  show "node_reachable sample admit sk_b Map.empty node_b1" by (rule reachable_b1) (rule assms)
  show "node_step sample admit node_b1 node_b2"
    by (rule node_step.stream [of "Ok wire_ab" sample _ wire_text 0])
      (use stream_ab in \<open>simp_all add: stream_handle_def message_step\<close>)
qed

section \<open>Runs of a server\<close>

text \<open>C3: In every run of a server, whatever a protocol actor is given was sent by another server whose
  signature it bears, which is a member of the group stored for the room; it was meant for this
  server or for all, its room mentions this server, it is the opened form of what was signed, and
  it goes to an actor that was started for that room.\<close>

theorem delivered_is_trusted:
  assumes "store_laws E view" and "node_reachable E admit sk db c" and "eff \<in> set (co_out c)"
  shows "case eff of
      Deliver_keygen a im \<Rightarrow> trusted E view sk (co_db c) (im_wire_message im) \<and>
        w_room (im_wire_message im) = im_room im \<and> keygen_started (co_out c) a (im_room im)
    | Deliver_offline a im \<Rightarrow> trusted E view sk (co_db c) (im_wire_message im) \<and>
        w_room (im_wire_message im) = im_room im \<and> offline_started (co_out c) a (im_room im)
    | Deliver_signer a im \<Rightarrow> trusted E view sk (co_db c) (im_wire_message im) \<and>
        w_room (im_wire_message im) = im_room im \<and> signer_of_room (co_out c) a (im_room im)
    | _ \<Rightarrow> True"
proof -
  have "effect_ok E view sk (co_db c) (co_next_addr c) (co_out c) eff"
    by (rule node_inv_effect [OF node_inv_reachable [OF assms(1,2)] assms(3)])
  then show ?thesis by (cases eff) simp_all
qed

theorem delivered_is_trusted_witness:
  "trusted sample id sk_b (db_ab key_b) opened_ab \<and> keygen_started (co_out node_b2) 0 room_ab_id"
proof -
  have "Deliver_keygen 0 delivered_ab \<in> set (co_out node_b2)" by (simp add: node_b2_def)
  from delivered_is_trusted [OF sample_store_laws reachable_b2 [of "\<lambda>_. True"] this] show ?thesis
    by (simp add: node_b2_def delivered_ab_def)
qed

text \<open>C24: In every run, the only timers that the coordinator sets are those of retries, with an
  attempt between 1 and 33 and a delay of 2, 4, up to 512 seconds for the first nine, then 600.\<close>

theorem timers_are_bounded_retries:
  assumes "store_laws E view" and "node_reachable E admit sk db c"
    and "Run_later d m \<in> set (co_out c)"
  shows "\<exists>r. m = Retry r \<and> 1 \<le> unat (rm_attempts r) \<and> unat (rm_attempts r) \<le> 33 \<and>
    d = (if unat (rm_attempts r) \<le> 9 then 2 ^ unat (rm_attempts r) else 600)"
proof -
  have "effect_ok E view sk (co_db c) (co_next_addr c) (co_out c) (Run_later d m)"
    by (rule node_inv_effect [OF node_inv_reachable [OF assms(1,2)] assms(3)])
  then show ?thesis
    by (cases m) (auto simp: word_le_nat_alt retry_delay_def)
qed

definition waiting_ab :: retry_message where
  "waiting_ab = \<lparr>rm_initial_timestamp = 0, rm_attempts = 1, rm_check_passed = False,
     rm_message = wire_ab\<rparr>"

text \<open>A's message arrives before B has the request.\<close>

definition node_b_waits :: sample_coordinator where
  "node_b_waits = emit [Inc MESSAGES_TOTAL_RECEIVED, Run_later 2 (Retry waiting_ab)] node_b"

lemma early_step: "handle_incoming sample 0 wire_ab node_b = (node_b_waits, Ok ())"
proof -
  have "valid_sender_and_receiver sample Map.empty wire_ab = Err UnknownGroup"
    using room_ab by (simp add: valid_sender_and_receiver_def room_ab_id_def retrieve_group_def
        map_sled_def)
  then show ?thesis
    using own_prefix_b room_mentions_b
    by (simp add: handle_incoming_eq Let_def retry_def node_b_waits_def waiting_ab_def retry_delay_def)
qed

lemma reachable_b_waits: "node_reachable sample admit sk_b Map.empty node_b_waits"
proof (rule node_reachable.continue)
  show "node_reachable sample admit sk_b Map.empty node_b"
    unfolding node_b_def by (rule node_reachable.start)
  show "node_step sample admit node_b node_b_waits"
    by (rule node_step.stream [of "Ok wire_ab" sample _ wire_text 0])
      (use stream_ab in \<open>simp_all add: stream_handle_def early_step\<close>)
qed

theorem timers_are_bounded_retries_witness:
  "\<exists>r. Retry waiting_ab = Retry r \<and> 1 \<le> unat (rm_attempts r)"
proof -
  have "Run_later 2 (Retry waiting_ab) \<in> set (co_out node_b_waits)" by (simp add: node_b_waits_def)
  from timers_are_bounded_retries [OF sample_store_laws reachable_b_waits this] show ?thesis by blast
qed

lemma sample_formats_disjoint: "formats_disjoint sample"
  by (auto simp: formats_disjoint_def share_codec_def group_codec_def)

end
