(* ===== verification/Properties_Coordinator.thy ===== *)
theory Properties_Coordinator
  imports Properties_Actors
begin

text \<open>
  Properties of the coordinator's single handlers: requests, incoming messages and their retries,
  and the outputs of the protocols.
\<close>

section \<open>Requests\<close>

text \<open>A key generation request makes the coordinator panic exactly when a key is too short to be
  cut or this server is not among the participants; by then it has reported that the request is
  being processed, and has stored and started nothing.\<close>

lemma keygen_request_panics_iff:
  "(snd (handle_coordinator_message E now (KeygenRequest req) c) = Panic \<longleftrightarrow>
     (\<exists>pk \<in> set (kr_participant_public_keys req). str_range pk 2 10 = None) \<or>
     co_pk_str c \<notin> set (kr_participant_public_keys req)) \<and>
   (if snd (handle_coordinator_message E now (KeygenRequest req) c) = Panic
    then fst (handle_coordinator_message E now (KeygenRequest req) c) =
      emit [Inc REQUESTS_KEYGEN_HANDLED,
        Respond (mk_response (kr_request_id req) [] Keygen_type Processing)] c else True)"
proof -
  let ?h = "handle_keygen_request E req c"
  have i: "snd (ignore_result ?h) = Panic \<longleftrightarrow> snd ?h = Panic" "fst (ignore_result ?h) = fst ?h"
    by (cases ?h; cases "snd ?h"; simp add: ignore_result_def)+
  have "fst ?h = emit [Inc REQUESTS_KEYGEN_HANDLED,
      Respond (mk_response (kr_request_id req) [] Keygen_type Processing)] c" if "snd ?h = Panic"
    using that by (simp add: handle_keygen_request_eq Let_def split: option.splits)
  with i show ?thesis
    by (simp add: handle_keygen_request_Panic_iff)
qed

text \<open>C21: After a key generation request that this server takes part in, the room is open: a player
  has been started for it with this server's index in the list of participants, and a message from
  a participant, to all or to that index, passes the check.\<close>

theorem keygen_request_opens_room:
  assumes laws: "store_laws E view"
    and g: "group_new (kr_participant_public_keys req) (ucast (kr_threshold req)) (co_pk_str c) = Some g"
    and i: "get_i g = Some i" and sm: "ce_keygen_new E i (get_t g) (get_n g) = Some sm"
    and saved: "snd (save_group E (co_db c) g) = Ok ()" and fresh: "view (co_db c) (pg_group_id g) = None"
    and up: "\<And>d k. db_up E d k"
    and plain: "CHR ''@'' \<notin> set (kr_request_id req)" "CHR ''@'' \<notin> set (pg_group_id g)"
    and room: "room = make_room_id (kr_request_id req) (pg_group_id g)"
    and c': "c' = fst (handle_coordinator_message E now (KeygenRequest req) c)"
    and w: "w_room w = room" "w_sender_public_key w \<in> set (kr_participant_public_keys req)"
      "de (env_gpm E) (w_payload w) = Some m" "gpm_receiver m = None \<or> gpm_receiver m = Some i"
  shows "co_keygen_runners c' room = Some (co_next_addr c) \<and>
    Start_keygen (co_next_addr c) (player_new req room i sm) \<in> set (co_out c') \<and>
    valid_sender_and_receiver E (co_db c') w = Ok ()"
proof -
  have db: "save_group E (co_db c) g = (fst (save_group E (co_db c) g), Ok ())"
    using saved by (simp add: prod_eq_iff)
  from c' g i sm have e: "c' = emit [Start_keygen (co_next_addr c) (player_new req room i sm)]
      ((emit [Inc REQUESTS_KEYGEN_HANDLED,
          Respond (mk_response (kr_request_id req) [] Keygen_type Processing)] c)
        \<lparr>co_next_addr := co_next_addr c + 1, co_db := fst (save_group E (co_db c) g),
         co_keygen_runners := (co_keygen_runners c)(room \<mapsto> co_next_addr c)\<rparr>)"
    by (simp add: handle_keygen_request_eq Let_def ignore_result_def room)
  have "retrieve_group E (fst (save_group E (co_db c) g)) (pg_group_id g) = Ok g"
    by (rule groups.retrieve_after_save [OF laws TrueI db fresh up])
  moreover have "extract_group_id (w_room w) = Ok (pg_group_id g)"
    using plain by (simp add: w(1) room)
  ultimately have "known_message E (co_db c') w g m"
    using w group_new_fields(1) [OF g] by (simp add: known_message_def e)
  then have "valid_sender_and_receiver E (co_db c') w = Ok ()"
    using w(4) i unfolding valid_sender_and_receiver_Ok_iff by auto
  then show ?thesis by (simp add: e)
qed

theorem keygen_request_opens_room_witness:
  "co_keygen_runners node_b1 room_ab_id = Some 0 \<and>
   valid_sender_and_receiver sample (co_db node_b1) wire_ab = Ok ()"
proof -
  have g: "group_new (kr_participant_public_keys req_ab) (ucast (kr_threshold req_ab))
      (co_pk_str node_b) = Some (group_ab key_b)"
    by (simp add: req_ab_def sample_ab_id)
  have i: "get_i (group_ab key_b) = Some 2" by simp
  have sm: "ce_keygen_new sample 2 (get_t (group_ab key_b)) (get_n (group_ab key_b)) = Some (2, 1, 2)"
    by simp
  have saved: "snd (save_group sample (co_db node_b) (group_ab key_b)) = Ok ()"
    by (simp add: save_group_def group_codec_def map_sled_def)
  have c': "node_b1 = fst (handle_coordinator_message sample 0 (KeygenRequest req_ab) node_b)"
    by (simp add: request_step ignore_result_def)
  have "make_room_id (kr_request_id req_ab) (pg_group_id (group_ab key_b)) = room_ab_id"
    by (simp add: req_ab_def room_ab_make)
  from keygen_request_opens_room [OF sample_store_laws g i sm saved _ sample_db_up _ _ this [symmetric] c',
      of wire_ab "gpm_ab\<lparr>gpm_body := ''0bbbbbkhello''\<rparr>"] parse_sealed
  show ?thesis by (simp add: req_ab_def gpm_ab_def)
qed

text \<open>C10: A signing request that passes the checks starts an offline stage over exactly \<open>t + 1\<close>
  participants: the list \<open>s_l\<close> has their indices in the group of the key, in the order of the
  request, and the player's index is this server's place in the request.\<close>

theorem sign_request_starts_offline:
  assumes share: "retrieve_share E (co_sk c) (co_db c) (sr_public_key req) = Ok ls"
    and t: "t = env_lk_t E (sls_share ls)"
    and g: "group_new (sls_public_keys ls) t (co_pk_str c) = Some g"
    and sub: "group_new (sr_participant_public_keys req) t (co_pk_str c) = Some sub"
    and small: "length (sls_public_keys ls) < 65536" "length (sr_participant_public_keys req) < 65536"
    and ok: "handle_sign_request E req c = (c', Ok ())"
  shows "\<exists>s_l i sm. length s_l = unat (t + 1) \<and> length s_l = length (sr_participant_public_keys req) \<and>
    list_all2 (\<lambda>k pk. get_public_key g (unat k) = Ok pk) s_l (sr_participant_public_keys req) \<and>
    get_public_key sub (unat i) = Ok (co_pk_str c) \<and>
    ce_offline_new E i s_l (sls_share ls) = Some sm \<and>
    (let room = make_room_id (sr_request_id req) (pg_group_id sub);
         input = \<lparr>es_inner = req, es_room = room, es_i = i, es_s_l = s_l\<rparr> in
     co_offline_state_runners c' room = Some (co_next_addr c) \<and>
     co_out c' = co_out c @ [Inc REQUESTS_SIGN_HANDLED,
       Respond (mk_response (sr_request_id req) [] Sign_type Processing),
       Start_offline (co_next_addr c) (player_new input room i sm)])"
proof -
  let ?ps = "sr_participant_public_keys req"
  note eq = handle_sign_request_eq [OF share t]
  obtain s_l where s_l: "participant_indices g t ?ps = Ok s_l"
    using ok by (cases "participant_indices g t ?ps") (simp_all add: eq g sub Let_def)
  obtain i where i: "get_i sub = Some i"
    using ok by (cases "get_i sub"; cases "get_i g") (simp_all add: eq g sub s_l Let_def)
  obtain i0 where i0: "get_i g = Some i0"
    using ok by (cases "get_i g") (simp_all add: eq g sub s_l Let_def)
  obtain sm where sm: "ce_offline_new E i s_l (sls_share ls) = Some sm"
    using ok by (cases "ce_offline_new E i s_l (sls_share ls)") (simp_all add: eq g sub s_l i i0 Let_def)
  from s_l have len: "length ?ps = unat (t + 1)" and mem: "set ?ps \<subseteq> set (pg_public_keys g)"
    and def_s_l: "s_l = map (\<lambda>p. word_of_nat (the (get_index g p))) ?ps"
    by (simp_all add: participant_indices_Ok_iff)
  have "get_public_key g (unat (word_of_nat (the (get_index g p)) :: u16)) = Ok p" if "p \<in> set ?ps" for p
  proof -
    from that mem obtain k where k: "get_index g p = Some k"
      using get_index_ex_iff [of g p] by blast
    then have "k < 65536"
      using small(1) group_new_fields(1) [OF g] by (auto simp: get_index_Some_iff)
    then have "unat (word_of_nat k :: u16) = k" by (simp add: unat_of_nat take_bit_nat_eq_self)
    with k get_public_key_get_index [OF k] show ?thesis by simp
  qed
  then have idx: "list_all2 (\<lambda>k pk. get_public_key g (unat k) = Ok pk) s_l ?ps"
    by (simp add: def_s_l list_all2_conv_all_nth)
  have own: "get_public_key sub (unat i) = Ok (co_pk_str c)"
    using unat_get_i [OF i] small(2) group_new_fields [OF sub]
    by (intro get_public_key_get_index) simp
  have lens: "length s_l = unat (t + 1)" "length s_l = length ?ps"
    using len by (simp_all add: def_s_l)
  have c': "c' = emit [Start_offline (co_next_addr c)
        (player_new \<lparr>es_inner = req, es_room = make_room_id (sr_request_id req) (pg_group_id sub),
            es_i = i, es_s_l = s_l\<rparr> (make_room_id (sr_request_id req) (pg_group_id sub)) i sm)]
      ((respond (sr_request_id req) [] Sign_type Processing (sign_subgroup_saved E sub c))
        \<lparr>co_next_addr := co_next_addr c + 1, co_offline_state_runners :=
          (co_offline_state_runners c)(make_room_id (sr_request_id req) (pg_group_id sub) \<mapsto> co_next_addr c)\<rparr>)"
    using ok by (simp add: eq g sub s_l i i0 sm Let_def)
  show ?thesis
    by (rule exI [of _ s_l], rule exI [of _ i], rule exI [of _ sm])
      (simp add: lens idx own sm Let_def c' respond_def sign_subgroup_saved_def flip: lens(2))
qed

definition node_share :: sample_coordinator where
  "node_share = node_b\<lparr>co_db := fst (save_share sample Map.empty (share_ab key_b))\<rparr>"

lemma node_share_fields [simp]:
  "co_pk_str node_share = key_b" "co_sk node_share = sk_b" "co_out node_share = []"
  "co_db node_share = fst (save_share sample Map.empty (share_ab key_b))" "co_next_addr node_share = 0"
  "co_offline_state_runners node_share = Map.empty"
  by (simp_all add: node_share_def)

lemma share_b_saved:
  "save_share sample d (share_ab key_b) = (fst (save_share sample d (share_ab key_b)), Ok ())"
  by (simp add: save_share_def encrypt_share_def get_own_public_key_def plain_crypto_def
      local_key_codec_def share_codec_def map_sled_def pk_encrypt_def Let_def share_ab_def key_b_def)

lemma share_b: "retrieve_share sample sk_b (co_db node_share) (replicate 66 (CHR ''x'')) = Ok (share_ab key_b)"
proof -
  have "own_share sample sk_b (share_ab key_b)"
    by (simp add: own_share_def sample_identity share_ab_def)
  from shares.retrieve_after_save [OF sample_store_laws this share_b_saved, of Map.empty] sample_db_up
  show ?thesis by (simp add: share_ab_key)
qed

definition sign_ab :: "string list \<Rightarrow> sign_request" where
  "sign_ab ps = \<lparr>sr_request_id = ''s'', sr_participant_public_keys = ps,
     sr_public_key = replicate 66 (CHR ''x''), sr_hash = ''123''\<rparr>"

lemma sign_ab_fields [simp]:
  "sr_request_id (sign_ab ps) = ''s''" "sr_participant_public_keys (sign_ab ps) = ps"
  "sr_public_key (sign_ab ps) = replicate 66 (CHR ''x'')" "sr_hash (sign_ab ps) = ''123''"
  by (simp_all add: sign_ab_def)

lemma share_b_req: "retrieve_share sample (co_sk node_share) (co_db node_share)
    (sr_public_key (sign_ab ps)) = Ok (share_ab key_b)"
  using share_b by simp

lemma share_ab_t: "env_lk_t sample (sls_share (share_ab own)) = 1"
  by (simp add: share_ab_def)

lemma group_of_share: "group_new (sls_public_keys (share_ab own)) 1 key_b = Some (group_ab key_b)"
  by (simp add: share_ab_def sample_ab_id)

theorem sign_request_starts_offline_witness:
  "\<exists>s_l :: u16 list. length s_l = 2 \<and> list_all2 (\<lambda>k pk. get_public_key (group_ab key_b) (unat k) = Ok pk) s_l
     [key_a, key_b]"
proof -
  let ?req = "sign_ab [key_a, key_b]"
  have idx: "participant_indices (group_ab key_b) 1 [key_a, key_b] = Ok [1, 2]"
    by (simp add: participant_indices_Ok_iff get_index_def)
  obtain c' where c': "handle_sign_request sample ?req node_share = (c', Ok ())"
    by (simp add: handle_sign_request_eq [OF share_b_req share_ab_t [symmetric]] group_of_share
        sample_ab_id idx Let_def)
  have g: "group_new (sls_public_keys (share_ab key_b)) 1 (co_pk_str node_share) = Some (group_ab key_b)"
    and sub: "group_new (sr_participant_public_keys ?req) 1 (co_pk_str node_share) = Some (group_ab key_b)"
    by (simp_all add: group_of_share sample_ab_id)
  have "length (sls_public_keys (share_ab key_b)) < 65536"
    and "length (sr_participant_public_keys ?req) < 65536"
    by (simp_all add: share_ab_def)
  from sign_request_starts_offline [OF share_b_req share_ab_t [symmetric] g sub this c']
  obtain s_l :: "u16 list" where "length s_l = length (sr_participant_public_keys ?req)"
    and "list_all2 (\<lambda>k pk. get_public_key (group_ab key_b) (unat k) = Ok pk) s_l
      (sr_participant_public_keys ?req)"
    by (elim exE conjE)
  then show ?thesis by (intro exI [of _ s_l]) simp
qed

text \<open>C28: A signing request of the right size, all of whose keys belong to the group but none of which
  is this server's, makes the coordinator panic after it has reported that the request is being
  processed: nothing checks that the server was asked to take part.\<close>

theorem sign_request_without_own_key_panics:
  assumes share: "retrieve_share E (co_sk c) (co_db c) (sr_public_key req) = Ok ls"
    and t: "t = env_lk_t E (sls_share ls)"
    and g: "group_new (sls_public_keys ls) t (co_pk_str c) = Some g"
    and ps: "length (sr_participant_public_keys req) = unat (t + 1)"
      "set (sr_participant_public_keys req) \<subseteq> set (sls_public_keys ls)"
    and absent: "co_pk_str c \<notin> set (sr_participant_public_keys req)"
  shows "snd (handle_coordinator_message E now (SignRequest req) c) = Panic"
proof -
  have "\<forall>pk \<in> set (sr_participant_public_keys req). str_range pk 2 10 \<noteq> None"
    using g ps(2) by (auto simp: group_new_Some_iff)
  then obtain sub where sub: "group_new (sr_participant_public_keys req) t (co_pk_str c) = Some sub"
    by (cases "group_new (sr_participant_public_keys req) t (co_pk_str c)")
      (auto simp: group_new_None_iff)
  have "\<exists>s_l. participant_indices g t (sr_participant_public_keys req) = Ok s_l"
    using ps group_new_fields(1) [OF g] by (simp add: participant_indices_Ok_iff)
  with absent have "snd (handle_sign_request E req c) = Panic"
    using g unfolding handle_sign_request_Panic_iff [OF share g [unfolded t]] by (simp add: t)
  then show ?thesis
    by (cases "handle_sign_request E req c") (simp add: ignore_result_def)
qed

theorem sign_request_without_own_key_panics_witness:
  "snd (handle_coordinator_message sample 0 (SignRequest (sign_ab [key_a, key_a])) node_share) = Panic"
  by (rule sign_request_without_own_key_panics [OF share_b_req share_ab_t [symmetric]])
    (simp_all add: group_of_share, simp_all add: share_ab_def)

text \<open>C27: A signing request that is refused has nevertheless stored its list of participants as a
  group. If this server's key was not in it, a message that one of them addresses to a single receiver in
  a room of that group is dropped when the name of the room does not contain this server's prefix, as
  ordinary rooms of that group do not; but when it does, which a sender achieves with a request id that
  contains the prefix, the message makes the coordinator panic.\<close>

theorem refused_request_poisons_group:
  assumes laws: "store_laws E view"
    and share: "retrieve_share E (co_sk c) (co_db c) (sr_public_key req) = Ok ls"
    and t: "t = env_lk_t E (sls_share ls)"
    and g: "group_new (sls_public_keys ls) t (co_pk_str c) = Some g"
    and sub: "group_new (sr_participant_public_keys req) t (co_pk_str c) = Some sub"
    and refused: "participant_indices g t (sr_participant_public_keys req) = Err e"
    and absent: "co_pk_str c \<notin> set (sr_participant_public_keys req)"
    and saved: "snd (save_group E (co_db c) sub) = Ok ()" and fresh: "view (co_db c) (pg_group_id sub) = None"
    and up: "\<And>d k. db_up E d k"
    and w: "extract_group_id (w_room w) = Ok (pg_group_id sub)"
      "w_sender_public_key w \<in> set (sr_participant_public_keys req)"
      "de (env_gpm E) (w_payload w) = Some m" "gpm_receiver m = Some r"
    and own: "str_range (co_pk_str c) 2 10 = Some own"
  shows "\<exists>c'. handle_coordinator_message E now (SignRequest req) c = (c', Ok ()) \<and>
    (if str_contains (w_room w) own then snd (handle_coordinator_message E now' (Incoming w) c') = Panic
     else handle_coordinator_message E now' (Incoming w) c' =
       (emit [Inc MESSAGES_TOTAL_RECEIVED, Inc MESSAGES_DROPPED] c', Ok ()))"
proof -
  have db: "save_group E (co_db c) sub = (fst (save_group E (co_db c) sub), Ok ())"
    using saved by (simp add: prod_eq_iff)
  let ?c = "sign_subgroup_saved E sub c"
  have h: "handle_sign_request E req c = (?c, Err e)"
    using refused by (simp add: handle_sign_request_eq [OF share t] g sub Let_def)
  have "retrieve_group E (co_db ?c) (pg_group_id sub) = Ok sub"
    using groups.retrieve_after_save [OF laws TrueI db fresh up] by (simp add: sign_subgroup_saved_def)
  then have "known_message E (co_db ?c) w sub m"
    using w group_new_fields(1) [OF sub] by (simp add: known_message_def)
  then have "valid_sender_and_receiver E (co_db ?c) w = Panic"
    using w(4) absent group_new_fields [OF sub] unfolding valid_sender_and_receiver_Panic_iff
    by (intro exI [of _ sub] exI [of _ m]) simp
  then have panic: "snd (handle_incoming E now' w ?c) = Panic" if "str_contains (w_room w) own"
    using own that by (simp add: handle_incoming_Panic_iff sign_subgroup_saved_def)
  have "handle_incoming E now' w ?c = (emit [Inc MESSAGES_TOTAL_RECEIVED, Inc MESSAGES_DROPPED] ?c, Ok ())"
    if "\<not> str_contains (w_room w) own"
    using own that by (simp add: handle_incoming_def Let_def sign_subgroup_saved_def)
  with panic h show ?thesis by (simp add: ignore_result_def)
qed

definition poison_wire :: wire_message where
  "poison_wire = \<lparr>w_room = ''x@aaaaaaaa@bbbbbbbb'', w_payload = c_message msg_ab,
     w_sender_public_key = key_a, w_signature = []\<rparr>"

lemma group_new_a: "group_new [key_a] 1 own = Some \<lparr>pg_group_id = ''aaaaaaaa'', pg_t = 1,
    pg_public_keys = [key_a], pg_own_public_key = own\<rparr>"
  by (simp add: group_new_def key_a_def str_range_def is_char_boundary_def continuation_byte_def)

theorem refused_request_poisons_group_witness:
  "\<exists>c'. handle_coordinator_message sample 0 (SignRequest (sign_ab [key_a])) node_share = (c', Ok ()) \<and>
     snd (handle_coordinator_message sample 0 (Incoming poison_wire) c') = Panic"
proof -
  let ?sub = "\<lparr>pg_group_id = ''aaaaaaaa'', pg_t = 1, pg_public_keys = [key_a], pg_own_public_key = key_b\<rparr>"
  have g: "group_new (sls_public_keys (share_ab key_b)) 1 (co_pk_str node_share) = Some (group_ab key_b)"
    by (simp add: group_of_share)
  have sub: "group_new (sr_participant_public_keys (sign_ab [key_a])) 1 (co_pk_str node_share) = Some ?sub"
    by (simp add: group_new_a)
  have idx: "participant_indices (group_ab key_b) 1 (sr_participant_public_keys (sign_ab [key_a])) =
      Err ''Find index of participants''"
    by (simp add: participant_indices_def get_index_def Let_def)
  have "fst (save_share sample Map.empty (share_ab key_b)) ''aaaaaaaa'' = None"
    using shares.save_frame [OF sample_store_laws share_b_saved, of "''aaaaaaaa''"]
    by (simp add: share_ab_key numeral_eq_Suc)
  then have fresh: "id (co_db node_share) (pg_group_id ?sub) = None" by simp
  have saved: "snd (save_group sample (co_db node_share) ?sub) = Ok ()"
    by (simp add: save_group_def group_codec_def map_sled_def)
  have w: "extract_group_id (w_room poison_wire) = Ok (pg_group_id ?sub)"
    "w_sender_public_key poison_wire \<in> set (sr_participant_public_keys (sign_ab [key_a]))"
    "de (env_gpm sample) (w_payload poison_wire) = Some gpm_ab" "gpm_receiver gpm_ab = Some 2"
    "str_contains (w_room poison_wire) ''bbbbbbbb''"
    by (simp_all add: poison_wire_def extract_group_id_def ROOM_SEPARATOR_def parse_ab)
      (simp add: gpm_ab_def)
  have own: "str_range (co_pk_str node_share) 2 10 = Some ''bbbbbbbb''"
    by (simp add: own_prefix_b)
  from refused_request_poisons_group [OF sample_store_laws share_b_req share_ab_t [symmetric]
      g sub idx _ saved fresh sample_db_up w(1-4) own, of 0 0] w(5)
  show ?thesis by simp
qed

section \<open>Retries\<close>

text \<open>The timer of a retry fires \<open>n\<close> times, each time the one that was set last.\<close>

fun pursue ::
  "('db, 'sk, 'pk, 'sg, 'lk, 'kg, 'mk, 'off, 'mo, 'ps) cenv \<Rightarrow> nat \<Rightarrow> retry_message \<Rightarrow>
   ('db, 'sk, 'lk, 'kg, 'mk, 'off, 'mo, 'cos, 'ps) coordinator \<Rightarrow>
   ('db, 'sk, 'lk, 'kg, 'mk, 'off, 'mo, 'cos, 'ps) coordinator" where
  "pursue E 0 r c = c"
| "pursue E (Suc n) r c =
     pursue E n (r\<lparr>rm_attempts := rm_attempts r + 1\<rparr>)
       (fst (handle_coordinator_message E 0 (Retry r) c))"

definition attempt_no :: "wire_message \<Rightarrow> nat \<Rightarrow> nat \<Rightarrow> retry_message" where
  "attempt_no w ts k = \<lparr>rm_initial_timestamp = ts, rm_attempts = word_of_nat k,
     rm_check_passed = True, rm_message = w\<rparr>"

definition schedule :: "nat \<Rightarrow> nat" where
  "schedule k = (if k \<le> 9 then 2 ^ k else 600)"

lemma retry_attempt_no:
  assumes "k < 65536"
  shows "retry (attempt_no w ts k) c =
    emit [if k > 33 then Inc MESSAGES_DROPPED else Run_later (schedule k) (Retry (attempt_no w ts k))] c"
proof -
  have "unat (word_of_nat k :: u16) = k"
    using assms by (simp add: unat_of_nat take_bit_nat_eq_self)
  then show ?thesis
    by (simp add: retry_eq_emit attempt_no_def retry_delay_def schedule_def word_less_nat_alt
        word_le_nat_alt)
qed

lemma pursue_undelivered:
  assumes "deliveries E w c = []" and "k + n < 65536"
  shows "pursue E n (attempt_no w ts k) c =
    emit (map (\<lambda>j. if j > 33 then Inc MESSAGES_DROPPED
      else Run_later (schedule j) (Retry (attempt_no w ts j))) [Suc k..<Suc (k + n)]) c"
  using assms
proof (induction n arbitrary: k c)
  case (Suc n)
  have next_no: "attempt_no w ts k\<lparr>rm_attempts := rm_attempts (attempt_no w ts k) + 1\<rparr> =
      attempt_no w ts (Suc k)"
    by (simp add: attempt_no_def)
  have "fst (handle_coordinator_message E 0 (Retry (attempt_no w ts k)) c) =
      retry (attempt_no w ts (Suc k)) c"
    using Suc.prems(1) by (simp add: attempt_no_def handle_incoming_unsafe_eq add.commute)
  also have "\<dots> = emit [if Suc k > 33 then Inc MESSAGES_DROPPED
      else Run_later (schedule (Suc k)) (Retry (attempt_no w ts (Suc k)))] c"
    using Suc.prems(2) by (intro retry_attempt_no) simp
  finally have h: "fst (handle_coordinator_message E 0 (Retry (attempt_no w ts k)) c) = \<dots>" .
  have up: "[Suc k..<Suc (k + Suc n)] = Suc k # [Suc (Suc k)..<Suc (Suc k + n)]"
    by (simp add: upt_conv_Cons del: upt_Suc)
  show ?case
    unfolding pursue.simps next_no h up
    using Suc.IH [of "emit [if Suc k > 33 then Inc MESSAGES_DROPPED
      else Run_later (schedule (Suc k)) (Retry (attempt_no w ts (Suc k)))] c" "Suc k"] Suc.prems
    by (simp del: upt_Suc)
qed simp

text \<open>C13: A message that no runner takes is tried again 33 times, after 2, 4, up to 512 seconds and then
  24 times after ten minutes, four hours and 17 minutes in all, and is then dropped.\<close>

theorem undelivered_message_is_dropped:
  assumes "deliveries E w c = []"
  shows "pursue E 33 (attempt_no w ts 1) (handle_incoming_unsafe E w ts 0 c) =
    emit (map (\<lambda>k. Run_later (if k \<le> 9 then 2 ^ k else 600) (Retry (attempt_no w ts k))) [1..<34] @
      [Inc MESSAGES_DROPPED]) c \<and>
    sum_list (map schedule [1..<34]) = 15422"
proof -
  have "handle_incoming_unsafe E w ts 0 c = retry (attempt_no w ts 1) c"
    using assms by (simp add: handle_incoming_unsafe_eq attempt_no_def)
  also have "\<dots> = emit [Run_later (schedule 1) (Retry (attempt_no w ts 1))] c"
    by (simp add: retry_attempt_no)
  finally have one: "handle_incoming_unsafe E w ts 0 c = \<dots>" .
  have "[Suc 1..<Suc (1 + 33)] = [2..<34] @ [34]"
    by (simp add: upt_conv_Cons)
  moreover have "[1..<34] = 1 # [2..<34 :: nat]"
    by (simp add: upt_conv_Cons)
  moreover have "(map (\<lambda>j. if j > 33 then Inc MESSAGES_DROPPED
      else Run_later (schedule j) (Retry (attempt_no w ts j))) [2..<34]) =
      map (\<lambda>k. Run_later (schedule k) (Retry (attempt_no w ts k))) [2..<34]"
    by (intro map_cong) auto
  ultimately have "pursue E 33 (attempt_no w ts 1) (handle_incoming_unsafe E w ts 0 c) =
    emit (map (\<lambda>k. Run_later (schedule k) (Retry (attempt_no w ts k))) [1..<34] @
      [Inc MESSAGES_DROPPED]) c"
    using pursue_undelivered [of E w "emit [Run_later (schedule 1) (Retry (attempt_no w ts 1))] c" 1 33 ts] assms
    by (simp add: one)
  moreover have "sum_list (map schedule [1..<34]) = 15422"
    by (simp add: schedule_def upt_conv_Cons)
  ultimately show ?thesis by (simp add: schedule_def)
qed

theorem undelivered_message_is_dropped_witness:
  "last (co_out (pursue sample 33 (attempt_no wire_ab 0 1) (handle_incoming_unsafe sample wire_ab 0 0 node_b))) =
     Inc MESSAGES_DROPPED"
proof -
  have "deliveries sample wire_ab node_b = []" by (simp add: deliveries_Nil_iff)
  from undelivered_message_is_dropped [OF this, of 0] show ?thesis by simp
qed

end
