(* ===== verification/Properties_Protocols.thy ===== *)
theory Properties_Protocols
  imports Properties_Coordinator
begin

text \<open>
  Properties of messages that are not for this server or come too early, of the outputs of the
  protocols, and of the actors that run them.
\<close>

section \<open>Messages\<close>

text \<open>A fresh message that does not mention this server, or is addressed to another member, is
  dropped at once; but the same message on a retry is kept and tried again, because a retry treats
  every failed check alike.\<close>

lemma not_for_me_dropped_unless_retried:
  assumes own: "str_range (co_pk_str c) 2 10 = Some own"
    and not_me: "valid_sender_and_receiver E (co_db c) w = Err NotForMe"
    and r: "rm_message r = w" "rm_check_passed r = False" "rm_attempts r < 33"
  shows "handle_coordinator_message E now (Incoming w) c =
      (emit [Inc MESSAGES_TOTAL_RECEIVED, Inc MESSAGES_DROPPED] c, Ok ()) \<and>
    handle_coordinator_message E now (Retry r) c =
      (emit [Run_later (retry_delay (rm_attempts r + 1)) (Retry (r\<lparr>rm_attempts := rm_attempts r + 1\<rparr>))] c,
       Ok ())"
proof
  show "handle_coordinator_message E now (Incoming w) c =
      (emit [Inc MESSAGES_TOTAL_RECEIVED, Inc MESSAGES_DROPPED] c, Ok ())"
    by (cases "str_contains (w_room w) own") (simp_all add: handle_incoming_eq [OF own] Let_def not_me)
  have "\<not> rm_attempts r + 1 > 33"
    using attempts_succ [of "rm_attempts r"] r(3)
    by (simp add: word_less_nat_alt word_le_nat_alt)
  then show "handle_coordinator_message E now (Retry r) c =
      (emit [Run_later (retry_delay (rm_attempts r + 1)) (Retry (r\<lparr>rm_attempts := rm_attempts r + 1\<rparr>))] c,
       Ok ())"
    using r by (cases r) (simp add: handle_retry_def precheck_message_def not_me retry_eq_emit)
qed

text \<open>C37: A message that a player, of a key generation or of an offline stage, reports as out of order is
  tried again two seconds later, with the count of attempts started over, so that nothing bounds how
  often. Whatever the coordinator has done in between, the retry then gives the message to every player
  to which a route of its room leads at that time and whose message type it has; if the routes are gone,
  as the one to an offline player is after its output, it is given to nobody and tried again after four
  seconds.\<close>

theorem out_of_order_is_redelivered:
  fixes c :: "('db, 'sk, 'lk, 'kg, 'mk, 'off, 'mo, 'cos, 'ps) coordinator"
  assumes "c1 = handle_protocol_error now
      \<lparr>pe_room = room, pe_error = ReceivedOutOfOrderMessage x y, pe_message = im\<rparr> c"
    and "w = im_wire_message im"
  shows "\<exists>r. co_out c1 = co_out c @ [Run_later 2 (Retry r)] \<and> rm_attempts r = 1 \<and> rm_message r = w \<and>
    (\<forall>now' (c' :: ('db, 'sk, 'lk, 'kg, 'mk, 'off, 'mo, 'cos, 'ps) coordinator). let out = co_out (fst (handle_coordinator_message E now' (Retry r) c')) in
       (\<forall>a m. co_keygen_runners c' (w_room w) = Some a \<longrightarrow> ce_msg_kg E (w_payload w) = Some m \<longrightarrow>
          Deliver_keygen a \<lparr>im_room = w_room w, im_wire_message = w, im_message = m\<rparr> \<in> set (drop (length (co_out c')) out)) \<and>
       (\<forall>a m. co_offline_state_runners c' (w_room w) = Some a \<longrightarrow> ce_msg_o E (w_payload w) = Some m \<longrightarrow>
          Deliver_offline a \<lparr>im_room = w_room w, im_wire_message = w, im_message = m\<rparr> \<in> set (drop (length (co_out c')) out)) \<and>
       (co_keygen_runners c' (w_room w) = None \<and> co_offline_state_runners c' (w_room w) = None \<and>
          co_signers c' (w_room w) = None \<longrightarrow>
          out = co_out c' @ [Run_later 4 (Retry (r\<lparr>rm_attempts := 2\<rparr>))]))"
proof -
  let ?r = "\<lparr>rm_initial_timestamp = now, rm_attempts = 1, rm_check_passed = True, rm_message = w\<rparr>"
  have c1: "c1 = emit [Run_later 2 (Retry ?r)] c"
    using assms by (simp add: handle_protocol_error_def retry_eq_emit retry_delay_def)
  have h: "handle_coordinator_message E now' (Retry ?r) c' = (handle_incoming_unsafe E w now 1 c', Ok ())"
    for now' and c' :: "('db, 'sk, 'lk, 'kg, 'mk, 'off, 'mo, 'cos, 'ps) coordinator"
    by simp
  have d: "eff \<in> set (drop (length (co_out c')) (co_out (handle_incoming_unsafe E w now 1 c')))"
    if "eff \<in> set (deliveries E w c')" for eff and c' :: "('db, 'sk, 'lk, 'kg, 'mk, 'off, 'mo, 'cos, 'ps) coordinator"
    using that by (auto simp: handle_incoming_unsafe_eq)
  have n: "co_out (handle_incoming_unsafe E w now 1 c') = co_out c' @ [Run_later 4 (Retry (?r\<lparr>rm_attempts := 2\<rparr>))]"
    if "deliveries E w c' = []" for c' :: "('db, 'sk, 'lk, 'kg, 'mk, 'off, 'mo, 'cos, 'ps) coordinator"
    using that by (simp add: handle_incoming_unsafe_eq retry_eq_emit retry_delay_def)
  show ?thesis
  proof (intro exI [of _ ?r] conjI allI)
    fix now' and c' :: "('db, 'sk, 'lk, 'kg, 'mk, 'off, 'mo, 'cos, 'ps) coordinator"
    let ?out = "co_out (fst (handle_coordinator_message E now' (Retry ?r) c'))"
    have "Deliver_keygen a \<lparr>im_room = w_room w, im_wire_message = w, im_message = m\<rparr> \<in> set (drop (length (co_out c')) ?out)"
      if "co_keygen_runners c' (w_room w) = Some a" "ce_msg_kg E (w_payload w) = Some m" for a m
      unfolding h fst_conv by (rule d) (use that in \<open>simp add: deliveries_def\<close>)
    moreover have "Deliver_offline a \<lparr>im_room = w_room w, im_wire_message = w, im_message = m\<rparr> \<in> set (drop (length (co_out c')) ?out)"
      if "co_offline_state_runners c' (w_room w) = Some a" "ce_msg_o E (w_payload w) = Some m" for a m
      unfolding h fst_conv by (rule d) (use that in \<open>simp add: deliveries_def\<close>)
    moreover have "?out = co_out c' @ [Run_later 4 (Retry (?r\<lparr>rm_attempts := 2\<rparr>))]"
      if "co_keygen_runners c' (w_room w) = None \<and> co_offline_state_runners c' (w_room w) = None \<and> co_signers c' (w_room w) = None"
      unfolding h fst_conv by (rule n) (use that in \<open>simp add: deliveries_Nil_iff\<close>)
    ultimately show "let out = ?out in
       (\<forall>a m. co_keygen_runners c' (w_room w) = Some a \<longrightarrow> ce_msg_kg E (w_payload w) = Some m \<longrightarrow>
          Deliver_keygen a \<lparr>im_room = w_room w, im_wire_message = w, im_message = m\<rparr> \<in> set (drop (length (co_out c')) out)) \<and>
       (\<forall>a m. co_offline_state_runners c' (w_room w) = Some a \<longrightarrow> ce_msg_o E (w_payload w) = Some m \<longrightarrow>
          Deliver_offline a \<lparr>im_room = w_room w, im_wire_message = w, im_message = m\<rparr> \<in> set (drop (length (co_out c')) out)) \<and>
       (co_keygen_runners c' (w_room w) = None \<and> co_offline_state_runners c' (w_room w) = None \<and>
          co_signers c' (w_room w) = None \<longrightarrow>
          out = co_out c' @ [Run_later 4 (Retry (?r\<lparr>rm_attempts := 2\<rparr>))])"
      unfolding Let_def by blast
  qed (simp_all add: c1)
qed

text \<open>The message of A is not yet due for the player of B; nor for a server that has no such room.\<close>

theorem out_of_order_is_redelivered_witness:
  "\<exists>r. Deliver_keygen 0 delivered_ab \<in> set (co_out (fst (handle_coordinator_message sample 0 (Retry r) node_b2))) \<and>
     co_out (fst (handle_coordinator_message sample 0 (Retry r) node_b)) = co_out node_b @ [Run_later 4 (Retry (r\<lparr>rm_attempts := 2\<rparr>))]"
proof -
  have "co_keygen_runners node_b2 (w_room opened_ab) = Some 0"
    and "ce_msg_kg sample (w_payload opened_ab) =
      Some \<lparr>m_sender = 1, m_receiver = Some 2, m_body = ''khello''\<rparr>"
    and "delivered_ab = \<lparr>im_room = w_room opened_ab, im_wire_message = opened_ab,
      im_message = \<lparr>m_sender = 1, m_receiver = Some 2, m_body = ''khello''\<rparr>\<rparr>"
    by (simp_all add: node_b2_def opened_ab_def tagged_ab delivered_ab_def)
  note b = this
  have none: "co_keygen_runners node_b room = None" "co_offline_state_runners node_b room = None" "co_signers node_b room = None" for room
    by (simp_all add: node_b_def coordinator_new_def)
  have w: "im_wire_message delivered_ab = opened_ab" by (simp add: delivered_ab_def)
  show ?thesis
  proof (rule exE [OF out_of_order_is_redelivered [OF refl refl, where im = delivered_ab and E = sample
        and c = "node_b2 :: sample_coordinator" and now = 0 and room = room_ab_id and x = 2 and y = 1]], goal_cases)
    case (1 r)
    note r = 1 [unfolded w, THEN conjunct2, THEN conjunct2, THEN conjunct2, THEN spec, THEN spec]
    from r [of 0 node_b2] r [of 0 node_b] b none show ?case
      by (intro exI [of _ r]) (auto simp: Let_def dest: in_set_dropD simp del: handle_coordinator_message.simps)
  qed
qed

section \<open>Outputs\<close>

text \<open>C11: When a key generation ends, the key that is reported to the client as the result is the one
  under which this server finds its share for signing, with the participants of the request.\<close>

theorem keygen_result_finds_share:
  assumes laws: "store_laws E view" and id: "co_pk_str c = identity_of (env_crypto E) (co_sk c)"
    and ok: "handle_output_keygen E msg c = (c', Ok ())"
    and share: "s = \<lparr>sls_public_keys = kr_participant_public_keys (po_input msg),
      sls_own_public_key = co_pk_str c, sls_share = po_output msg\<rparr>"
    and saved: "snd (save_share E (co_db c) s) = Ok ()" and fresh: "view (co_db c) (share_key E s) = None"
    and up: "\<And>d k. db_up E d k"
  shows "\<exists>result. last (co_out c') =
      Respond (mk_response (kr_request_id (po_input msg)) result Keygen_type Done) \<and>
    retrieve_share E (co_sk c') (co_db c') result = Ok s"
proof -
  let ?g = "group_new (kr_participant_public_keys (po_input msg)) (ucast (kr_threshold (po_input msg)))
    (co_pk_str c)"
  obtain g where g: "?g = Some g"
    using ok by (cases ?g) (simp_all add: handle_output_keygen_Panic)
  have db: "save_share E (co_db c) s = (fst (save_share E (co_db c) s), Ok ())"
    using saved by (simp add: prod_eq_iff)
  have own: "own_share E (co_sk c) s"
    using id by (simp add: own_share_def share)
  have "retrieve_share E (co_sk c) (fst (save_share E (co_db c) s)) (share_key E s) = Ok s"
    by (rule shares.retrieve_after_save [OF laws own db fresh up])
  moreover have "share_key E s = hex_encode (env_crypto E) (env_lk_public_key E (po_output msg))"
    by (simp add: share_key_def share)
  ultimately show ?thesis
    using ok by (auto simp: handle_output_keygen_eq [OF g] share)
qed

theorem keygen_result_finds_share_witness:
  "\<exists>c' result. handle_output_keygen sample
      \<lparr>po_input = req_ab, po_output = (1, replicate 33 (CHR ''x''))\<rparr> node_b = (c', Ok ()) \<and>
    retrieve_share sample (co_sk c') (co_db c') result = Ok (share_ab key_b)"
proof -
  let ?msg = "\<lparr>po_input = req_ab, po_output = (1, replicate 33 (CHR ''x''))\<rparr>
    :: (keygen_request, u16 \<times> string) protocol_output"
  have "group_new (kr_participant_public_keys (po_input ?msg)) (ucast (kr_threshold (po_input ?msg)))
      (co_pk_str node_b) = Some (group_ab key_b)"
    by (simp add: req_ab_def sample_ab_id)
  note e = handle_output_keygen_eq [OF this, of sample]
  have id: "co_pk_str node_b = identity_of (env_crypto sample) (co_sk node_b)"
    by (simp add: sample_identity)
  have s: "share_ab key_b = \<lparr>sls_public_keys = kr_participant_public_keys (po_input ?msg),
      sls_own_public_key = co_pk_str node_b, sls_share = po_output ?msg\<rparr>"
    by (simp add: share_ab_def req_ab_def)
  have saved: "snd (save_share sample (co_db node_b) (share_ab key_b)) = Ok ()"
    using share_b_saved [of "co_db node_b"] by (simp add: prod_eq_iff)
  have "id (co_db node_b) (share_key sample (share_ab key_b)) = None" by simp
  from keygen_result_finds_share [OF sample_store_laws id e s saved this sample_db_up]
  show ?thesis using e by blast
qed

text \<open>C35: When an offline stage ends, a signer is started for the room, and whatever messages it
  receives, its only result is that of the first \<open>n - 1\<close> partial signatures of others, where \<open>n\<close> is
  the number of signing parties; if the hash of the request is no number, the request ends with
  the status \<open>Error\<close> instead.\<close>

theorem offline_output_starts_signer:
  assumes "es_s_l (po_input msg) \<noteq> []" and "length (es_s_l (po_input msg)) < 2 ^ 64"
  shows "case ce_from_hex E (sr_hash (es_inner (po_input msg))) of
      None \<Rightarrow> last (co_out (handle_output_offline E msg c)) =
        Respond (mk_response (sr_request_id (es_inner (po_input msg))) [] Sign_type Error) \<and>
        co_signers (handle_output_offline E msg c) = co_signers c
    | Some h \<Rightarrow> \<exists>task. st_room task = es_room (po_input msg) \<and> st_message task = h \<and>
        unat (st_t task) = length (es_s_l (po_input msg)) - 1 \<and>
        Start_signer (co_next_addr c) (signer_new (po_input msg) task)
          \<in> set (co_out (handle_output_offline E msg c)) \<and>
        co_signers (handle_output_offline E msg c) (es_room (po_input msg)) = Some (co_next_addr c) \<and>
        sn_out (signer_run SA (signer_new (po_input msg) task) msgs) =
          spec_results SA (po_input msg) task (foreign_sigs (es_i (po_input msg)) msgs)"
proof (cases "ce_from_hex E (sr_hash (es_inner (po_input msg)))")
  case None
  then show ?thesis by (simp add: handle_output_offline_eq Let_def)
next
  case (Some h)
  let ?in = "po_input msg"
  let ?task = "\<lparr>st_room = es_room ?in, st_index = es_i ?in,
    st_t = word_of_nat (length (es_s_l ?in)) - 1, st_message = h,
    st_completed_offline_stage = po_output msg\<rparr>"
  have "word_of_nat (length (es_s_l ?in)) - 1 = (word_of_nat (length (es_s_l ?in) - 1) :: usize)"
    using assms(1) by (cases "es_s_l ?in") simp_all
  then have "unat (word_of_nat (length (es_s_l ?in)) - 1 :: usize) = length (es_s_l ?in) - 1"
    using assms(2) by (simp add: unat_of_nat take_bit_nat_eq_self)
  moreover have "sn_out (signer_run SA (signer_new ?in ?task) msgs) =
      spec_results SA ?in ?task (foreign_sigs (es_i ?in) msgs)"
    using signer_run_out [of "signer_new ?in ?task" SA msgs] by (simp add: signer_new_def)
  ultimately show ?thesis
    unfolding Some option.case
    by (intro exI [of _ ?task]) (simp add: handle_output_offline_eq Let_def Some)
qed

definition input_ab :: enriched_sign_request where
  "input_ab = \<lparr>es_inner = sign_ab [key_a, key_b], es_room = ''s@x'', es_i = 2, es_s_l = [1, 2]\<rparr>"

theorem offline_output_starts_signer_witness:
  "\<exists>task. unat (st_t task) = 1 \<and> Start_signer 0 (signer_new input_ab task)
     \<in> set (co_out (handle_output_offline sample \<lparr>po_input = input_ab, po_output = ()\<rparr> node_b))"
  using offline_output_starts_signer [of "\<lparr>po_input = input_ab, po_output = ()\<rparr>" sample node_b]
  by (auto simp: input_ab_def read_digits_def byte_in_def)

text \<open>C36: A finished signature is reported as \<open>0x\<close> and 130 hexadecimal digits, from which the client
  reads back both scalars and the recovery id.\<close>

theorem signature_can_be_read_back:
  assumes "crypto_laws (env_crypto E)" and "\<And>b. length (hex_encode (env_crypto E) b) = 2 * length b"
    and "length (sg_r (po_output msg)) = 32" and "length (sg_s (po_output msg)) = 32"
  shows "\<exists>sig. last (co_out (handle_output_sign E msg c)) =
      Respond (mk_response (sr_request_id (es_inner (po_input msg))) sig Sign_type Done) \<and>
    length sig = 132 \<and> take 2 sig = ''0x'' \<and>
    hex_decode (env_crypto E) (take 64 (drop 2 sig)) = Some (sg_r (po_output msg)) \<and>
    hex_decode (env_crypto E) (take 64 (drop 66 sig)) = Some (sg_s (po_output msg)) \<and>
    hex_decode (env_crypto E) (drop 130 sig) = Some [char_of (unat (sg_recid (po_output msg)))]"
proof -
  let ?C = "env_crypto E" and ?o = "po_output msg"
  have "length (hex_encode ?C (sg_r ?o)) = 64" "length (hex_encode ?C (sg_s ?o)) = 64"
    using assms(2-4) by simp_all
  then show ?thesis
    using crypto_lawsD(1) [OF assms(1)] length_signature_hex [of ?C ?o, OF assms(2)] assms(3,4)
    by (intro exI [of _ "signature_hex ?C ?o"])
      (simp add: handle_output_sign_eq signature_hex_def)
qed

theorem signature_can_be_read_back_witness:
  "\<exists>sig. length sig = 132 \<and> last (co_out (handle_output_sign sample
      \<lparr>po_input = input_ab, po_output = \<lparr>sg_r = replicate 32 (CHR ''r''), sg_s = replicate 32 (CHR ''s''),
         sg_recid = 1\<rparr>\<rparr> node_b)) = Respond (mk_response ''s'' sig Sign_type Done)"
proof -
  have "crypto_laws (env_crypto sample)" by (simp add: plain_crypto_laws)
  moreover have "length (hex_encode (env_crypto sample) b) = 2 * length b" for b
    by (simp add: plain_crypto_def)
  ultimately show ?thesis
    using signature_can_be_read_back [of sample "\<lparr>po_input = input_ab,
        po_output = \<lparr>sg_r = replicate 32 (CHR ''r''), sg_s = replicate 32 (CHR ''s''), sg_recid = 1\<rparr>\<rparr>" node_b]
    by (auto simp: input_ab_def)
qed

section \<open>The signer and the players\<close>

text \<open>C12: A signer implements the abstract one: it broadcasts its own partial signature to its room
  when it starts, and over any sequence of messages it then sends the completion of the first \<open>t\<close>
  partial signatures of others, at most once, and nothing else.\<close>

theorem signer_refines_spec:
  "sn_out (signer_run SA (signer_started SA (signer_new input task)) msgs) =
     (case manual_new SA (st_message task) (st_completed_offline_stage task) of
        None \<Rightarrow> []
      | Some (man, own) \<Rightarrow>
          (case ps_ser SA \<lparr>m_sender = st_index task, m_receiver = None, m_body = own\<rparr> of
             None \<Rightarrow> []
           | Some text \<Rightarrow> [Signer_outgoing \<lparr>c_room = st_room task, c_message = text\<rparr>])) @
     spec_results SA input task (foreign_sigs (st_index task) msgs) \<and>
   length (spec_results SA input task (foreign_sigs (st_index task) msgs)) \<le> 1"
proof
  let ?s = "signer_started SA (signer_new input task)"
  have "sn_out ?s =
     (case manual_new SA (st_message task) (st_completed_offline_stage task) of
        None \<Rightarrow> []
      | Some (man, own) \<Rightarrow>
          (case ps_ser SA \<lparr>m_sender = st_index task, m_receiver = None, m_body = own\<rparr> of
             None \<Rightarrow> []
           | Some text \<Rightarrow> [Signer_outgoing \<lparr>c_room = st_room task, c_message = text\<rparr>]))"
    by (simp add: signer_started_def send_my_partial_signature_def signer_new_def
        split: option.split prod.split)
  moreover have "sn_out (signer_run SA ?s msgs) =
      sn_out ?s @ spec_results SA input task (foreign_sigs (st_index task) msgs)"
    using signer_run_out [of ?s SA msgs] by (simp add: signer_new_def)
  ultimately show "sn_out (signer_run SA ?s msgs) =
     (case manual_new SA (st_message task) (st_completed_offline_stage task) of
        None \<Rightarrow> []
      | Some (man, own) \<Rightarrow>
          (case ps_ser SA \<lparr>m_sender = st_index task, m_receiver = None, m_body = own\<rparr> of
             None \<Rightarrow> []
           | Some text \<Rightarrow> [Signer_outgoing \<lparr>c_room = st_room task, c_message = text\<rparr>])) @
     spec_results SA input task (foreign_sigs (st_index task) msgs)"
    by simp
qed (rule spec_results_at_most_one)

lemma player_started_new [simp]:
  "pl_input (player_started (player_new input room index sm)) = input"
  "pl_room (player_started (player_new input room index sm)) = room"
  "pl_index (player_started (player_new input room index sm)) = index"
  "pl_msg_count (player_started (player_new input room index sm)) = 0"
  by (simp_all add: player_started_def player_new_def)

text \<open>C31: For a message of another party, to it or to all, a player sends, in this order: the error of
  the state machine if it rejects the message; what the machine had queued; what it queued by
  proceeding and then its result, or else the error of proceeding. Any other message has no
  effect at all. An error of the output itself is sent to nobody.\<close>

theorem player_answers_message:
  "pl_out (player_handle_message SM now msg p) =
     pl_out p @
     (if m_sender (im_message msg) \<noteq> pl_index p \<and>
         (case m_receiver (im_message msg) of None \<Rightarrow> True | Some r \<Rightarrow> r = pl_index p)
      then (let (s, accepted) = sm_handle_incoming SM (pl_state p) (im_message msg);
                (s', proceeded) = sm_step SM (sm_drained SM s) in
            error_out (pl_room p) msg accepted @
            queue_out SM (pl_room p) s @
            (case proceeded of
               Inl e \<Rightarrow> [To_coordinator \<lparr>pe_room = pl_room p, pe_error = e, pe_message = msg\<rparr>]
             | Inr _ \<Rightarrow> queue_out SM (pl_room p) s' @
                 result_out (pl_input p) (sm_result SM (sm_drained SM s'))))
      else [])"
proof -
  have acc: "accepts (pl_index p) (im_message msg) \<longleftrightarrow> m_sender (im_message msg) \<noteq> pl_index p \<and>
      (case m_receiver (im_message msg) of None \<Rightarrow> True | Some r \<Rightarrow> r = pl_index p)"
    by (auto simp: accepts_def split: option.split)
  show ?thesis
    unfolding acc [symmetric]
  proof (cases "accepts (pl_index p) (im_message msg)")
    case True
    then show "pl_out (player_handle_message SM now msg p) = pl_out p @
      (if accepts (pl_index p) (im_message msg)
       then (let (s, accepted) = sm_handle_incoming SM (pl_state p) (im_message msg);
                (s', proceeded) = sm_step SM (sm_drained SM s) in
            error_out (pl_room p) msg accepted @ queue_out SM (pl_room p) s @
            (case proceeded of
               Inl e \<Rightarrow> [To_coordinator \<lparr>pe_room = pl_room p, pe_error = e, pe_message = msg\<rparr>]
             | Inr _ \<Rightarrow> queue_out SM (pl_room p) s' @
                 result_out (pl_input p) (sm_result SM (sm_drained SM s'))))
       else [])"
      by (simp add: player_handle_message_out [OF True refl] proceed_out_def
          error_out_def split: prod.split sum.split)
  qed (simp add: player_handle_message_ignored)
qed

text \<open>C32: Over its whole run, whatever arrives, a player keeps its request, its room and its index; the
  errors and the messages for the others that it sends carry its room, its results carry its request,
  it gives nothing but outgoing messages to the broker, sets only timers of 250 ms, and counts, modulo
  2^16, the messages it took.\<close>

theorem player_run_well_addressed:
  "let p = player_run SM (player_started (player_new input room index sm)) es in
   pl_input p = input \<and> pl_room p = room \<and> pl_index p = index \<and>
   list_all (well_addressed input room) (pl_out p) \<and>
   pl_msg_count p = word_of_nat (length (filter (accepted_event index) es))"
proof -
  let ?p0 = "player_started (player_new input room index sm)"
  show ?thesis
    using player_run_frame [of ?p0 SM es] player_run_inv [OF player_inv_started, of SM input room index sm es]
      player_run_msg_count [of SM ?p0 es]
    by (simp add: Let_def player_frame_def player_inv_def)
qed

text \<open>A player polls its machine, every 250 ms, exactly until it has taken a message; then a poll has
  no effect, as long as fewer than 2^16 messages were taken.\<close>

lemma polling_ends_with_first_message:
  assumes "p = player_run SM (player_started (player_new input room index sm)) es"
    and "n = length (filter (accepted_event index) es)" and "n < 65536"
  shows "player_step SM p (Polled now) =
    (if n = 0 then player_emit [Later_maybe_proceed 250] (fst (maybe_proceed SM now p)) else p)"
proof -
  let ?p0 = "player_started (player_new input room index sm)"
  have "pl_msg_count p = word_of_nat n"
    using player_run_msg_count [of SM ?p0 es] assms(1,2) by simp
  moreover have "(word_of_nat n :: u16) = 0 \<longleftrightarrow> n = 0"
    using assms(3) by (auto simp: word_of_nat_eq_0_iff dest: dvd_imp_le)
  ultimately show ?thesis
    by (simp add: player_handle_maybe_proceed_def)
qed

end
