(* ===== verification/Properties_Service.thy ===== *)
theory Properties_Service
  imports Properties_Data Server Messenger_Facts
begin

text \<open>
  Properties of the gRPC service with its database of results, of the start-up, and of the message
  broker.
\<close>

section \<open>The service\<close>

text \<open>C20: What a client is told about a request is the last response that was reported for its id, if
  the id is not known from before, and \<open>Not found\<close> if there was none.\<close>

theorem check_result_is_last_response:
  assumes "results_laws E view" and "view db (cq_request_id req) = None"
  shows "check_result E req (s\<lparr>mi_results_db := handle_response E db rs\<rparr>) =
    (case filter (\<lambda>r. cr_request_id r = cq_request_id req) rs of
       [] \<Rightarrow> Err (Not_found ''Not found'')
     | r # rest \<Rightarrow> Ok (last (r # rest)))"
  using check_result_after [OF assms(1) disjI1 [OF assms(2)]]
  by (simp add: last_response_def Let_def split: list.split)

lemma sample_results_laws: "results_laws sample id"
  using sample_json_laws
  by (simp add: results_laws_def results_up_def json_laws_def map_sled_laws)
    (simp add: map_sled_def result_codec_def)

theorem check_result_is_last_response_witness:
  "check_result sample \<lparr>cq_request_id = ''r''\<rparr> (mpc_imp_new (handle_response sample Map.empty
      [mk_response ''r'' [] Keygen_type Received, mk_response ''s'' [] Sign_type Received,
       mk_response ''r'' ''pk'' Keygen_type Done])) = Ok (mk_response ''r'' ''pk'' Keygen_type Done)"
proof -
  let ?rs = "[mk_response ''r'' [] Keygen_type Received, mk_response ''s'' [] Sign_type Received,
    mk_response ''r'' ''pk'' Keygen_type Done]"
  have "mpc_imp_new (handle_response sample Map.empty ?rs) =
      (mpc_imp_new Map.empty)\<lparr>mi_results_db := handle_response sample Map.empty ?rs\<rparr>"
    by (simp add: mpc_imp_new_def)
  with check_result_is_last_response [OF sample_results_laws, where db = Map.empty and rs = ?rs
      and req = "\<lparr>cq_request_id = ''r''\<rparr>" and s = "mpc_imp_new Map.empty"]
  show ?thesis by (simp del: handle_response.simps)
qed

text \<open>A request is accepted if and only if its id is not in the database, the hash is a number, and
  the coordinator still takes requests. It is then reported as received and handed over; a request
  refused for its id or its hash leaves no trace, and one refused because the coordinator is gone
  remains reported as received.\<close>

lemma sign_outcomes:
  "(case snd (sign E req s) of
      Ok resp \<Rightarrow> \<not> already_exists E s (sr_request_id req) \<and> ce_from_hex E (sr_hash req) \<noteq> None \<and>
        mi_tx_open s \<and> sresp_request_id resp = sr_request_id req \<and>
        mi_tx (fst (sign E req s)) = mi_tx s @ [Sign_request req]
    | Err (Already_exists _) \<Rightarrow> already_exists E s (sr_request_id req) \<and> fst (sign E req s) = s
    | Err (Invalid_argument _) \<Rightarrow> \<not> already_exists E s (sr_request_id req) \<and>
        ce_from_hex E (sr_hash req) = None \<and> fst (sign E req s) = s
    | Err (Internal _) \<Rightarrow> \<not> already_exists E s (sr_request_id req) \<and> \<not> mi_tx_open s \<and>
        fst (sign E req s) = tx_res_send (mk_response (sr_request_id req) [] Sign_type Received) s
    | Err (Not_found _) \<Rightarrow> False
    | Panic \<Rightarrow> False) \<and>
   (if is_ok (snd (sign E req s)) \<and> mi_tx_res_open s
    then mi_tx_res (fst (sign E req s)) =
      mi_tx_res s @ [mk_response (sr_request_id req) [] Sign_type Received] else True)"
  by (auto simp: sign_cases tx_res_send_def)

text \<open>C38: The id of a request is taken as soon as a response for it has been stored: both calls refuse
  it from then on and change nothing. Before that, two requests with one id are both accepted.\<close>

theorem request_id_taken_once_stored:
  assumes laws: "results_laws E view" and contains: "\<And>d k. sled_contains_key (env_sled E) d k \<noteq> None"
    and s: "s = s0\<lparr>mi_results_db := handle_response E db rs\<rparr>"
    and known: "rid \<in> cr_request_id ` set rs"
    and first: "view (mi_results_db s0) rid = None" and tx: "mi_tx_open s0"
    and ids: "kr_request_id k1 = rid" "kr_request_id k2 = rid" "sr_request_id r1 = rid"
  shows "fst (keygen E k1 s) = s \<and> fst (sign E r1 s) = s \<and>
    \<not> is_ok (snd (keygen E k1 s)) \<and> \<not> is_ok (snd (sign E r1 s)) \<and>
    is_ok (snd (keygen E k1 s0)) \<and> is_ok (snd (keygen E k2 (fst (keygen E k1 s0)))) \<and>
    mi_tx (fst (keygen E k2 (fst (keygen E k1 s0)))) = mi_tx s0 @ [Keygen_request k1, Keygen_request k2]"
proof -
  have sl: "sled_laws (env_sled E) view"
    using laws by (simp only: results_laws_def)
  from known obtain r where "last_response rid rs = Some r"
    by (force simp: last_response_def Let_def filter_empty_conv)
  then have "view (handle_response E db rs) rid \<noteq> None"
    using laws by (simp add: handle_response_view [OF laws] results_laws_def results_up_def)
  then have "already_exists E s rid"
    using already_exists_view [OF sl contains, of s rid] s by simp
  then have a: "fst (keygen E k1 s) = s \<and> fst (sign E r1 s) = s \<and>
    \<not> is_ok (snd (keygen E k1 s)) \<and> \<not> is_ok (snd (sign E r1 s))"
    using ids by (simp add: keygen_cases sign_cases)
  have n: "\<not> already_exists E s0 rid"
    using already_exists_view [OF sl contains, of s0 rid] first by simp
  let ?s1 = "fst (keygen E k1 s0)"
  have s1: "mi_results_db ?s1 = mi_results_db s0" "mi_tx ?s1 = mi_tx s0 @ [Keygen_request k1]"
    "mi_tx_open ?s1" "is_ok (snd (keygen E k1 s0))"
    using n tx ids by (simp_all add: keygen_cases tx_res_send_def)
  then have "\<not> already_exists E ?s1 rid"
    using n by (simp add: already_exists_def)
  then have "is_ok (snd (keygen E k2 ?s1))" "mi_tx (fst (keygen E k2 ?s1)) = mi_tx ?s1 @ [Keygen_request k2]"
    using s1(3) ids by (simp_all add: keygen_cases)
  with a s1 show ?thesis by simp
qed

theorem request_id_taken_once_stored_witness:
  "\<exists>s. mi_tx (fst (keygen sample \<lparr>kr_request_id = ''r'', kr_participant_public_keys = [], kr_threshold = 1\<rparr>
     (fst (keygen sample \<lparr>kr_request_id = ''r'', kr_participant_public_keys = [], kr_threshold = 1\<rparr> s)))) =
     [Keygen_request \<lparr>kr_request_id = ''r'', kr_participant_public_keys = [], kr_threshold = 1\<rparr>,
      Keygen_request \<lparr>kr_request_id = ''r'', kr_participant_public_keys = [], kr_threshold = 1\<rparr>]"
proof -
  let ?k = "\<lparr>kr_request_id = ''r'', kr_participant_public_keys = [], kr_threshold = 1\<rparr>"
  let ?r = "\<lparr>sr_request_id = ''r'', sr_participant_public_keys = [], sr_public_key = [], sr_hash = []\<rparr>"
  have c: "sled_contains_key (env_sled sample) d k \<noteq> None" for d k
    by (simp add: map_sled_def)
  have "''r'' \<in> cr_request_id ` set [mk_response ''r'' [] Keygen_type Received]" by simp
  from request_id_taken_once_stored [OF sample_results_laws c refl this, of "mpc_imp_new Map.empty" ?k ?k ?r]
  show ?thesis by (intro exI [of _ "mpc_imp_new Map.empty"]) (simp add: mpc_imp_new_def)
qed

section \<open>The message broker\<close>

text \<open>C30: However its tasks interleave, the subscriber count of every room is, modulo 2^16, the number
  of its open streams; in particular a room without streams counts as abandoned.\<close>

theorem subscribers_are_counted:
  assumes "world_reachable w" and "a < length (bk_heap (wd_db w))"
  shows "ro_subscribers (bk_heap (wd_db w) ! a) = word_of_nat (open_streams a (wd_streams w)) \<and>
    (is_abandoned (bk_heap (wd_db w) ! a) \<longleftrightarrow> 65536 dvd open_streams a (wd_streams w))"
  using world_inv_reachable [OF assms(1)] assms(2)
  by (simp add: world_inv_def is_abandoned_def word_of_nat_eq_0_iff)

text \<open>Two subscribers, one after the other, and a broadcast.\<close>

definition world_ab :: world where
  "world_ab = fold run_task [0, 0, 0, 1, 1, 2, 2] (arrived [For_subscribe None, For_subscribe None,
     For_broadcast ''hi''])"

lemma reachable_ab: "world_reachable world_ab"
  unfolding world_ab_def by (rule reachable_run_tasks [OF reachable_arrived]) (simp add: arrived_def)

lemma world_ab_eq: "world_ab =
  \<lparr>wd_db = \<lparr>bk_heap = [\<lparr>ro_messages = [''hi''], ro_subscribers = 2, ro_next_idx = 1\<rparr>],
     bk_rooms = [ROOM_ID \<mapsto> 0]\<rparr>, wd_tasks = [Finished, Finished, Finished],
   wd_streams = [new_stream \<lparr>sub_room = 0, sub_next_event = 0\<rparr>,
     new_stream \<lparr>sub_room = 0, sub_next_event = 0\<rparr>]\<rparr>"
  by (simp add: world_ab_def arrived_def world_empty_def run_task_def find_room_def enter_room_def
      db_empty_def alloc_def room_empty_def room_subscribe_def update_room_def publish_def
      is_abandoned_def)

theorem subscribers_are_counted_witness:
  "ro_subscribers (bk_heap (wd_db world_ab) ! 0) = 2 \<and> open_streams 0 (wd_streams world_ab) = 2"
proof -
  have "0 < length (bk_heap (wd_db world_ab))" by (simp add: world_ab_eq)
  from subscribers_are_counted [OF reachable_ab this] show ?thesis
    by (simp add: world_ab_eq open_streams_def reads_def new_stream_def)
qed

text \<open>C15: However its tasks interleave, a stream has yielded a gapless segment of the messages of its
  room, in the order in which they were published and under their numbers, from where it began; and
  when it waits, it has yielded all of them. This holds as long as the room has fewer than 2^16
  messages.\<close>

theorem stream_is_lossless:
  assumes "world_reachable w" and "l \<in> set (wd_streams w)"
    and "msgs = ro_messages (bk_heap (wd_db w) ! sub_room (lv_sub l))" and "length msgs < 65536"
  shows "map snd (lv_got l) = take (length (lv_got l)) (drop (lv_from l) msgs) \<and>
    map fst (lv_got l) = map word_of_nat [lv_from l..<lv_from l + length (lv_got l)] \<and>
    (next_event (lv_sub l) (wd_db w) = None \<longrightarrow> lv_from l + length (lv_got l) < 65536 \<longrightarrow>
       map snd (lv_got l) = drop (lv_from l) msgs)"
proof -
  from world_inv_reachable [OF assms(1)] assms(2)
  have ok: "stream_ok l msgs" and start: "lv_from l < 65536"
    unfolding world_inv_def assms(3) by blast+
  note seg = stream_ok_segment [OF ok assms(4) start]
  note waiting_stream_has_all [OF ok assms(4) start _ assms(3)]
  with seg(1,2) show ?thesis by blast
qed

theorem stream_is_lossless_witness:
  "map snd (lv_got (wd_streams world_ab ! 0)) = take 0 [''hi'']"
proof -
  have "wd_streams world_ab ! 0 \<in> set (wd_streams world_ab)"
    by (simp add: world_ab_eq)
  from stream_is_lossless [OF reachable_ab this refl] show ?thesis
    by (simp add: world_ab_eq new_stream_def)
qed

text \<open>A room with a stream stays the room of the program: no step of any task replaces it, so that
  everything broadcast by a task that looks for the room meanwhile goes to it.\<close>

lemma watched_room_stays:
  assumes "world_step w w'" and "bk_rooms (wd_db w) ROOM_ID = Some a"
    and "ro_subscribers (bk_heap (wd_db w) ! a) \<noteq> 0"
  shows "bk_rooms (wd_db w') ROOM_ID = Some a \<and>
    find_room ROOM_ID (wd_db w) = Some a \<and> enter_room ROOM_ID (wd_db w) = (wd_db w, a)"
proof -
  have "\<not> is_abandoned (bk_heap (wd_db w) ! a)"
    using assms(3) by (simp add: is_abandoned_def)
  with step_keeps_room [OF assms(1,2)] find_or_enter_keeps [OF assms(2)] assms(2) show ?thesis
    by (simp add: find_room_def)
qed

text \<open>A message that is broadcast while nobody is subscribed is lost: whoever subscribes next gets a
  new room, without it.\<close>

lemma broadcast_without_subscriber_is_lost:
  assumes "abandoned ROOM_ID db" and "last_event_id header = Inr last_seen"
  shows "\<exists>s. snd (subscribe header (fst (broadcast message db))) = Inr s \<and>
    ro_messages (bk_heap (fst (subscribe header (fst (broadcast message db)))) ! sub_room s) = []"
proof -
  let ?n = "length (bk_heap db)"
  let ?db1 = "fst (broadcast message db)"
  have db1: "?db1 = \<lparr>bk_heap = bk_heap db @ [\<lparr>ro_messages = [message], ro_subscribers = 0, ro_next_idx = 1\<rparr>],
      bk_rooms = (bk_rooms db)(ROOM_ID \<mapsto> ?n)\<rparr>"
    using assms(1)
    by (simp add: broadcast_def get_room_eq_enter_room enter_room_cases publish_def update_room_def
        room_empty_def)
  then have "abandoned ROOM_ID ?db1"
    by (simp add: abandoned_def is_abandoned_def)
  then show ?thesis
    using assms(2)
    by (simp add: subscribe_def get_room_eq_enter_room enter_room_cases room_subscribe_def
        update_room_def room_empty_def)
qed

text \<open>C29: Two servers that subscribe at the same time, when nobody else is subscribed, may end up in two
  rooms: the first is then subscribed to a room that is no longer in the map, and nothing that is
  ever broadcast afterwards reaches it.\<close>

theorem concurrent_subscribers_may_part:
  "\<exists>w l. world_reachable w \<and> l \<in> set (wd_streams w) \<and> lv_open l \<and>
     bk_rooms (wd_db w) ROOM_ID \<noteq> None \<and> bk_rooms (wd_db w) ROOM_ID \<noteq> Some (sub_room (lv_sub l)) \<and>
     (\<forall>w'. world_step\<^sup>*\<^sup>* w w' \<longrightarrow> ro_messages (bk_heap (wd_db w') ! sub_room (lv_sub l)) = [])"
proof -
  let ?w = "fold run_task [0, 1, 0, 1, 0, 1] (arrived [For_subscribe None, For_subscribe None])"
  let ?l = "new_stream \<lparr>sub_room = 0, sub_next_event = 0\<rparr>"
  let ?v = "\<lparr>wd_db = \<lparr>bk_heap = [\<lparr>ro_messages = [], ro_subscribers = 1, ro_next_idx = 1\<rparr>,
        \<lparr>ro_messages = [], ro_subscribers = 1, ro_next_idx = 1\<rparr>], bk_rooms = [ROOM_ID \<mapsto> 1]\<rparr>,
      wd_tasks = [Finished, Finished],
      wd_streams = [?l, new_stream \<lparr>sub_room = 1, sub_next_event = 0\<rparr>]\<rparr>"
  have w: "?w = ?v"
    by (simp add: arrived_def world_empty_def run_task_def find_room_def enter_room_def
      db_empty_def alloc_def room_empty_def room_subscribe_def update_room_def publish_def
      is_abandoned_def)
  have r: "world_reachable ?v"
    unfolding w [symmetric] by (rule reachable_run_tasks [OF reachable_arrived]) (simp add: arrived_def)
  have d: "deserted 0 ?v"
    by (simp add: deserted_def)
  have silent: "ro_messages (bk_heap (wd_db w') ! 0) = []" if "world_step\<^sup>*\<^sup>* ?v w'" for w'
    using deserted_steps [OF that d] by simp
  show ?thesis
    by (rule exI [of _ ?v], rule exI [of _ ?l]) (use r silent in \<open>simp add: new_stream_def\<close>)
qed

theorem concurrent_subscribers_may_part_witness:
  "\<exists>w l. world_reachable w \<and> l \<in> set (wd_streams w) \<and> lv_open l \<and>
     ro_messages (bk_heap (wd_db (w\<lparr>wd_tasks := wd_tasks w @ [Enter (For_broadcast ''x'')]\<rparr>)) !
       sub_room (lv_sub l)) = []"
proof -
  have "world_step\<^sup>*\<^sup>* w (w\<lparr>wd_tasks := wd_tasks w @ [Enter (For_broadcast ''x'')]\<rparr>)" for w
    by (rule r_into_rtranclp) (rule world_step.arrive)
  with concurrent_subscribers_may_part show ?thesis by blast
qed

text \<open>The number of the next event is 16 bits wide: after the event 65535 a stream goes back to the
  beginning of the room and yields its messages again.\<close>

lemma stream_wraps_around:
  assumes "65536 \<le> length (ro_messages (bk_heap db ! sub_room s))"
    and "sub_next_event s = 65535"
  shows "\<exists>s'. next_event s db = Some (s', 65535, ro_messages (bk_heap db ! sub_room s) ! 65535) \<and>
    (\<exists>s''. next_event s' db = Some (s'', 0, ro_messages (bk_heap db ! sub_room s) ! 0))"
proof -
  have "(65535 :: u16) + 1 = 0" by simp
  moreover have "ro_messages (bk_heap db ! sub_room s) \<noteq> []"
    using assms(1) by auto
  ultimately show ?thesis
    using assms by (simp add: next_event_def Let_def)
qed

text \<open>A client that comes back with the id of the last event it saw, as the stream printed it, goes on
  with the next one; an id that is no 16-bit number is refused.\<close>

lemma resume_after_last_event:
  "last_event_id (Some (ev_id (stream_event (n, text)))) = Inr (Some n) \<and>
   sub_next_event (snd (room_subscribe a (Some n) db)) = n + 1 \<and>
   (last_event_id (Some header) = Inl 400 \<longleftrightarrow> parse_u16 header = None) \<and>
   parse_u16 [] = None \<and> parse_u16 ''65536'' = None"
proof -
  have "parse_u16 [] = None" "parse_u16 ''65536'' = None"
    by (simp_all add: parse_u16_def digit_value_def byte_in_def)
  moreover have "last_event_id (Some header) = Inl 400 \<longleftrightarrow> parse_u16 header = None"
    by (simp add: last_event_id_def split: option.split)
  ultimately show ?thesis
    by (simp add: last_event_id_def stream_event_def parse_u16_to_decimal room_subscribe_def)
qed

end
