(* ===== verification/Properties_Startup.thy ===== *)
theory Properties_Startup
  imports Properties_Protocols Properties_Service Startup
begin

text \<open>
  Properties of the start of the programs and of the transports: joining, the sinks, and what the
  broker does with what the servers ask of it.
\<close>

section \<open>The start of the server\<close>

text \<open>C39: When \<open>main\<close> gets past its start, exactly one message queue is configured and the service starts
  with empty channels over the results that were opened. The coordinator's thread, which it does not wait
  for, panics only if the secret key or the database of shares cannot be had, ends at once only if the
  queue cannot be joined, and otherwise hands every request to a new coordinator, in order.\<close>

theorem server_start:
  assumes "server_main w E fs dk results_opened shares_opened args rx = Ok (imp, boot)"
    and "keys = get_secret_key (env_crypto E) fs dk (cli_keystore_path args) (cli_password_path args)"
  shows "(\<exists>db. results_opened = Some db \<and> imp = mpc_imp_new db) \<and>
    (cli_messenger_address args = None \<longleftrightarrow> cli_redis_url args \<noteq> None) \<and>
    (case boot of
       Panic \<Rightarrow> \<not> is_ok keys \<or> shares_opened = None
     | Err e \<Rightarrow> False
     | Ok None \<Rightarrow> is_ok keys \<and> shares_opened \<noteq> None \<and> \<not> queue_up w args
     | Ok (Some (c, handed)) \<Rightarrow> queue_up w args \<and> handed = map handle rx \<and>
         (\<exists>sk pk db. keys = Ok (sk, pk) \<and> shares_opened = Some db \<and> c = coordinator_new E sk db))"
proof -
  let ?w = "case keys of Ok (sk, _) \<Rightarrow> joins E w sk | _ \<Rightarrow> nw_outside w"
  have pre: "precheck (nw_outside w) args = Ok ()"
    using assms(1) by (cases "precheck (nw_outside w) args") (auto simp: server_main_def and_then_eq_Ok)
  from assms obtain db where db: "results_opened = Some db" "imp = mpc_imp_new db"
    and boot: "boot = bootstrap ?w E fs dk shares_opened args rx"
    by (auto simp: server_main_def and_then_eq_Ok Let_def pre)
  from pre have "precheck ?w args = Ok ()" by (simp split: outcome.split)
  from prechecked_bootstrap [OF this assms(2)]
  have started: "(cli_messenger_address args = None \<longleftrightarrow> cli_redis_url args \<noteq> None) \<and>
    (case boot of
       Panic \<Rightarrow> \<not> is_ok keys \<or> shares_opened = None
     | Err e \<Rightarrow> False
     | Ok None \<Rightarrow> is_ok keys \<and> shares_opened \<noteq> None
     | Ok (Some (c, handed)) \<Rightarrow> handed = map handle rx \<and>
         (\<exists>sk pk db. keys = Ok (sk, pk) \<and> shares_opened = Some db \<and> c = coordinator_new E sk db))"
    unfolding boot .
  have "r = None \<longleftrightarrow> \<not> queue_up w args" if "boot = Ok r" for r
  proof -
    from that started have "is_ok keys" by (cases r) (auto simp: is_ok_iff)
    then obtain sk pk where k: "keys = Ok (sk, pk)" by (auto simp: is_ok_iff)
    with boot that have "bootstrap (joins E w sk) E fs dk shares_opened args rx = Ok r" by simp
    then show ?thesis by (rule bootstrap_joined [OF k [unfolded assms(2)]])
  qed
  with db started show ?thesis by (auto split: outcome.splits option.splits)
qed

definition cli_ab :: cli where
  "cli_ab = \<lparr>cli_messenger_address = None, cli_redis_url = Some ''redis'', cli_address = [],
     cli_port = 8080, cli_keystore_path = ''ks'', cli_password_path = ''pw'', cli_db_path = ''db''\<rparr>"

definition outside_ab :: outside where
  "outside_ab = \<lparr>os_url_join = (\<lambda>u p. Some (u @ p)), os_http_get = (\<lambda>u. True),
     os_redis_open = (\<lambda>u. True), os_redis_connect = (\<lambda>u. True), os_join_messenger = (\<lambda>u. True),
     os_join_redis = (\<lambda>u. True)\<rparr>"


definition network_ab :: network where
  "network_ab = \<lparr>nw_outside = outside_ab, nw_accepts = (\<lambda>u. True), nw_subscribe = Some 200,
     nw_redis = \<lparr>rr_open = (\<lambda>u. True), rr_connection = True, rr_pubsub_connection = True,
       rr_subscribed = True\<rparr>\<rparr>"

definition files_ab :: file_system where
  "files_ab = \<lparr>fs_mode = (\<lambda>p. Some 0x100), fs_read_to_string = (\<lambda>p. Some ''pw'')\<rparr>"

theorem server_start_witness:
  "queue_up network_ab cli_ab \<and> (\<exists>c :: sample_coordinator.
     server_main network_ab sample files_ab (\<lambda>k p. Some sk_b) (Some Map.empty) (Some Map.empty) cli_ab
       [Keygen_request req_ab] = Ok (mpc_imp_new Map.empty, Ok (Some (c, [handle (Keygen_request req_ab)]))))"
proof -
  have keys: "get_secret_key (env_crypto sample) files_ab (\<lambda>k p. Some sk_b) (cli_keystore_path cli_ab)
      (cli_password_path cli_ab) = Ok (sk_b, sk_b)"
    by (simp add: get_secret_key_def files_ab_def plain_crypto_def Let_def)
  have pre: "precheck (nw_outside network_ab) cli_ab = Ok ()"
    by (simp add: precheck_def network_ab_def outside_ab_def cli_ab_def)
  have "os_join_redis (joins sample network_ab sk_b) url" for url
    by (simp add: joins_up network_ab_def)
  then have "bootstrap (joins sample network_ab sk_b) sample files_ab (\<lambda>k p. Some sk_b) (Some Map.empty) cli_ab
      [Keygen_request req_ab] = Ok (Some (node_b, [handle (Keygen_request req_ab)]))"
    unfolding bootstrap_def keys by (simp add: cli_ab_def serve_requests_def node_b_def)
  then have "server_main network_ab sample files_ab (\<lambda>k p. Some sk_b) (Some Map.empty) (Some Map.empty) cli_ab
      [Keygen_request req_ab] = Ok (mpc_imp_new Map.empty,
        Ok (Some (node_b, [handle (Keygen_request req_ab)])))"
    unfolding server_main_def keys by (simp add: pre)
  with server_start [OF this refl] show ?thesis by auto
qed

section \<open>The sinks\<close>

text \<open>When a message cannot be sent, because the messenger does not answer or Redis refuses it, the
  sink has lost its client: no later message is ever sent, whether or not the network recovers, and the
  next one panics.\<close>

lemma failed_send_ends:
  assumes "later \<noteq> []" and "later' \<noteq> []"
  shows "sink_run (unfold_messenger E) (sent @ (None, m) # later) (Some st) =
     (fst (sink_run (unfold_messenger E) (sent @ [(None, m)]) (Some st)), Panic) \<and>
   sink_run (unfold_redis E) (sent' @ (False, m) # later') (Some st') =
     (fst (sink_run (unfold_redis E) (sent' @ [(False, m)]) (Some st')), Panic)"
  using assms by (intro conjI messenger_sink.panics_after_failure redis_sink.panics_after_failure) simp_all

text \<open>C18: A server cannot tell the two transports apart: for the same messages, and the network up for
  the same ones, it posts and publishes the same texts; and from the same texts that others sent, texts
  that are not UTF-8 included, it receives the same messages.\<close>

theorem transports_equivalent:
  "map posted_text (fst (sink_run (unfold_messenger E) (map (\<lambda>(up, m). (if up then Some 200 else None, m)) rms)
       (Some (link_of E url key)))) =
     map published_text (fst (sink_run (unfold_redis E) rms (Some (link_of E (redis_client_of url') key)))) \<and>
   messenger_incoming E own (map (\<lambda>t. Some (Sse_message t)) texts) =
     redis_incoming E own (map (\<lambda>t. if valid_utf8 t then Some t else None) texts)"
  using same_sends [where status = 200 and st = "Some ()"] by (simp add: same_arrivals)

text \<open>C25: A text over the broker's limit of 100 MB is refused: no room changes and nobody receives it,
  but the server that posted it, which does not look at the status, takes it as sent.\<close>

theorem oversized_broadcast_is_lost:
  assumes "outgoing_text E (ln_key st) (ln_pub_key st) m = Ok text" and "string_limit < length text"
  shows "\<exists>request. unfold_messenger E (Some status) st m = ([request], Ok st) \<and>
    broker_serve header request db = (db, Refused)"
  using assms by (simp add: unfold_messenger_def client_routes surf_reply_def)

definition huge :: core_message where
  "huge = \<lparr>c_room = ''r'', c_message = replicate string_limit (CHR ''x'')\<rparr>"

theorem oversized_broadcast_is_lost_witness:
  "\<exists>request. unfold_messenger sample (Some 413) (link_of sample ''url'' sk_a) huge =
      ([request], Ok (link_of sample ''url'' sk_a)) \<and>
    broker_serve None request db_empty = (db_empty, Refused)"
proof -
  let ?w = "signed_wire sample sk_a huge"
  let ?t = "enc_list [w_room ?w, w_payload ?w, w_sender_public_key ?w, w_signature ?w]"
  have "ascii (w_room ?w)" "ascii (w_payload ?w)" "ascii (w_sender_public_key ?w)" "ascii (w_signature ?w)"
    by (simp_all add: signed_wire_def Let_def identity_of_def plain_crypto_def huge_def sk_a_def)
  then have "ser wire_codec ?w = Some ?t"
    using utf8_enc_list [of "[w_room ?w, w_payload ?w, w_sender_public_key ?w, w_signature ?w]"]
    by (simp add: wire_codec_def Let_def)
  then have posted: "outgoing_text sample (ln_key (link_of sample ''url'' sk_a))
      (ln_pub_key (link_of sample ''url'' sk_a)) huge = Ok ?t"
    unfolding link_of_simps outgoing_text_Ok_iff [OF sample_transport_laws] by simp
  have "string_limit < length ?t" by (simp add: enc_list_def huge_def length_enc_str)
  from oversized_broadcast_is_lost [OF posted this] show ?thesis .
qed

end
