(* ===== verification/Properties_Whole.thy ===== *)
theory Properties_Whole
  imports Properties_Protocols Properties_Service Typed_Store Whole_Panic
begin

text \<open>
  Properties of the whole server: its service, coordinator and actors running together. The sample
  run is that of server B, which is asked for a key, generates it with machines that finish at
  once, and stores the three responses.
\<close>

section \<open>A sample run\<close>

text \<open>A machine that gives the one output \<open>x\<close> when it is first polled; \<open>used\<close> is its state from then on.\<close>

definition one_shot :: "'o \<Rightarrow> 'sm \<Rightarrow> ('sm \<Rightarrow> bool) \<Rightarrow> ('sm, string, 'o) sm_api" where
  "one_shot x used spent =
     \<lparr>sm_handle_incoming = \<lambda>s m. (s, Inr ()), sm_wants_to_proceed = \<lambda>s. False,
      sm_proceed = \<lambda>s. (s, Inr ()), sm_queue = \<lambda>s. [], sm_drained = \<lambda>s. s,
      sm_is_finished = \<lambda>s. \<not> spent s,
      sm_pick_output = \<lambda>s. (if spent s then (s, None) else (used, Some (Inr x))),
      sm_current_round = \<lambda>s. 0, sm_round_timeout = \<lambda>s. None, sm_msg_ser = \<lambda>m. None\<rparr>"

lemma one_shot_picks_once: "spent used \<Longrightarrow> picks_once (one_shot x used spent) spent"
  by (simp add: picks_once_def one_shot_def)

definition key_share :: "u16 \<times> string" where
  "key_share = (1, replicate 33 (CHR ''x''))"

definition kg_spent :: "u16 \<times> u16 \<times> u16 \<Rightarrow> bool" where "kg_spent s \<longleftrightarrow> fst s = 0"
definition off_spent :: "u16 \<times> u16 list \<Rightarrow> bool" where "off_spent s \<longleftrightarrow> fst s = 0"

definition machines_ab :: "(u16 \<times> string, u16 \<times> u16 \<times> u16, string, u16 \<times> u16 list, string, unit, unit, string) machines" where
  "machines_ab =
     \<lparr>mc_keygen = one_shot key_share (0, 0, 0) kg_spent, mc_offline = one_shot () (0, []) off_spent,
      mc_sign = \<lparr>manual_new = \<lambda>h c. None, manual_complete = \<lambda>m ps. None, ps_ser = \<lambda>m. None\<rparr>\<rparr>"

lemma machines_ab_laws:
  "picks_once (mc_keygen machines_ab) kg_spent" "picks_once (mc_offline machines_ab) off_spent"
  by (simp_all add: machines_ab_def one_shot_picks_once kg_spent_def off_spent_def)

type_synonym sample_whole =
  "(string \<rightharpoonup> string, string, u16 \<times> string, u16 \<times> u16 \<times> u16, string, u16 \<times> u16 list, string,
    unit, string) whole"

definition fresh_b :: sample_whole where "fresh_b = whole_new sample sk_b Map.empty Map.empty"

text \<open>The call, its hand-over, the player that starts, is polled and gives its output.\<close>

definition asked_b where
  "asked_b = [Call_keygen req_ab, Take 0, Begin_keygen 0, Poll_keygen 0 0,
    Emit_keygen 0 0, Emit_keygen 0 0]"

definition done_b where
  "done_b = fst (handle_output_keygen sample \<lparr>po_input = req_ab, po_output = key_share\<rparr> node_b1)"

lemma done_b_step: "handle_output_keygen sample \<lparr>po_input = req_ab, po_output = key_share\<rparr> node_b1 = (done_b, Ok ())"
  and done_b_out: "co_out done_b = co_out node_b1 @ [Inc REQUESTS_KEYGEN_DONE,
    Respond (mk_response ''r'' (replicate 66 (CHR ''x'')) Keygen_type Done)]"
proof -
  let ?msg = "\<lparr>po_input = req_ab, po_output = key_share\<rparr> :: (keygen_request, u16 \<times> string) protocol_output"
  have "group_new (kr_participant_public_keys (po_input ?msg)) (ucast (kr_threshold (po_input ?msg)))
      (co_pk_str node_b1) = Some (group_ab key_b)"
    by (simp add: req_ab_def sample_ab_id)
  note e = handle_output_keygen_eq [OF this, of sample]
  show "handle_output_keygen sample ?msg node_b1 = (done_b, Ok ())"
    by (simp add: done_b_def e)
  show "co_out done_b = co_out node_b1 @ [Inc REQUESTS_KEYGEN_DONE,
    Respond (mk_response ''r'' (replicate 66 (CHR ''x'')) Keygen_type Done)]"
    unfolding done_b_def e by (simp add: req_ab_def key_share_def plain_crypto_def twice_replicate)
qed

definition player_done_b where
  "player_done_b = player_handle_maybe_proceed (mc_keygen machines_ab) 0 (player_started player_b)"

lemma player_done_b_out:
  "pl_out player_done_b = [Notify_maybe_proceed, To_collector \<lparr>po_input = req_ab, po_output = key_share\<rparr>,
     Later_maybe_proceed 250]"
  by (simp add: player_done_b_def player_handle_maybe_proceed_simps player_started_def player_b_def
      player_new_def proceed_out_def machines_ab_def one_shot_def result_out_def sm_step_def sm_result_def
      queue_out_def kg_spent_def)

lemma player_done_b_input: "kr_request_id (pl_input player_done_b) = ''r''"
  by (simp add: player_done_b_def player_handle_maybe_proceed_simps player_started_def player_b_def
      player_new_def req_ab_def)

text \<open>Server B with the responses so far, its coordinator, the requests taken and its first player.\<close>

definition whole_b where
  "whole_b rs c n player =
     \<lparr>wh_imp = \<lparr>mi_tx_open = True, mi_tx = [Keygen_request req_ab], mi_tx_res_open = True,
        mi_tx_res = map (\<lambda>(x, st). mk_response ''r'' x Keygen_type st) rs, mi_results_db = Map.empty\<rparr>,
      wh_node = c, wh_taken = n, wh_stored = 0, wh_fired = [], wh_posted = [], wh_lost = False, wh_stopped = False,
      wh_kg = Map.empty(0 := player), wh_off = Map.empty, wh_sig = Map.empty\<rparr>"

definition done_key :: string where "done_key = replicate 66 (CHR ''x'')"

definition served_b where
  "served_b = whole_b [([], Received), ([], Processing), (done_key, Done)] done_b 1
     (Some \<lparr>ac_state = player_done_b, ac_read = 0, ac_sent = 2\<rparr>)"

lemma asked_b_steps:
  "whole_step sample machines_ab (Call_keygen req_ab) fresh_b =
     Some (whole_b [([], Received)] node_b 0 None)"
  "whole_step sample machines_ab (Take 0) (whole_b [([], Received)] node_b 0 None) =
     Some (whole_b [([], Received), ([], Processing)] node_b1 1 None)"
  "whole_step sample machines_ab (Begin_keygen 0) (whole_b [([], Received), ([], Processing)] node_b1 1 None) =
     Some (whole_b [([], Received), ([], Processing)] node_b1 1
       (Some \<lparr>ac_state = player_started player_b, ac_read = 0, ac_sent = 0\<rparr>))"
  "whole_step sample machines_ab (Poll_keygen 0 0) (whole_b [([], Received), ([], Processing)] node_b1 1
       (Some \<lparr>ac_state = player_started player_b, ac_read = 0, ac_sent = 0\<rparr>)) =
     Some (whole_b [([], Received), ([], Processing)] node_b1 1
       (Some \<lparr>ac_state = player_done_b, ac_read = 0, ac_sent = 0\<rparr>))"
  "whole_step sample machines_ab (Emit_keygen 0 0) (whole_b [([], Received), ([], Processing)] node_b1 1
       (Some \<lparr>ac_state = player_done_b, ac_read = 0, ac_sent = 0\<rparr>)) =
     Some (whole_b [([], Received), ([], Processing)] node_b1 1
       (Some \<lparr>ac_state = player_done_b, ac_read = 0, ac_sent = 1\<rparr>))"
  "whole_step sample machines_ab (Emit_keygen 0 0) (whole_b [([], Received), ([], Processing)] node_b1 1
       (Some \<lparr>ac_state = player_done_b, ac_read = 0, ac_sent = 1\<rparr>)) = Some served_b"
proof -
  note defs = whole_b_def responses_def started_keygen_def List.map_filter_def node_moves_def tx_res_send_def handled_def
  show "whole_step sample machines_ab (Call_keygen req_ab) fresh_b =
     Some (whole_b [([], Received)] node_b 0 None)"
    by (simp add: fresh_b_def node_b_def whole_new_def mpc_imp_new_def keygen_cases already_exists_def map_sled_def
        tx_res_send_def req_ab_def whole_b_def)
  show "whole_step sample machines_ab (Take 0) (whole_b [([], Received)] node_b 0 None) =
     Some (whole_b [([], Received), ([], Processing)] node_b1 1 None)"
    by (simp add: defs handle_def request_step ignore_result_def)
  show "whole_step sample machines_ab (Begin_keygen 0) (whole_b [([], Received), ([], Processing)] node_b1 1 None) =
     Some (whole_b [([], Received), ([], Processing)] node_b1 1
       (Some \<lparr>ac_state = player_started player_b, ac_read = 0, ac_sent = 0\<rparr>))"
    by (simp add: defs)
  show "whole_step sample machines_ab (Poll_keygen 0 0) (whole_b [([], Received), ([], Processing)] node_b1 1
       (Some \<lparr>ac_state = player_started player_b, ac_read = 0, ac_sent = 0\<rparr>)) =
     Some (whole_b [([], Received), ([], Processing)] node_b1 1
       (Some \<lparr>ac_state = player_done_b, ac_read = 0, ac_sent = 0\<rparr>))"
    by (simp add: whole_b_def player_done_b_def)
  show "whole_step sample machines_ab (Emit_keygen 0 0) (whole_b [([], Received), ([], Processing)] node_b1 1
       (Some \<lparr>ac_state = player_done_b, ac_read = 0, ac_sent = 0\<rparr>)) =
     Some (whole_b [([], Received), ([], Processing)] node_b1 1
       (Some \<lparr>ac_state = player_done_b, ac_read = 0, ac_sent = 1\<rparr>))"
    by (simp add: defs player_done_b_out)
  show "whole_step sample machines_ab (Emit_keygen 0 0) (whole_b [([], Received), ([], Processing)] node_b1 1
       (Some \<lparr>ac_state = player_done_b, ac_read = 0, ac_sent = 1\<rparr>)) = Some served_b"
    by (simp add: defs player_done_b_out done_b_step done_b_out served_b_def done_key_def numeral_2_eq_2)
qed

lemma asked_b_run: "whole_run sample machines_ab asked_b fresh_b = Some served_b"
  by (simp only: asked_b_def whole_run.simps asked_b_steps Option.bind.simps)

lemma fresh_b_reachable: "whole_reachable sample machines_ab sk_b Map.empty Map.empty fresh_b"
  unfolding fresh_b_def by (rule begin_whole)

lemmas served_b_reachable = whole_reachable_run [OF fresh_b_reachable asked_b_run]

lemma served_b_fields [simp]:
  "mi_tx (wh_imp served_b) = [Keygen_request req_ab]" "wh_node served_b = done_b"
  "mi_tx_res (wh_imp served_b) = [mk_response ''r'' [] Keygen_type Received,
     mk_response ''r'' [] Keygen_type Processing, mk_response ''r'' done_key Keygen_type Done]"
  "wh_kg served_b = [0 \<mapsto> \<lparr>ac_state = player_done_b, ac_read = 0, ac_sent = 2\<rparr>]"
  by (simp_all add: served_b_def whole_b_def)

lemma served_b_accepted: "length (accepted ''r'' served_b) \<le> 1"
  by (simp add: accepted_def)

text \<open>After \<open>n\<close> of the three responses were stored.\<close>

definition stored_b where
  "stored_b n = served_b\<lparr>wh_stored := n, wh_imp := (wh_imp served_b)
     \<lparr>mi_results_db := handle_response sample Map.empty (take n (mi_tx_res (wh_imp served_b)))\<rparr>\<rparr>"

lemma stored_b_0: "stored_b 0 = served_b"
  by (simp add: stored_b_def served_b_def whole_b_def)

lemma stored_b_step:
  assumes "n < 3"
  shows "whole_step sample machines_ab Store (stored_b n) = Some (stored_b (Suc n))"
  using assms by (simp add: stored_b_def take_Suc_conv_app_nth handle_response_append del: served_b_fields(3))
    (simp add: served_b_fields)

section \<open>The life of a request\<close>

text \<open>C4: As long as at most one request with an id was accepted, every step of the server leaves the
  phase of that request or advances it by one step of the abstract automaton: waiting; stalled,
  generating or preparing; generated, failed or signing; signed. The phase determines, in
  order, the responses that the coordinator sent and the players and signers that it started for the
  request, and which of them have handed in their output.\<close>

theorem request_follows_automaton:
  assumes "picks_once (mc_keygen M) kspent" and "picks_once (mc_offline M) ospent"
    and "whole_reachable E M sk shares results s" and "whole_step E M e s = Some s'"
    and "length (accepted rid s') \<le> 1"
  shows "\<exists>ph ph'. in_phase rid s ph \<and> in_phase rid s' ph' \<and> (ph' = ph \<or> advances ph ph')"
proof -
  note facts = reachable_facts [OF assms(3,1,2)]
  from facts accepted_grows(1) [OF assms(4), of rid] assms(5) have "length (accepted rid s) \<le> 1" by simp
  from request_phase [OF assms(3,1,2) this] obtain ph where "in_phase rid s ph" by blast
  with in_phase_step [OF linked_reachable [OF assms(3)] _ _ assms(4,5) this] facts show ?thesis by blast
qed

theorem request_follows_automaton_witness:
  "\<exists>ph ph'. in_phase ''r'' served_b ph \<and> in_phase ''r'' (stored_b 1) ph' \<and> (ph' = ph \<or> advances ph ph')"
proof -
  have "whole_step sample machines_ab Store served_b = Some (stored_b 1)"
    using stored_b_step [of 0] by (simp add: stored_b_0)
  from request_follows_automaton [OF machines_ab_laws served_b_reachable this, of "''r''"] show ?thesis
    by (simp add: accepted_def stored_b_def)
qed

text \<open>C14: In every run of the server, the statuses of the responses for a request that was accepted at
  most once are a beginning of one of the three courses \<open>Received\<close>, \<open>Processing\<close>, \<open>Done\<close>;
  \<open>Received\<close>, \<open>Processing\<close>, \<open>Error\<close>; and \<open>Received\<close>, \<open>Processing\<close>, \<open>Processing\<close>, \<open>Done\<close>, in this
  order and without repetition, if the protocol libraries give each output once.\<close>

theorem statuses_come_in_order:
  assumes "picks_once (mc_keygen M) kspent" and "picks_once (mc_offline M) ospent"
    and "whole_reachable E M sk shares results s" and "length (accepted rid s) \<le> 1"
  shows "\<exists>sts course. map cr_request_status (filter (\<lambda>r. cr_request_id r = rid) (mi_tx_res (wh_imp s))) =
      map request_status_i32 sts \<and> prefix sts course \<and>
    course \<in> {[Received, Processing, Done], [Received, Processing, Error],
      [Received, Processing, Processing, Done]}"
proof -
  from request_phase [OF assms(3,1,2,4)] obtain ph where "in_phase rid s ph" by blast
  from course_of_phase [OF this assms(4)] show ?thesis
    by (auto simp: statuses_sent_def courses_def)
qed

theorem statuses_come_in_order_witness:
  "\<exists>sts course. [1, 2, 3] = map request_status_i32 sts \<and> prefix sts course \<and>
    course \<in> {[Received, Processing, Done], [Received, Processing, Error],
      [Received, Processing, Processing, Done]}"
  using statuses_come_in_order [OF machines_ab_laws served_b_reachable served_b_accepted] by simp

lemma last_in_order:
  fixes sts :: "request_status list"
  assumes "xs \<noteq> []" and eq: "map f (xs @ zs @ ts) = map g sts" and "sorted sts"
  shows "\<exists>st st'. f (last xs) = g st \<and> f (last (xs @ zs)) = g st' \<and> st \<le> st'"
proof -
  from eq have "map f xs @ map f zs @ map f ts = map g sts" by simp
  then obtain as bs cs where sts: "sts = as @ bs @ cs"
    and as: "map g as = map f xs" and bs: "map g bs = map f zs"
    by (metis append_eq_map_conv)
  from as assms(1) have "as \<noteq> []" by auto
  with as assms(1) have "f (last xs) = g (last as)" by (metis last_map)
  moreover from as bs have "map f (xs @ zs) = map g (as @ bs)" by simp
  with \<open>as \<noteq> []\<close> assms(1) have "f (last (xs @ zs)) = g (last (as @ bs))"
    by (metis append_is_Nil_conv last_map)
  moreover have "last as \<le> last (as @ bs)"
    using assms(3) \<open>as \<noteq> []\<close> by (cases "bs = []") (auto simp: sts sorted_append)
  ultimately show ?thesis by blast
qed

text \<open>C7: Once \<open>check_result\<close> has answered a client that asks for a request id under which nothing
  was stored before the server started, and as long as the id is accepted at most once, it answers
  every later question too, and the status never goes back: from \<open>Received\<close> to \<open>Processing\<close> to
  \<open>Done\<close> or \<open>Error\<close>, and a final status stays.\<close>

theorem client_sees_no_step_back:
  assumes laws: "picks_once (mc_keygen M) kspent" "picks_once (mc_offline M) ospent"
    and results: "results_laws E view" and fresh: "view results (cq_request_id q) = None"
    and "whole_reachable E M sk shares results s" and run: "whole_run E M es s = Some s'"
    and once: "length (accepted (cq_request_id q) s') \<le> 1"
    and seen: "check_result E q (wh_imp s) = Ok r"
  shows "\<exists>r' st st'. check_result E q (wh_imp s') = Ok r' \<and>
    cr_request_status r = request_status_i32 st \<and> cr_request_status r' = request_status_i32 st' \<and> st \<le> st'"
proof -
  let ?P = "\<lambda>r. cr_request_id r = cq_request_id q"
  let ?shown = "\<lambda>s. filter ?P (take (wh_stored s) (mi_tx_res (wh_imp s)))"
  from stored_results_reachable [OF assms(5)] have st: "stored_results E results s" "channels_open s"
    by simp_all
  from stored_results_run [OF run st] have st': "stored_results E results s'"
    and more: "wh_stored s \<le> wh_stored s'" "prefix (mi_tx_res (wh_imp s)) (mi_tx_res (wh_imp s'))"
    by simp_all
  have shown: "check_result E q (wh_imp u) =
      (if ?shown u = [] then Err (Not_found ''Not found'') else Ok (last (?shown u)))"
    if "stored_results E results u" for u
    using shown_result [OF results disjI1 [OF fresh] that] by (simp add: last_response_def Let_def)
  from seen shown [OF st(1)] have r: "?shown s \<noteq> []" "r = last (?shown s)" by (auto split: if_splits)
  have "prefix (?shown s) (?shown s')"
    using more st(1) by (auto simp: prefix_def stored_results_def take_add le_iff_add)
  then obtain zs where zs: "?shown s' = ?shown s @ zs" by (auto simp: prefix_def)
  obtain ts where ts: "filter ?P (mi_tx_res (wh_imp s')) = ?shown s' @ ts"
    using filter_append [of ?P "take (wh_stored s') (mi_tx_res (wh_imp s'))" "drop (wh_stored s') (mi_tx_res (wh_imp s'))"]
    by simp
  from request_phase [OF whole_reachable_run [OF assms(5) run] laws once] course_of_phase [OF _ once]
    courses_sorted
  obtain sts where sts: "sorted sts" "statuses_sent (cq_request_id q) s' = map request_status_i32 sts"
    by blast
  have "map cr_request_status (?shown s @ zs @ ts) = map request_status_i32 sts"
    using sts(2) zs ts by (simp add: statuses_sent_def)
  from last_in_order [OF r(1) this sts(1)] obtain st st' where "cr_request_status r = request_status_i32 st"
    "cr_request_status (last (?shown s')) = request_status_i32 st'" "st \<le> st'"
    by (auto simp: r(2) zs)
  moreover have "check_result E q (wh_imp s') = Ok (last (?shown s'))"
    using r(1) zs shown [OF st'] by simp
  ultimately show ?thesis by blast
qed

text \<open>A client that asks after the first response was stored, and again after the last.\<close>

theorem client_sees_no_step_back_witness:
  "\<exists>r' st st'. check_result sample \<lparr>cq_request_id = ''r''\<rparr> (wh_imp (stored_b 3)) = Ok r' \<and>
    1 = request_status_i32 st \<and> cr_request_status r' = request_status_i32 st' \<and> st \<le> st'"
proof -
  let ?q = "\<lparr>cq_request_id = ''r''\<rparr> :: check_result_request"
  have "whole_step sample machines_ab Store served_b = Some (stored_b 1)"
    using stored_b_step [of 0] by (simp add: stored_b_0)
  from continue_whole [OF served_b_reachable this]
  have reach: "whole_reachable sample machines_ab sk_b Map.empty Map.empty (stored_b 1)" .
  have run: "whole_run sample machines_ab [Store, Store] (stored_b 1) = Some (stored_b 3)"
    using stored_b_step [of 1] stored_b_step [of 2] by (simp add: numeral_2_eq_2 numeral_3_eq_3)
  have "stored_results sample Map.empty (stored_b 1)"
    by (simp add: stored_results_def stored_b_def)
  from shown_result [OF sample_results_laws disjI1 this, of ?q]
  have seen: "check_result sample ?q (wh_imp (stored_b 1)) = Ok (mk_response ''r'' [] Keygen_type Received)"
    by (simp add: stored_b_def last_response_def)
  from client_sees_no_step_back [OF machines_ab_laws sample_results_laws _ reach run _ seen]
  show ?thesis by (simp add: accepted_def stored_b_def)
qed

text \<open>C8: While the transport is up, work that an actor has finished reaches the client: the
  coordinator can handle all that the actor has sent, without a panic, the responses can all be
  stored, and \<open>check_result\<close> then answers \<open>Done\<close> if the actor is the player of a key generation that
  has given its share or a signer that has given its signature; for the player of an offline stage
  that has given its output it answers \<open>Error\<close>, or a signer was started for the request.\<close>

theorem finished_work_reaches_client:
  assumes laws: "picks_once (mc_keygen M) kspent" "picks_once (mc_offline M) ospent" "results_laws E view"
    and reach: "whole_reachable E M sk shares results s" and up: "\<not> wh_stopped s"
    and once: "length (accepted (cq_request_id q) s) \<le> 1"
  shows "(\<forall>a ac. wh_kg s a = Some ac \<longrightarrow> kr_request_id (pl_input (ac_state ac)) = cq_request_id q \<longrightarrow>
      list_ex is_collector (pl_out (ac_state ac)) \<longrightarrow>
      (\<exists>m s' r. whole_run E M (replicate (length (pl_out (ac_state ac)) - ac_sent ac) (Emit_keygen a now) @
          replicate m Store) s = Some s' \<and>
        check_result E q (wh_imp s') = Ok r \<and> cr_request_status r = request_status_i32 Done)) \<and>
    (\<forall>a ac. wh_off s a = Some ac \<longrightarrow> sr_request_id (es_inner (pl_input (ac_state ac))) = cq_request_id q \<longrightarrow>
      list_ex is_collector (pl_out (ac_state ac)) \<longrightarrow>
      (\<exists>m s' r. whole_run E M (replicate (length (pl_out (ac_state ac)) - ac_sent ac) (Emit_offline a now) @
          replicate m Store) s = Some s' \<and> check_result E q (wh_imp s') = Ok r \<and>
        (cr_request_status r = request_status_i32 Error \<or> signer_started_for (cq_request_id q) s'))) \<and>
    (\<forall>a ac. wh_sig s a = Some ac \<longrightarrow> sr_request_id (es_inner (sn_input (ac_state ac))) = cq_request_id q \<longrightarrow>
      list_ex is_result (sn_out (ac_state ac)) \<longrightarrow>
      (\<exists>m s' r. whole_run E M (replicate (length (sn_out (ac_state ac)) - ac_sent ac) (Emit_signer a now) @
          replicate m Store) s = Some s' \<and>
        check_result E q (wh_imp s') = Ok r \<and> cr_request_status r = request_status_i32 Done))"
  using keygen_done_reaches_client [OF laws reach up once, of _ _ now]
    offline_done_reaches_client [OF laws reach up once, of _ _ now]
    signer_done_reaches_client [OF laws reach up once, of _ _ now] by blast

text \<open>The player of server B has finished, and nothing of what it sent was handled.\<close>

definition polled_b where
  "polled_b = whole_b [([], Received), ([], Processing)] node_b1 1
     (Some \<lparr>ac_state = player_done_b, ac_read = 0, ac_sent = 0\<rparr>)"

lemma polled_b_reachable: "whole_reachable sample machines_ab sk_b Map.empty Map.empty polled_b"
proof (rule whole_reachable_run [OF fresh_b_reachable])
  show "whole_run sample machines_ab [Call_keygen req_ab, Take 0, Begin_keygen 0, Poll_keygen 0 0] fresh_b = Some polled_b"
    by (simp only: whole_run.simps asked_b_steps Option.bind.simps polled_b_def)
qed

theorem finished_work_reaches_client_witness:
  "\<exists>m s' r. whole_run sample machines_ab (replicate 3 (Emit_keygen 0 0) @ replicate m Store) polled_b = Some s' \<and>
     check_result sample \<lparr>cq_request_id = ''r''\<rparr> (wh_imp s') = Ok r \<and> cr_request_status r = request_status_i32 Done"
proof -
  let ?q = "\<lparr>cq_request_id = ''r''\<rparr> :: check_result_request"
  let ?ac = "\<lparr>ac_state = player_done_b, ac_read = 0, ac_sent = 0\<rparr>"
  have ac: "wh_kg polled_b 0 = Some ?ac" "\<not> wh_stopped polled_b"
    "length (accepted (cq_request_id ?q) polled_b) \<le> 1" "length (pl_out player_done_b) = 3"
    "list_ex is_collector (pl_out (ac_state ?ac))" "kr_request_id (pl_input (ac_state ?ac)) = cq_request_id ?q"
    by (simp_all add: polled_b_def whole_b_def accepted_def player_done_b_out player_done_b_input)
  from finished_work_reaches_client [OF machines_ab_laws sample_results_laws polled_b_reachable ac(2,3), of 0,
      THEN conjunct1, rule_format, OF ac(1,6,5)] ac(4)
  show ?thesis by simp
qed

section \<open>Mailboxes and the database\<close>

text \<open>C22: In every run of the server, each message in the mailbox of a running player or signer is the
  opened form of a message that bears the signature of another member of the group stored for its
  room, and its room is the one that this player or signer works for.\<close>

theorem mailboxes_are_trusted:
  assumes "store_laws E view" and "whole_reachable E M sk shares results s"
  shows "(\<forall>a ac im. wh_kg s a = Some ac \<longrightarrow> im \<in> set (inbox_keygen a (co_out (wh_node s))) \<longrightarrow>
      trusted E view sk (co_db (wh_node s)) (im_wire_message im) \<and> w_room (im_wire_message im) = pl_room (ac_state ac)) \<and>
    (\<forall>a ac im. wh_off s a = Some ac \<longrightarrow> im \<in> set (inbox_offline a (co_out (wh_node s))) \<longrightarrow>
      trusted E view sk (co_db (wh_node s)) (im_wire_message im) \<and> w_room (im_wire_message im) = pl_room (ac_state ac)) \<and>
    (\<forall>a ac im. wh_sig s a = Some ac \<longrightarrow> im \<in> set (inbox_signer a (co_out (wh_node s))) \<longrightarrow>
      trusted E view sk (co_db (wh_node s)) (im_wire_message im) \<and>
      w_room (im_wire_message im) = st_room (sn_task (ac_state ac)))"
proof -
  have "node_reachable E (\<lambda>_. True) sk shares (wh_node s)"
    by (rule whole_node_submitted [OF assms(2)]) simp
  from mailbox_meant_for [OF node_inv_reachable [OF assms(1) this] linked_reachable [OF assms(2)]]
  show ?thesis by (auto simp: meant_for_def simp del: mailbox_member)
qed

text \<open>B's player has started when A's message arrives.\<close>

definition met_b where
  "met_b = whole_b [([], Received), ([], Processing)] node_b2 1
     (Some \<lparr>ac_state = player_started player_b, ac_read = 0, ac_sent = 0\<rparr>)"

lemma arrive_b: "incoming_filter sample key_b [Ok wire_text] = [Ok wire_ab]"
proof -
  have "do_parse_signed sample wire_text = Ok wire_ab"
    using parse_outgoing_text(1) [OF sample_transport_laws outgoing_text_ab] by (simp add: wire_ab_def)
  then show ?thesis by (simp add: incoming_filter_single take_non_owned_def)
qed

lemma met_b_run:
  "whole_run sample machines_ab [Call_keygen req_ab, Take 0, Begin_keygen 0, Arrive wire_text 0] fresh_b = Some met_b"
proof -
  have "whole_step sample machines_ab (Arrive wire_text 0) (whole_b [([], Received), ([], Processing)] node_b1 1
      (Some \<lparr>ac_state = player_started player_b, ac_read = 0, ac_sent = 0\<rparr>)) = Some met_b"
    by (simp add: met_b_def whole_b_def arrive_b stream_handle_def message_step node_moves_def node_b2_def
        responses_def List.map_filter_def)
  then show ?thesis by (simp only: whole_run.simps asked_b_steps Option.bind.simps)
qed

theorem mailboxes_are_trusted_witness:
  "trusted sample id sk_b (db_ab key_b) opened_ab \<and> w_room opened_ab = room_ab_id"
proof -
  have "wh_kg met_b 0 = Some \<lparr>ac_state = player_started player_b, ac_read = 0, ac_sent = 0\<rparr>"
    and "delivered_ab \<in> set (inbox_keygen 0 (co_out (wh_node met_b)))" and "co_db (wh_node met_b) = db_ab key_b"
    by (simp_all add: met_b_def whole_b_def node_b2_def)
  with mailboxes_are_trusted [OF sample_store_laws whole_reachable_run [OF fresh_b_reachable met_b_run]]
  show ?thesis
    by (fastforce simp: delivered_ab_def player_started_def player_b_def player_new_def simp del: mailbox_member)
qed

text \<open>C17: The database that a server keeps its groups and shares in stays typed in every run: each entry
  is a group under its own id, made of the leading digits of its keys, with this server as its owner, or
  an encrypted share of this server under the public key that was generated; and a group that is
  read has the id that it was asked for.\<close>

theorem stored_entries_are_typed:
  assumes "store_laws E view" and "formats_disjoint E" and own: "own = identity_of (env_crypto E) sk"
    and "typed_db E view own shares" and "whole_reachable E M sk shares results s"
  shows "typed_db E view own (co_db (wh_node s)) \<and>
    (\<forall>gid g. retrieve_group E (co_db (wh_node s)) gid = Ok g \<longrightarrow>
       pg_group_id g = gid \<and> group_new (pg_public_keys g) (pg_t g) own = Some g)"
proof -
  have "node_reachable E (\<lambda>_. True) sk shares (wh_node s)"
    by (rule whole_node_submitted [OF assms(5)]) simp
  from typed_reachable [OF assms(1) assms(4) [unfolded own] this]
  have typed: "typed_db E view own (co_db (wh_node s))" by (simp add: own)
  with typed_retrieve_group [OF assms(1,2) typed] show ?thesis by blast
qed

theorem stored_entries_are_typed_witness:
  "retrieve_group sample (co_db (wh_node met_b)) ''aaaaaaaabbbbbbbb'' = Ok (group_ab key_b) \<and>
   group_new [key_a, key_b] 1 key_b = Some (group_ab key_b)"
proof -
  have empty: "typed_db sample id key_b Map.empty" by (simp add: typed_db_def)
  have db: "retrieve_group sample (co_db (wh_node met_b)) ''aaaaaaaabbbbbbbb'' = Ok (group_ab key_b)"
    by (simp add: met_b_def whole_b_def node_b2_def retrieve_ab)
  have "key_b = identity_of (env_crypto sample) sk_b" by (simp add: sample_identity)
  from stored_entries_are_typed [OF sample_store_laws sample_formats_disjoint this empty
      whole_reachable_run [OF fresh_b_reachable met_b_run]] db
  have "group_new (pg_public_keys (group_ab key_b)) (pg_t (group_ab key_b)) key_b = Some (group_ab key_b)"
    by blast
  moreover have "pg_t (group_ab key_b) = 1" by (simp add: group_ab_def)
  ultimately show ?thesis using db by simp
qed

section \<open>A server whose stream has ended\<close>

text \<open>C26: When the stream of the transport has ended, the coordinator stops, but the service does not
  notice: it goes on accepting requests, which are answered with success, and whatever happens
  afterwards, \<open>Received\<close> is the only response that is ever reported for them.\<close>

theorem stopped_server_accepts_in_vain:
  assumes "whole_reachable E M sk shares results s" and "wh_stopped s"
    and "whole_run E M es s = Some s'"
  shows "(\<exists>rs. mi_tx (wh_imp s') = mi_tx (wh_imp s) @ rs \<and>
      mi_tx_res (wh_imp s') = mi_tx_res (wh_imp s) @ map received rs) \<and> wh_node s' = wh_node s \<and>
    (\<forall>req. \<not> already_exists E (wh_imp s') (kr_request_id req) \<longrightarrow>
      snd (keygen E req (wh_imp s')) = Ok \<lparr>kresp_request_id = kr_request_id req\<rparr>)"
proof -
  have "channels_open s" using stored_results_reachable [OF assms(1)] by simp
  from stopped_run [OF assms(3,2) this] show ?thesis
    by (auto simp: channels_open_def keygen_cases)
qed

theorem stopped_server_accepts_in_vain_witness:
  "\<exists>s s'. whole_run sample machines_ab [Stream_ends] fresh_b = Some s \<and>
    whole_run sample machines_ab [Call_keygen req_ab, Take 0] s = Some s' \<and>
    mi_tx_res (wh_imp s') = mi_tx_res (wh_imp s) @ [received (Keygen_request req_ab)]"
proof -
  let ?s = "fresh_b\<lparr>wh_stopped := True\<rparr>"
  let ?s' = "?s\<lparr>wh_imp := fst (keygen sample req_ab (wh_imp fresh_b)), wh_taken := 1\<rparr>"
  have stop: "whole_run sample machines_ab [Stream_ends] fresh_b = Some ?s" by simp
  have tx: "mi_tx (fst (keygen sample req_ab (wh_imp fresh_b))) = [Keygen_request req_ab]"
    by (simp add: fresh_b_def whole_new_def mpc_imp_new_def keygen_cases already_exists_def map_sled_def
        tx_res_send_def)
  then have later: "whole_run sample machines_ab [Call_keygen req_ab, Take 0] ?s = Some ?s'"
    by (simp add: fresh_b_def whole_new_def)
  from stopped_server_accepts_in_vain [OF whole_reachable_run [OF fresh_b_reachable stop] _ later] tx
  have "mi_tx_res (wh_imp ?s') = mi_tx_res (wh_imp ?s) @ [received (Keygen_request req_ab)]"
    by (auto simp: fresh_b_def whole_new_def mpc_imp_new_def)
  with stop later show ?thesis by blast
qed

section \<open>What stops a server\<close>

text \<open>C6: In every run of a server in which all databases and signing requests so far name the server
  as a member of their groups, every event that can happen next does happen: no message from the
  network, no timer, no message of an actor makes the server panic. There are two exceptions: a request
  that is taken and cannot be served, because a public key in it is too short or the own key is not
  among its participants; and a message that is given to the sink when an earlier one could not be sent,
  which has cost the sink its state.\<close>

theorem what_stops_a_server:
  assumes "store_laws E view" and "formats_disjoint E" and "named E view shares"
    and "whole_reachable E M sk shares results s"
    and "\<forall>r \<in> set (taken s). takes_part E sk (snd (handle r))"
    and "str_range (identity_of (env_crypto E) sk) 2 10 \<noteq> None"
  shows "whole_step E M e s = None \<longleftrightarrow> \<not> enabled e s \<or>
    (\<exists>now. e = Take now) \<and> \<not> wh_stopped s \<and>
    unservable E (wh_node s) (snd (handle (mi_tx (wh_imp s) ! wh_taken s))) \<or>
    (\<exists>p ok. e = Post p ok) \<and> wh_lost s"
proof (rule whole_progress [OF assms(1) _ _ _ assms(6)])
  show "node_inv E view sk (wh_node s)"
    using node_inv_reachable [OF assms(1) whole_node_submitted [OF assms(4)]] by blast
  show "linked s" by (rule linked_reachable [OF assms(4)])
  show "named E view (co_db (wh_node s))" by (rule named_whole [OF assms(1-5)])
qed

theorem what_stops_a_server_witness:
  "\<forall>raw now. whole_step sample machines_ab (Arrive raw now) met_b \<noteq> None"
proof (intro allI)
  fix raw now
  have "\<forall>r \<in> set (taken met_b). takes_part sample sk_b (snd (handle r))"
    by (simp add: taken_def met_b_def whole_b_def handle_def takes_part_def)
  from what_stops_a_server [OF sample_store_laws sample_formats_disjoint _
      whole_reachable_run [OF fresh_b_reachable met_b_run] this, of "Arrive raw now"]
  show "whole_step sample machines_ab (Arrive raw now) met_b \<noteq> None"
    by (simp add: named_def sample_identity own_prefix_b met_b_def whole_b_def del: whole_step.simps)
qed

end
