(* ===== verification/Properties_Cluster.thy ===== *)
theory Properties_Cluster
  imports Properties_Whole Cluster_Delivery
begin

text \<open>
  Properties of several servers over one broker. In the sample run two servers join, both are asked
  for the same key, and the message of the player of A reaches the player of B.
\<close>

section \<open>A sample run\<close>

text \<open>
  The machine of the player with index 1 has one message for index 2 in its queue. A machine that has
  taken a message gives its output, once.
\<close>

definition talk_once :: "(u16 \<times> u16 \<times> u16, string, u16 \<times> string) sm_api" where
  "talk_once =
     \<lparr>sm_handle_incoming = \<lambda>s m. ((fst s, fst (snd s), 0), Inr ()), sm_wants_to_proceed = \<lambda>s. False,
      sm_proceed = \<lambda>s. (s, Inr ()),
      sm_queue = \<lambda>s. if fst s = 1 then [\<lparr>m_sender = 1, m_receiver = Some 2, m_body = ''khello''\<rparr>] else [],
      sm_drained = \<lambda>s. (0, snd s), sm_is_finished = \<lambda>s. snd (snd s) = 0 \<and> fst (snd s) \<noteq> 0,
      sm_pick_output = \<lambda>s. (if fst (snd s) = 0 then (s, None) else ((fst s, 0, 0), Some (Inr key_share))),
      sm_current_round = \<lambda>s. 0, sm_round_timeout = \<lambda>s. None,
      sm_msg_ser = \<lambda>m. Some (c_message msg_ab)\<rparr>"

definition machines_talk :: "(u16 \<times> string, u16 \<times> u16 \<times> u16, string, u16 \<times> u16 list, string, unit, unit, string) machines" where
  "machines_talk = machines_ab\<lparr>mc_keygen := talk_once\<rparr>"

definition talk_spent :: "u16 \<times> u16 \<times> u16 \<Rightarrow> bool" where "talk_spent s \<longleftrightarrow> fst (snd s) = 0"

lemma machines_talk_laws:
  "picks_once (mc_keygen machines_talk) talk_spent" "picks_once (mc_offline machines_talk) off_spent"
  using machines_ab_laws(2) by (simp_all add: machines_talk_def talk_once_def picks_once_def talk_spent_def)

text \<open>Server A after the request, and after the message of its player.\<close>

definition player_a where
  "player_a = player_new req_ab room_ab_id 1 (1, 1, 2)"

definition node_a :: sample_coordinator where
  "node_a = coordinator_new sample sk_a Map.empty"

definition node_a1 :: sample_coordinator where
  "node_a1 = emit [Start_keygen 0 player_a]
     ((emit [Inc REQUESTS_KEYGEN_HANDLED, Respond (mk_response ''r'' [] Keygen_type Processing)]
         node_a)\<lparr>co_next_addr := 1, co_db := db_ab key_a, co_keygen_runners := [room_ab_id \<mapsto> 0]\<rparr>)"

definition player_a_polled where
  "player_a_polled = player_handle_maybe_proceed talk_once 0 (player_started player_a)"

lemma player_a_out: "pl_out player_a_polled =
    [Notify_maybe_proceed, To_broker (Outgoing msg_ab), Later_maybe_proceed 250]"
  by (simp add: player_a_polled_def player_handle_maybe_proceed_simps player_started_def player_a_def
      player_new_def proceed_out_def talk_once_def result_out_def sm_step_def sm_result_def
      queue_out_def List.map_filter_simps msg_ab_def room_ab_id_def)

lemma request_step_a: "handle_keygen_request sample req_ab node_a = (node_a1, Ok ())"
proof -
  have "co_pk_str node_a = key_a" "co_db node_a = Map.empty" "co_next_addr node_a = 0" "co_keygen_runners node_a = Map.empty"
    by (simp_all add: node_a_def coordinator_new_def sample_identity)
  then show ?thesis
    by (simp add: handle_keygen_request_eq Let_def req_ab_def sample_ab_id room_ab_make
        node_a1_def player_a_def db_ab_def)
qed

lemma node_a1_fields [simp]:
  "co_db node_a1 = db_ab key_a" "co_sink node_a1"
  "co_out node_a1 = [Inc REQUESTS_KEYGEN_HANDLED,
     Respond (mk_response ''r'' [] Keygen_type Processing), Start_keygen 0 player_a]"
  by (simp_all add: node_a1_def node_a_def coordinator_new_def)

definition fresh_a :: sample_whole where "fresh_a = whole_new sample sk_a Map.empty Map.empty"

text \<open>The player has been polled; its message is the next that the coordinator handles, and is then sent.\<close>

definition polled_a where
  "polled_a = [Call_keygen req_ab, Take 0, Begin_keygen 0, Poll_keygen 0 0, Emit_keygen 0 0]"

definition asked_a where
  "asked_a = polled_a @ [Emit_keygen 0 0]"

definition thinks_a where
  "thinks_a = whole_b [([], Received), ([], Processing)] node_a1 1
     (Some \<lparr>ac_state = player_a_polled, ac_read = 0, ac_sent = 1\<rparr>)"

definition said_a where
  "said_a = whole_b [([], Received), ([], Processing)] (emit [Send_one sealed_ab] node_a1) 1
     (Some \<lparr>ac_state = player_a_polled, ac_read = 0, ac_sent = 2\<rparr>)"

lemma polled_a_run: "whole_run sample machines_talk polled_a fresh_a = Some thinks_a"
proof -
  note defs = whole_b_def responses_def started_keygen_def List.map_filter_def node_moves_def tx_res_send_def handled_def
  let ?w = "\<lambda>n p. whole_b [([], Received), ([], Processing)] node_a1 1 (Some \<lparr>ac_state = p, ac_read = 0, ac_sent = n\<rparr>)"
  have "whole_step sample machines_talk (Call_keygen req_ab) fresh_a = Some (whole_b [([], Received)] node_a 0 None)"
    by (simp add: fresh_a_def node_a_def whole_new_def mpc_imp_new_def keygen_cases already_exists_def map_sled_def
        tx_res_send_def req_ab_def whole_b_def)
  moreover have "whole_step sample machines_talk (Take 0) (whole_b [([], Received)] node_a 0 None) =
     Some (whole_b [([], Received), ([], Processing)] node_a1 1 None)"
    by (simp add: defs handle_def request_step_a ignore_result_def)
      (simp add: node_a_def coordinator_new_def tx_res_send_def)
  moreover have "whole_step sample machines_talk (Begin_keygen 0) (whole_b [([], Received), ([], Processing)] node_a1 1 None) =
     Some (?w 0 (player_started player_a))"
    by (simp add: defs)
  moreover have "whole_step sample machines_talk (Poll_keygen 0 0) (?w 0 (player_started player_a)) = Some (?w 0 player_a_polled)"
    by (simp add: whole_b_def player_a_polled_def machines_talk_def)
  moreover have "whole_step sample machines_talk (Emit_keygen 0 0) (?w 0 player_a_polled) = Some thinks_a"
    by (simp add: defs player_a_out thinks_a_def)
  ultimately show ?thesis by (simp only: polled_a_def whole_run.simps Option.bind.simps)
qed

lemma asked_a_run: "whole_run sample machines_talk asked_a fresh_a = Some said_a"
proof -
  have "whole_step sample machines_talk (Emit_keygen 0 0) thinks_a = Some said_a"
    by (simp add: thinks_a_def whole_b_def responses_def List.map_filter_def node_moves_def tx_res_send_def
        handled_def player_a_out seal_ab said_a_def numeral_2_eq_2)
  then show ?thesis
    unfolding asked_a_def whole_run_append polled_a_run by (simp del: whole_step.simps)
qed

text \<open>The two servers join; they share the broker and its one room.\<close>

type_synonym sample_cluster =
  "(string \<rightharpoonup> string, string, u16 \<times> string, u16 \<times> u16 \<times> u16, string, u16 \<times> u16 list, string,
    unit, string) cluster"

definition meet_ab :: "(string, string \<rightharpoonup> string) cluster_event list" where
  "meet_ab =
     [Ask (For_subscribe None), Serve 0, Serve 0, Serve 0, Ask (For_subscribe None), Serve 1, Serve 1,
      Join ''http'' sk_a Map.empty Map.empty 0, Join ''http'' sk_b Map.empty Map.empty 1]"

definition member_ab where
  "member_ab sk server j n waits asked =
     \<lparr>me_key = sk, me_server = server, me_link = Some (link_of sample ''http'' sk), me_stream = j, me_read = n,
      me_waits = waits, me_asked = asked\<rparr>"

definition world_of where
  "world_of msgs tasks got =
     \<lparr>wd_db = \<lparr>bk_heap = [\<lparr>ro_messages = msgs, ro_subscribers = 2, ro_next_idx = 1\<rparr>], bk_rooms = [ROOM_ID \<mapsto> 0]\<rparr>,
      wd_tasks = [Finished, Finished] @ tasks,
      wd_streams = [new_stream \<lparr>sub_room = 0, sub_next_event = 0\<rparr>,
        (new_stream \<lparr>sub_room = 0, sub_next_event = word_of_nat (length got)\<rparr>)\<lparr>lv_from := 0, lv_got := got\<rparr>]\<rparr>"

definition cluster_ab :: "world \<Rightarrow> _ \<Rightarrow> _ \<Rightarrow> sample_cluster" where
  "cluster_ab w a b = \<lparr>cu_world = w, cu_members = [a, b]\<rparr>"

lemma join_ok:
  "join_computation_via_messenger E (\<lambda>_. True) (Some 200) url sk =
     Ok (identity_of (env_crypto E) sk, link_of E url sk)"
  by (simp add: join_via_messenger_Ok)

lemma meet_ab_run:
  "cluster_run sample machines_talk meet_ab cluster_empty =
     Some (cluster_ab (world_of [] [] []) (member_ab sk_a fresh_a 0 0 None []) (member_ab sk_b fresh_b 1 0 None []))"
  by (simp add: meet_ab_def cluster_empty_def world_empty_def world_ask_def world_serve_def find_room_def
      enter_room_def db_empty_def alloc_def room_empty_def room_subscribe_def update_room_def is_abandoned_def
      new_stream_def join_ok member_new_def member_ab_def cluster_ab_def world_of_def fresh_a_def fresh_b_def)

text \<open>Both are asked for a key, and the player of A gives its message to the coordinator.\<close>

definition started_b where "started_b = whole_b [([], Received), ([], Processing)] node_b1 1
    (Some \<lparr>ac_state = player_started player_b, ac_read = 0, ac_sent = 0\<rparr>)"

definition awake_b where "awake_b = [Call_keygen req_ab, Take 0, Begin_keygen 0]"

lemma awake_b_run: "whole_run sample machines_talk awake_b fresh_b = Some started_b"
proof -
  have "whole_step sample machines_talk e s = whole_step sample machines_ab e s"
    if "e \<in> {Call_keygen req_ab, Take 0, Begin_keygen 0}" for e s
    using that by auto
  then have "whole_step sample machines_talk (Call_keygen req_ab) s = whole_step sample machines_ab (Call_keygen req_ab) s"
    "whole_step sample machines_talk (Take 0) s = whole_step sample machines_ab (Take 0) s"
    "whole_step sample machines_talk (Begin_keygen 0) s = whole_step sample machines_ab (Begin_keygen 0) s" for s
    by blast+
  then show ?thesis
    by (simp only: awake_b_def whole_run.simps asked_b_steps started_b_def Option.bind.simps)
qed

lemma work_run:
  assumes "whole_run sample machines_talk es fresh_a = Some s" and "list_all is_local es"
  shows "cluster_run sample machines_talk (map (Local 0) es @ map (Local 1) awake_b)
     (cluster_ab w (member_ab sk_a fresh_a 0 0 None []) (member_ab sk_b fresh_b 1 0 None [])) =
   Some (cluster_ab w (member_ab sk_a s 0 0 None []) (member_ab sk_b started_b 1 0 None []))"
proof -
  let ?c = "cluster_ab w (member_ab sk_a fresh_a 0 0 None []) (member_ab sk_b fresh_b 1 0 None [])"
  let ?d = "cluster_ab w (member_ab sk_a s 0 0 None []) (member_ab sk_b fresh_b 1 0 None [])"
  have "cluster_run sample machines_talk (map (Local 0) es) ?c = Some ?d"
    using cluster_run_local [of 0 ?c es sample machines_talk s] assms
    by (simp add: cluster_ab_def member_ab_def)
  moreover have "cluster_run sample machines_talk (map (Local 1) awake_b) ?d =
      Some (cluster_ab w (member_ab sk_a s 0 0 None []) (member_ab sk_b started_b 1 0 None []))"
    using cluster_run_local [of 1 ?d awake_b sample machines_talk started_b]
    by (simp add: cluster_ab_def member_ab_def awake_b_run) (simp add: awake_b_def)
  ultimately show ?thesis by (simp add: cluster_run_append)
qed

text \<open>A asks the broker to broadcast it, the broker does, and B receives it.\<close>

definition posted_a where
  "posted_a = said_a\<lparr>wh_posted := [0]\<rparr>"

definition talk_ab :: "(string, string \<rightharpoonup> string) cluster_event list" where
  "talk_ab = [Send 0 0, Serve 2, Serve 2, Reply 0 (Some 200), Yield 1, Receive 1 0]"

definition talked_ab :: sample_cluster where
  "talked_ab = cluster_ab (world_of [wire_text] [Finished] [(0, wire_text)])
     (member_ab sk_a posted_a 0 0 None [wire_text]) (member_ab sk_b met_b 1 1 None [])"

lemma said_a_out: "outbox (co_out (wh_node said_a)) = [sealed_ab]" "wh_posted said_a = []" "\<not> wh_lost said_a" "co_sink (wh_node said_a)" "\<not> wh_stopped said_a"
  by (simp_all add: said_a_def whole_b_def outbox_def List.map_filter_simps)

lemma said_a_posts: "whole_step sample machines_talk (whole_event.Post 0 ok) said_a = Some (posted_a\<lparr>wh_lost := \<not> ok\<rparr>)"
proof -
  have "send_one (sink_result (wh_lost said_a) ok) sealed_ab (wh_node said_a) = (wh_node said_a, Ok ())"
    using said_a_out by (simp add: send_one_Ok sink_result_def)
  with said_a_out show ?thesis
    by (simp add: node_moves_def responses_def List.map_filter_simps posted_a_def said_a_def whole_b_def)
qed

lemma posted_a_kept [simp]: "posted_a\<lparr>wh_lost := False\<rparr> = posted_a"
  by (simp add: posted_a_def said_a_def whole_b_def)

lemma met_b_hears: "whole_step sample machines_talk (Arrive wire_text 0) started_b = Some met_b"
  by (simp add: started_b_def met_b_def whole_b_def arrive_b stream_handle_def message_step node_moves_def node_b2_def
      responses_def List.map_filter_def)

lemma wire_text_accepted: "broker_accepts wire_text"
proof -
  have "length wire_text \<le> string_limit"
    by (simp add: wire_text_def wire_ab_def signed_wire_def Let_def identity_of_def plain_crypto_def
      sealed_ab_def sk_a_def enc_list_def string_limit_def length_enc_str)
  with parse_outgoing_text(2) [OF sample_transport_laws outgoing_text_ab] show ?thesis
    by (simp add: broker_accepts_def)
qed

text \<open>The steps of the message, one by one.\<close>

lemma asks_ab: "asks_now sample (member_ab sk_a said_a 0 0 None []) sealed_ab = [wire_text]"
  using outgoing_text_ab by (simp add: asks_now_eq member_ab_def)

lemma next_out_ab: "next_out 0 (member_ab sk_a said_a 0 n waits asked) = Some sealed_ab"
  using said_a_out by (simp add: next_out_def member_ab_def)

definition eager_ab :: sample_cluster where
  "eager_ab = cluster_ab (world_of [] [] []) (member_ab sk_a said_a 0 0 None []) (member_ab sk_b started_b 1 0 None [])"

definition sending_ab :: sample_cluster where
  "sending_ab = cluster_ab (world_of [] [Enter (For_broadcast wire_text)] [])
     (member_ab sk_a said_a 0 0 (Some (0, 2)) [wire_text]) (member_ab sk_b started_b 1 0 None [])"

lemma send_ab: "cluster_step sample machines_talk (Send 0 0) eager_ab = Some sending_ab"
  using asks_ab next_out_ab [of 0 None "[]"] wire_text_accepted
  by (simp add: at_member_def eager_ab_def sending_ab_def cluster_ab_def)
    (simp add: member_ab_def world_ask_def world_of_def)

lemma talk_ab_run:
  "cluster_run sample machines_talk talk_ab
     eager_ab = Some talked_ab"
proof -
  let ?A = "\<lambda>s waits asked. member_ab sk_a s 0 0 waits asked" and ?B = "\<lambda>s n. member_ab sk_b s 1 n None []"
  note send_ab
  moreover have "cluster_step sample machines_talk (Serve 2)
      sending_ab =
    Some (cluster_ab (world_of [] [Have 0 (For_broadcast wire_text)] []) (?A said_a (Some (0, 2)) [wire_text]) (?B started_b 0))"
    by (simp add: sending_ab_def cluster_ab_def world_of_def world_serve_def find_room_def is_abandoned_def)
  moreover have "cluster_step sample machines_talk (Serve 2)
      (cluster_ab (world_of [] [Have 0 (For_broadcast wire_text)] []) (?A said_a (Some (0, 2)) [wire_text]) (?B started_b 0)) =
    Some (cluster_ab (world_of [wire_text] [Finished] []) (?A said_a (Some (0, 2)) [wire_text]) (?B started_b 0))"
    by (simp add: cluster_ab_def world_of_def world_serve_def publish_def update_room_def)
  moreover have "cluster_step sample machines_talk (Reply 0 (Some 200))
      (cluster_ab (world_of [wire_text] [Finished] []) (?A said_a (Some (0, 2)) [wire_text]) (?B started_b 0)) =
    Some (cluster_ab (world_of [wire_text] [Finished] []) (?A posted_a None [wire_text]) (?B started_b 0))"
    using next_out_ab [of 0 "Some (0, 2)" "[wire_text]"] outgoing_text_ab said_a_posts
    by (simp add: at_member_def cluster_ab_def member_sent_def messenger_sink.send_cases sm_broadcast_def del: whole_step.simps)
      (simp add: member_ab_def world_of_def member_sent_def messenger_sink.send_cases del: whole_step.simps)
  moreover have "cluster_step sample machines_talk (Yield 1)
      (cluster_ab (world_of [wire_text] [Finished] []) (?A posted_a None [wire_text]) (?B started_b 0)) =
    Some (cluster_ab (world_of [wire_text] [Finished] [(0, wire_text)]) (?A posted_a None [wire_text]) (?B started_b 0))"
    by (simp add: cluster_ab_def world_of_def world_yield_def new_stream_def next_event_def)
  moreover have "cluster_step sample machines_talk (Receive 1 0)
      (cluster_ab (world_of [wire_text] [Finished] [(0, wire_text)]) (?A posted_a None [wire_text]) (?B started_b 0)) =
    Some talked_ab"
    using wire_text_accepted met_b_hears
    by (simp add: at_member_def cluster_ab_def talked_ab_def member_receive_def sm_event_def from_utf8_def broker_accepts_def world_of_def del: whole_step.simps)
      (simp add: member_ab_def new_stream_def member_receive_def sm_event_def from_utf8_def del: whole_step.simps)
  ultimately show ?thesis by (simp only: talk_ab_def cluster_run.simps Option.bind.simps)
qed

definition thinking_ab :: sample_cluster where
  "thinking_ab = cluster_ab (world_of [] [] []) (member_ab sk_a thinks_a 0 0 None []) (member_ab sk_b started_b 1 0 None [])"

lemma eager_ab_reachable: "cluster_reachable sample machines_talk {sk_a, sk_b} strangers eager_ab"
  and thinking_ab_reachable: "cluster_reachable sample machines_talk {sk_a, sk_b} strangers thinking_ab"
proof -
  have run: "cluster_reachable sample machines_talk {sk_a, sk_b} strangers
      (cluster_ab (world_of [] [] []) (member_ab sk_a s 0 0 None []) (member_ab sk_b started_b 1 0 None []))"
    if "whole_run sample machines_talk es fresh_a = Some s" and "list_all is_local es" for es s
  proof (rule cluster_reachable_run [OF begin_cluster])
    show "cluster_run sample machines_talk (meet_ab @ map (Local 0) es @ map (Local 1) awake_b) cluster_empty =
      Some (cluster_ab (world_of [] [] []) (member_ab sk_a s 0 0 None []) (member_ab sk_b started_b 1 0 None []))"
      by (simp only: cluster_run_append [of _ _ meet_ab] meet_ab_run work_run [OF that] Option.bind.simps)
    show "list_all harmless (meet_ab @ map (Local 0) es @ map (Local 1) awake_b)"
      by (auto simp: meet_ab_def list_all_iff)
  qed
  show "cluster_reachable sample machines_talk {sk_a, sk_b} strangers thinking_ab"
    unfolding thinking_ab_def by (rule run [OF polled_a_run]) (simp add: polled_a_def)
  show "cluster_reachable sample machines_talk {sk_a, sk_b} strangers eager_ab"
    unfolding eager_ab_def by (rule run [OF asked_a_run]) (simp add: asked_a_def polled_a_def)
qed

lemma talked_ab_reachable: "cluster_reachable sample machines_talk {sk_a, sk_b} strangers talked_ab"
  by (rule cluster_reachable_run [OF eager_ab_reachable _ talk_ab_run]) (auto simp: talk_ab_def list_all_iff)

section \<open>Who said it\<close>

text \<open>C2: However the servers, the broker and strangers who cannot forge signatures interleave, and
  whatever the network loses, a message in the mailbox of an actor that bears the identity of an honest
  key was given to the coordinator by a player or a signer of a server with this identity: with the
  same sender and receiver, and with the same content if it was for all, or for an index under which
  the group that the sender had stored has the key of the server that opened it. Without strangers it
  was also said in the same room.\<close>

theorem delivered_message_was_said:
  assumes laws: "store_laws E view" "cipher_laws E" "transport_laws E"
    and reach: "cluster_reachable E M honest strangers c" and mb: "mb \<in> set (cu_members c)"
    and w: "w \<in> mailboxes (me_server mb)" and sk: "sk \<in> honest"
    and signer: "w_sender_public_key w = identity_of (env_crypto E) sk"
  shows "\<exists>teller m0 db g g'. teller \<in> set (cu_members c) \<and>
    identity_of (env_crypto E) (me_key teller) = identity_of (env_crypto E) sk \<and>
    m0 \<in> spoken (me_server teller) \<and> view_grows view db (co_db (wh_node (me_server teller))) \<and>
    de (env_gpm E) (c_message m0) = Some g \<and> de (env_gpm E) (w_payload w) = Some g' \<and>
    gpm_sender g' = gpm_sender g \<and> gpm_receiver g' = gpm_receiver g \<and>
    (case gpm_receiver g of
       None \<Rightarrow> w_payload w = c_message m0
     | Some r \<Rightarrow> addressed_to E db (me_key mb) (c_room m0) r \<longrightarrow> g' = g) \<and>
    (strangers \<or> c_room m0 = w_room w)"
proof -
  note inv = cluster_inv_reachable [OF laws(1) reach]
  from inv have ok: "member_ok E view M (sources E honest strangers c) (length (wd_streams (cu_world c))) mb"
    if "mb \<in> set (cu_members c)" for mb using that unfolding cluster_inv_def by blast
  from ok [OF mb] have "all_origins E view (me_key mb) (sources E honest strangers c) (me_server mb)"
    unfolding member_ok_def by blast
  from mailboxes_opened [OF this w] obtain w0 where w0: "w0 \<in> sources E honest strangers c"
    "maybe_decrypt E (me_key mb) w0 = Ok w" unfolding opened_def by blast
  note frame = maybe_decrypt_frame [OF w0(2)]
  with signer have "w_sender_public_key w0 = identity_of (env_crypto E) sk" by simp
  from source_signed [OF laws(3) inv w0(1) sk this] obtain teller m where t: "teller \<in> set (cu_members c)"
    "identity_of (env_crypto E) (me_key teller) = identity_of (env_crypto E) sk"
    "m \<in> set (outbox (co_out (wh_node (me_server teller))))" "w_payload w0 = c_message m"
    "strangers \<or> w_room w0 = c_room m" by blast
  from ok [OF t(1)] have "all_origins E view (me_key teller) (sources E honest strangers c) (me_server teller)"
    unfolding member_ok_def by blast
  from all_origins_delivered(4) [OF this t(3)] obtain m0 db where m0: "m0 \<in> spoken (me_server teller)"
    "view_grows view db (co_db (wh_node (me_server teller)))" "maybe_encrypt E db m0 = Ok m"
    unfolding sealed_def by blast
  from opened_sealed [OF laws(2) m0(3) t(4) w0(2)] obtain g g' where g: "de (env_gpm E) (c_message m0) = Some g"
    "de (env_gpm E) (w_payload w) = Some g'" "gpm_sender g' = gpm_sender g" "gpm_receiver g' = gpm_receiver g"
    "case gpm_receiver g of None \<Rightarrow> w_payload w = c_message m0
     | Some r \<Rightarrow> addressed_to E db (me_key mb) (c_room m0) r \<longrightarrow> g' = g" by blast
  have "strangers \<or> c_room m0 = w_room w"
    using t(5) frame maybe_encrypt_room [OF m0(3)] by auto
  with t(1,2) m0(1,2) g show ?thesis by blast
qed

text \<open>A's message in the mailbox of B's player.\<close>

theorem delivered_message_was_said_witness:
  "\<exists>teller m0 g. teller \<in> set (cu_members talked_ab) \<and> m0 \<in> spoken (me_server teller) \<and>
     c_room m0 = room_ab_id \<and> de gpm_codec (c_message m0) = Some g \<and> gpm_sender g = 1 \<and> gpm_receiver g = Some 2"
proof -
  let ?b = "member_ab sk_b met_b 1 1 None []"
  have b: "?b \<in> set (cu_members talked_ab)" by (simp add: talked_ab_def cluster_ab_def)
  have "delivered_ab \<in> set (inbox_keygen 0 (co_out (wh_node (me_server ?b))))"
    by (simp add: member_ab_def met_b_def whole_b_def node_b2_def)
  then have w: "opened_ab \<in> mailboxes (me_server ?b)"
    unfolding mailboxes_def by (force simp: delivered_ab_def simp del: mailbox_member)
  have s: "w_sender_public_key opened_ab = identity_of (env_crypto sample) sk_a"
    by (simp add: opened_ab_def sample_identity)
  have g: "de (env_gpm sample) (w_payload opened_ab) = Some gpm_ab"
    using parse_ab by (simp add: opened_ab_def)
  from delivered_message_was_said [OF sample_store_laws sample_cipher_laws sample_transport_laws
      talked_ab_reachable [of False] b w _ s] g
  show ?thesis by (fastforce simp: gpm_ab_def opened_ab_def)
qed

section \<open>In which order it is heard\<close>

text \<open>C5: Without strangers, and among servers with different identities, a server hears another one's
  messages in the order in which they were given to that one's sink, none of them twice: what it has read
  from its stream with the signature of the other is a subsequence of the texts of the messages that the
  other's sink was given, each at most once, however the tasks of the broker interleave and whatever
  answers get lost. This holds as long as the room has fewer than 2^16 messages. The order is that of
  the sink: it need not be that in which the coordinator spawned the tasks that send.\<close>

theorem messages_keep_their_order:
  assumes "store_laws E view" and "transport_laws E" and "cluster_reachable E M honest False c"
    and "distinct (identities E c)" and "teller \<in> set (cu_members c)" and "hearer \<in> set (cu_members c)"
    and "length (ro_messages (bk_heap (wd_db (cu_world c)) !
      sub_room (lv_sub (wd_streams (cu_world c) ! me_stream hearer)))) < 65536"
  shows "subseq (filter (from_key E (me_key teller)) (texts_read (cu_world c) hearer)) (texts_sent E teller) \<and>
    distinct (given teller) \<and> set (given teller) \<subseteq> {..<length (outbox (co_out (wh_node (me_server teller))))}"
  using heard_in_order [OF assms] posts_okD(2,3) [OF members_ok_reachable(1) [OF assms(1,3,5)]] by blast

lemma talked_ab_fields:
  "cu_members talked_ab = [member_ab sk_a posted_a 0 0 None [wire_text], member_ab sk_b met_b 1 1 None []]"
  "cu_world talked_ab = world_of [wire_text] [Finished] [(0, wire_text)]"
  by (simp_all add: talked_ab_def cluster_ab_def)

lemma wire_text_from_a: "from_key sample sk_a wire_text"
  using parse_outgoing_text(1) [OF sample_transport_laws outgoing_text_ab] by (simp add: from_key_def)

theorem messages_keep_their_order_witness:
  "subseq [wire_text] (texts_sent sample (member_ab sk_a posted_a 0 0 None [wire_text]))"
proof -
  let ?a = "member_ab sk_a posted_a 0 0 None [wire_text]" and ?b = "member_ab sk_b met_b 1 1 None []"
  have m: "?a \<in> set (cu_members talked_ab)" "?b \<in> set (cu_members talked_ab)" by (simp_all add: talked_ab_fields)
  have d: "distinct (identities sample talked_ab)"
    by (simp add: talked_ab_fields member_ab_def sample_identity)
  have small: "length (ro_messages (bk_heap (wd_db (cu_world talked_ab)) !
      sub_room (lv_sub (wd_streams (cu_world talked_ab) ! me_stream ?b)))) < 65536"
    by (simp add: talked_ab_fields world_of_def member_ab_def new_stream_def)
  have "texts_read (cu_world talked_ab) ?b = [wire_text]"
    by (simp add: talked_ab_fields world_of_def member_ab_def texts_read_def)
  with messages_keep_their_order [OF sample_store_laws sample_transport_laws talked_ab_reachable [of False] d m small]
  show ?thesis using wire_text_from_a by (simp add: member_ab_def)
qed

section \<open>Whether it is heard\<close>

text \<open>C1: In every run of several servers, a message that an actor of one server has for the others, and
  gives to its coordinator next, can reach another server that has joined: there is a run without
  anything from outside, in which the coordinator seals it, the sink signs and posts it, the broker
  broadcasts it and the other server reads what its stream holds, after which every actor there of the
  same room that can read the message has it in its mailbox, with the sender, the receiver and the body
  that it was given. The message is for all or for the other server's index; both servers have stored
  the group with its members, the sink has kept its client and is not busy, the broker
  takes texts of this size, and the other server's stream is open in the broker's current room.\<close>

theorem message_reaches_other_server:
  assumes laws: "store_laws E view" "cipher_laws E" "transport_laws E"
    and reach: "cluster_reachable E M honest strangers c"
    and a: "i < length (cu_members c)" "a = cu_members c ! i"
    and b: "k < length (cu_members c)" "b = cu_members c ! k" "i \<noteq> k"
    and groups: "same_members pks th (identity_of (env_crypto E) (me_key a)) (identity_of (env_crypto E) (me_key b)) g_a g_b"
    and ne: "identity_of (env_crypto E) (me_key a) \<noteq> identity_of (env_crypto E) (me_key b)"
    and known: "retrieve_group E (co_db (wh_node (me_server a))) (pg_group_id g_a) = Ok g_a"
      "retrieve_group E (co_db (wh_node (me_server b))) (pg_group_id g_b) = Ok g_b"
    and ready: "me_waits a = None" "me_link a \<noteq> None" "\<not> wh_stopped (me_server a)"
    and said: "said_in e (me_server a) = Some msg"
    and room: "c_room msg = make_room_id rid (pg_group_id g_a)"
      "CHR ''@'' \<notin> set rid" "CHR ''@'' \<notin> set (pg_group_id g_a)"
    and m: "de (env_gpm E) (c_message msg) = Some m" "gpm_receiver m = None \<or> gpm_receiver m = get_i g_b"
    and enc: "maybe_encrypt E (co_db (wh_node (me_server a))) msg = Ok msg'"
    and posted: "outgoing_text E (me_key a) (identity_of (env_crypto E) (me_key a)) msg' = Ok t" "broker_accepts t"
    and hears: "me_waits b = None" "\<not> wh_stopped (me_server b)" "named E view (co_db (wh_node (me_server b)))"
    and stream: "l = wd_streams (cu_world c) ! me_stream b" "lv_open l"
      "bk_rooms (wd_db (cu_world c)) ROOM_ID = Some (sub_room (lv_sub l))" "length (wd_streams (cu_world c)) < 65536"
      "length (ro_messages (bk_heap (wd_db (cu_world c)) ! sub_room (lv_sub l))) < 65535"
  shows "\<exists>es c' w. list_all harmless es \<and> cluster_run E M es c = Some c' \<and>
    w_sender_public_key w = identity_of (env_crypto E) (me_key a) \<and> w_room w = c_room msg \<and>
    de (env_gpm E) (w_payload w) = Some m \<and>
    handed_on E (wh_node (me_server b)) w (co_out (wh_node (me_server (cu_members c' ! k))))"
  using travels [OF assms] by blast

lemma started_b_named: "named sample id (co_db (wh_node started_b))"
proof (rule named_whole [OF sample_store_laws sample_formats_disjoint])
  show "whole_reachable sample machines_talk sk_b Map.empty Map.empty started_b"
    by (rule whole_reachable_run [OF _ awake_b_run]) (simp add: fresh_b_def begin_whole)
qed (simp_all add: named_def taken_def started_b_def whole_b_def handle_def takes_part_def)

text \<open>All of this holds when the player of A has been polled and B's has started.\<close>

abbreviation speaker_ab where "speaker_ab \<equiv> member_ab sk_a thinks_a 0 0 None []"
abbreviation listener_ab where "listener_ab \<equiv> member_ab sk_b started_b 1 0 None []"

lemma keys_ab: "identity_of (env_crypto sample) (me_key speaker_ab) = key_a"
    "identity_of (env_crypto sample) (me_key listener_ab) = key_b"
  by (simp_all add: member_ab_def sample_identity)

lemma way_ab:
  shows "0 < length (cu_members thinking_ab)" "speaker_ab = cu_members thinking_ab ! 0"
    and "1 < length (cu_members thinking_ab)" "listener_ab = cu_members thinking_ab ! 1" "(0::nat) \<noteq> 1"
    and "same_members [key_a, key_b] 1 (identity_of (env_crypto sample) (me_key speaker_ab))
      (identity_of (env_crypto sample) (me_key listener_ab)) (group_ab key_a) (group_ab key_b)"
    and "identity_of (env_crypto sample) (me_key speaker_ab) \<noteq> identity_of (env_crypto sample) (me_key listener_ab)"
    and "retrieve_group sample (co_db (wh_node (me_server speaker_ab))) (pg_group_id (group_ab key_a)) = Ok (group_ab key_a)"
    and "retrieve_group sample (co_db (wh_node (me_server listener_ab))) (pg_group_id (group_ab key_b)) = Ok (group_ab key_b)"
    and "me_waits speaker_ab = None" "me_link speaker_ab \<noteq> None" "\<not> wh_stopped (me_server speaker_ab)"
    and "said_in (Emit_keygen 0 0) (me_server speaker_ab) = Some msg_ab"
    and "c_room msg_ab = make_room_id ''r'' (pg_group_id (group_ab key_a))"
    and "CHR ''@'' \<notin> set ''r''" "CHR ''@'' \<notin> set (pg_group_id (group_ab key_a))"
    and "de (env_gpm sample) (c_message msg_ab) = Some gpm_ab"
    and "gpm_receiver gpm_ab = None \<or> gpm_receiver gpm_ab = get_i (group_ab key_b)"
    and "maybe_encrypt sample (co_db (wh_node (me_server speaker_ab))) msg_ab = Ok sealed_ab"
    and "outgoing_text sample (me_key speaker_ab) (identity_of (env_crypto sample) (me_key speaker_ab)) sealed_ab = Ok wire_text"
    and "broker_accepts wire_text" "me_waits listener_ab = None" "\<not> wh_stopped (me_server listener_ab)"
    and "named sample id (co_db (wh_node (me_server listener_ab)))"
    and "wd_streams (cu_world thinking_ab) ! me_stream listener_ab = wd_streams (cu_world thinking_ab) ! me_stream listener_ab"
    and "lv_open (wd_streams (cu_world thinking_ab) ! me_stream listener_ab)"
    and "bk_rooms (wd_db (cu_world thinking_ab)) ROOM_ID =
      Some (sub_room (lv_sub (wd_streams (cu_world thinking_ab) ! me_stream listener_ab)))"
    and "length (wd_streams (cu_world thinking_ab)) < 65536"
    and "length (ro_messages (bk_heap (wd_db (cu_world thinking_ab)) !
      sub_room (lv_sub (wd_streams (cu_world thinking_ab) ! me_stream listener_ab)))) < 65535"
  unfolding keys_ab
  using parse_ab started_b_named wire_text_accepted seal_ab [of key_a] outgoing_text_ab
  by (simp_all add: thinking_ab_def cluster_ab_def member_ab_def same_members_def sample_ab_id retrieve_ab
      thinks_a_def started_b_def whole_b_def player_a_out room_ab_make msg_ab_room room_ab_id_def
      world_of_def new_stream_def gpm_ab_def sample_identity)

abbreviation hello_ab where "hello_ab \<equiv> \<lparr>m_sender = 1, m_receiver = Some 2, m_body = ''khello''\<rparr> :: string msg"

lemma hello_ab_typed:
  assumes "de (env_gpm sample) s = Some gpm_ab" shows "ce_msg_kg sample s = Some hello_ab"
  using assms by (simp add: tagged_def) (simp add: gpm_ab_def)

theorem message_reaches_other_server_witness:
  "\<exists>es c' w. cluster_run sample machines_talk es thinking_ab = Some c' \<and>
     \<lparr>im_room = room_ab_id, im_wire_message = w, im_message = \<lparr>m_sender = 1, m_receiver = Some 2, m_body = ''khello''\<rparr>\<rparr>
       \<in> set (inbox_keygen 0 (co_out (wh_node (me_server (cu_members c' ! 1)))))"
proof -
  from message_reaches_other_server [OF sample_store_laws sample_cipher_laws sample_transport_laws
      thinking_ab_reachable [of False] way_ab]
  obtain es c' w where w: "cluster_run sample machines_talk es thinking_ab = Some c'" "w_room w = c_room msg_ab"
    "de (env_gpm sample) (w_payload w) = Some gpm_ab"
    "handed_on sample (wh_node (me_server listener_ab)) w (co_out (wh_node (me_server (cu_members c' ! 1))))"
    by (elim exE conjE) (rule that)
  have b: "wh_node (me_server listener_ab) = node_b1" by (simp add: member_ab_def started_b_def whole_b_def)
  have "w_room w = room_ab_id" using w(2) msg_ab_room by (simp add: room_ab_id_def)
  moreover have "co_keygen_runners node_b1 room_ab_id = Some 0" by simp
  ultimately have "\<lparr>im_room = room_ab_id, im_wire_message = w, im_message = hello_ab\<rparr>
      \<in> set (inbox_keygen 0 (co_out (wh_node (me_server (cu_members c' ! 1)))))"
    using w(4) hello_ab_typed [OF w(3)] unfolding b handed_on_def by simp
  with w(1) show ?thesis by blast
qed

text \<open>C23: The last message of a key generation completes it: when the player of a server only lacks one
  message of another server's player, that is, when its machine would take the message and then have
  its output, there is a run with nothing from outside after which the server's client is told that the
  key is done. Between them lie the whole way of C1, the player with its machine, the coordinator and
  the database of results. The conditions are those of C1, that the receiving server and its player
  have read all that there was before, and that the libraries give each output once.\<close>

theorem last_message_completes_key:
  assumes laws: "store_laws E view" "cipher_laws E" "transport_laws E"
    and reach: "cluster_reachable E M honest strangers c"
    and a: "i < length (cu_members c)" "a = cu_members c ! i"
    and b: "k < length (cu_members c)" "b = cu_members c ! k" "i \<noteq> k"
    and groups: "same_members pks th (identity_of (env_crypto E) (me_key a)) (identity_of (env_crypto E) (me_key b)) g_a g_b"
    and ne: "identity_of (env_crypto E) (me_key a) \<noteq> identity_of (env_crypto E) (me_key b)"
    and known: "retrieve_group E (co_db (wh_node (me_server a))) (pg_group_id g_a) = Ok g_a"
      "retrieve_group E (co_db (wh_node (me_server b))) (pg_group_id g_b) = Ok g_b"
    and ready: "me_waits a = None" "me_link a \<noteq> None" "\<not> wh_stopped (me_server a)"
    and said: "said_in e (me_server a) = Some msg"
    and room: "c_room msg = make_room_id rid (pg_group_id g_a)"
      "CHR ''@'' \<notin> set rid" "CHR ''@'' \<notin> set (pg_group_id g_a)"
    and m: "de (env_gpm E) (c_message msg) = Some m" "gpm_receiver m = None \<or> gpm_receiver m = get_i g_b"
    and enc: "maybe_encrypt E (co_db (wh_node (me_server a))) msg = Ok msg'"
    and posted: "outgoing_text E (me_key a) (identity_of (env_crypto E) (me_key a)) msg' = Ok t" "broker_accepts t"
    and hears: "me_waits b = None" "\<not> wh_stopped (me_server b)" "named E view (co_db (wh_node (me_server b)))"
    and stream: "l = wd_streams (cu_world c) ! me_stream b" "lv_open l"
      "bk_rooms (wd_db (cu_world c)) ROOM_ID = Some (sub_room (lv_sub l))" "length (wd_streams (cu_world c)) < 65536"
      "length (ro_messages (bk_heap (wd_db (cu_world c)) ! sub_room (lv_sub l))) < 65535"
    and caught_up: "me_read b = length (ro_messages (bk_heap (wd_db (cu_world c)) ! sub_room (lv_sub l)))"
    and player: "co_keygen_runners (wh_node (me_server b)) (c_room msg) = Some adr" "wh_kg (me_server b) adr = Some ac"
      "ac_read ac = length (inbox_keygen adr (co_out (wh_node (me_server b))))"
    and typed: "\<And>s. de (env_gpm E) s = Some m \<Longrightarrow> ce_msg_kg E s = Some pm"
    and last: "accepts (pl_index (ac_state ac)) pm" "completes (mc_keygen M) (pl_state (ac_state ac)) pm"
    and libraries: "picks_once (mc_keygen M) kspent" "picks_once (mc_offline M) ospent" "results_laws E view'"
    and asked: "kr_request_id (pl_input (ac_state ac)) = cq_request_id q"
      "length (accepted (cq_request_id q) (me_server b)) \<le> 1"
  shows "\<exists>es c' r. list_all harmless es \<and> cluster_run E M es c = Some c' \<and>
    check_result E q (wh_imp (me_server (cu_members c' ! k))) = Ok r \<and> cr_request_status r = request_status_i32 Done"
proof -
  from travels [OF laws reach a b groups ne known ready said room m enc posted hears stream] caught_up
  obtain es c1 w where w: "list_all harmless es" "cluster_run E M es c = Some c1" "w_room w = c_room msg"
    "de (env_gpm E) (w_payload w) = Some m" "k < length (cu_members c1)" "me_waits (cu_members c1 ! k) = None"
    "heard_only (me_server b) (me_server (cu_members c1 ! k))"
    "wh_node (me_server (cu_members c1 ! k)) =
       handle_incoming_unsafe E w 0 0 (emit [Inc MESSAGES_TOTAL_RECEIVED] (wh_node (me_server b)))"
    by blast
  let ?b = "cu_members c1 ! k" and ?im = "\<lparr>im_room = w_room w, im_wire_message = w, im_message = pm\<rparr>"
  have "inbox_keygen adr (co_out (wh_node (me_server ?b))) = inbox_keygen adr (co_out (wh_node (me_server b))) @ [?im]"
    using given_to_player [of "wh_node (me_server b)" w adr E pm] player(1) w(3) typed [OF w(4)]
    by (simp add: w(8) inbox_keygen_def map_filter_append List.map_filter_simps)
  note box = this player(3)
  have now: "\<not> wh_stopped (me_server ?b)" "wh_kg (me_server ?b) adr = Some ac"
    "length (accepted (cq_request_id q) (me_server ?b)) \<le> 1"
    using w(7) hears(2) player(2) asked(2) heard_only_accepted [OF w(7)] by (simp_all add: heard_only_def)
  from completes_at_client [OF laws(1) libraries cluster_reachable_run [OF reach w(1,2)] w(5) refl w(6) now(1,3,2)
      asked(1) box] last
  obtain fs c' r where r: "list_all harmless fs" "cluster_run E M fs c1 = Some c'"
    "check_result E q (wh_imp (me_server (cu_members c' ! k))) = Ok r" "cr_request_status r = request_status_i32 Done"
    by auto
  have "cluster_run E M (es @ fs) c = Some c'" using w(2) r(2) by (simp add: cluster_run_append)
  moreover have "list_all harmless (es @ fs)" using w(1) r(1) by simp
  ultimately show ?thesis using r(3,4) by blast
qed

theorem last_message_completes_key_witness:
  "\<exists>es c' r. cluster_run sample machines_talk es thinking_ab = Some c' \<and>
     check_result sample \<lparr>cq_request_id = ''r''\<rparr> (wh_imp (me_server (cu_members c' ! 1))) = Ok r \<and>
     cr_request_status r = request_status_i32 Done"
proof -
  let ?ac = "\<lparr>ac_state = player_started player_b, ac_read = 0, ac_sent = 0\<rparr>"
  have player: "co_keygen_runners (wh_node (me_server listener_ab)) (c_room msg_ab) = Some 0"
    "wh_kg (me_server listener_ab) 0 = Some ?ac"
    "ac_read ?ac = length (inbox_keygen 0 (co_out (wh_node (me_server listener_ab))))"
    using msg_ab_room by (simp_all add: member_ab_def started_b_def whole_b_def room_ab_id_def inbox_keygen_def List.map_filter_simps)
  have read: "me_read listener_ab = length (ro_messages (bk_heap (wd_db (cu_world thinking_ab)) !
      sub_room (lv_sub (wd_streams (cu_world thinking_ab) ! me_stream listener_ab))))"
    by (simp add: thinking_ab_def cluster_ab_def member_ab_def world_of_def new_stream_def)
  have last: "accepts (pl_index (ac_state ?ac)) hello_ab" "completes (mc_keygen machines_talk) (pl_state (ac_state ?ac)) hello_ab"
    by (simp_all add: accepts_def player_started_def player_b_def player_new_def completes_def machines_talk_def
        talk_once_def sm_step_def sm_result_def)
  have asked: "kr_request_id (pl_input (ac_state ?ac)) = cq_request_id \<lparr>cq_request_id = ''r''\<rparr>"
    "length (accepted (cq_request_id \<lparr>cq_request_id = ''r''\<rparr>) (me_server listener_ab)) \<le> 1"
    by (simp_all add: player_started_def player_b_def player_new_def req_ab_def accepted_def member_ab_def started_b_def whole_b_def)
  from last_message_completes_key [OF sample_store_laws sample_cipher_laws sample_transport_laws
      thinking_ab_reachable [of False] way_ab read player hello_ab_typed last machines_talk_laws sample_results_laws asked]
  show ?thesis by blast
qed

text \<open>C19: When the answer to one POST is lost, the server is at its end: whatever happens afterwards, it
  never asks the broker for a broadcast again, no later message of its coordinator is sent, and the first
  that the coordinator gives to the sink ends it, because the sink has lost its state and panics.\<close>

theorem lost_answer_dooms_server:
  assumes "store_laws E view" and "cluster_step E M (Reply i None) c = Some c1"
    and "cluster_run E M es c1 = Some c2" and "cluster_reachable E M honest strangers c2"
  shows "i < length (cu_members c2) \<and> me_asked (cu_members c2 ! i) = me_asked (cu_members c ! i) \<and>
    given (cu_members c2 ! i) = given (cu_members c ! i) \<and>
    (\<forall>p reply. cluster_step E M (Send i p) c2 = None \<and> cluster_step E M (Skip i p reply) c2 = None) \<and>
    (\<forall>reply m. snd (sink_send (unfold_messenger E) reply m (me_link (cu_members c2 ! i))) = Panic) \<and>
    (\<forall>ok m. snd (send_one (sink_result (wh_lost (me_server (cu_members c2 ! i))) ok) m
       (wh_node (me_server (cu_members c2 ! i)))) = Panic)"
proof -
  note lost = lost_reply [OF assms(2)]
  with silent_run [OF _ _ assms(3), of i] have "i < length (cu_members c2)" "mute (cu_members c ! i) (cu_members c2 ! i)"
    by simp_all
  with next_send_panics [OF assms(1,4)] show ?thesis by blast
qed

text \<open>A loses the answer to its first POST.\<close>

definition muted_ab :: sample_cluster where
  "muted_ab = cluster_ab (world_of [] [Enter (For_broadcast wire_text)] [])
     ((member_ab sk_a (posted_a\<lparr>wh_lost := True\<rparr>) 0 0 None [wire_text])\<lparr>me_link := None\<rparr>) (member_ab sk_b started_b 1 0 None [])"

lemma mute_ab: "cluster_step sample machines_talk (Reply 0 None) sending_ab = Some muted_ab"
  using next_out_ab [of 0 "Some (0, 2)" "[wire_text]"] said_a_posts [of False]
  by (simp add: at_member_def sending_ab_def muted_ab_def cluster_ab_def member_sent_def messenger_sink.send_cases del: whole_step.simps)
    (simp add: member_ab_def member_sent_def messenger_sink.send_cases del: whole_step.simps)

theorem lost_answer_dooms_server_witness:
  "\<forall>ok m. snd (send_one (sink_result (wh_lost (me_server (cu_members muted_ab ! 0))) ok) m
     (wh_node (me_server (cu_members muted_ab ! 0)))) = Panic"
proof -
  have "cluster_run sample machines_talk [Send 0 0, Reply 0 None] eager_ab = Some muted_ab"
    by (simp add: send_ab mute_ab del: cluster_step.simps)
  then have "cluster_reachable sample machines_talk {sk_a, sk_b} False muted_ab"
    by (intro cluster_reachable_run [OF eager_ab_reachable, of "[Send 0 0, Reply 0 None]"]) simp_all
  from lost_answer_dooms_server [OF sample_store_laws mute_ab _ this, of "[]"] show ?thesis by simp
qed

end
