(* ===== verification/Spec2Isabelle.thy ===== *)
theory Spec2Isabelle
  imports Mpc_Prelude Pb Rooms Externals Group Messages Stores Ciphers Transport Msg_Utils Player
    Signer Coordinator Coordinator_Facts Keystore Server Messenger Messenger_Facts Node
    Joins Startup Whole_Server Whole_Facts Whole_Status Whole_Requests Whole_Trust Whole_Progress
    Whole_Panic Typed_Store Whole_Origin Delivery Cluster Cluster_Facts Cluster_Order Cluster_Progress
    Cluster_Delivery Grpc Samples
    Properties_Data Properties_Actors Properties_Coordinator Properties_Protocols Properties_Service
    Properties_Startup Properties_Whole Properties_Cluster
begin

text \<open>
  This development models the multi-party computation server of this repository: a set of servers,
  each with a secp256k1 key, that generate threshold ECDSA keys together and sign with them. A
  client talks to its server over gRPC; the servers talk to each other through a message broker
  (the repository's own, or Redis).

  \<^bold>\<open>The program.\<close> \<open>src/src/main.rs\<close> reads the arguments, the secret key (\<open>keystore.rs\<close>) and the
  database, and starts three tasks: the gRPC service (\<open>server.rs\<close>), which checks a request, reports
  it as received and puts it on a channel; the task that stores every response in the database of
  results, where \<open>check_result\<close> finds it; and the coordinator (\<open>actors/coordinator.rs\<close>). The
  coordinator is an actor: it handles one message at a time. For a key generation it starts a
  \<open>MpcPlayer\<close> (\<open>actors/player.rs\<close>) over the key generation machine of the library, for a signing
  request one over the machine of the offline stage and, when that ends, a \<open>Signer\<close>
  (\<open>actors/signer.rs\<close>) for the last round. What these actors send goes back to the coordinator,
  which encrypts messages with one receiver (\<open>crypto/encrypter.rs\<close>) and hands everything to the
  sink of the transport (\<open>transport/\<close>), which signs it. What arrives is checked for its signature by
  the transport, for its sender and receiver by the coordinator, decrypted
  (\<open>crypto/decrypter.rs\<close>), and delivered to the actor that runs in its room, or kept for a
  retry. Rooms (\<open>utils/mod.rs\<close>) are named by request id and group id; groups and key shares are kept
  in the database (\<open>storage/\<close>). The broker (\<open>src/messenger/src/main.rs\<close>) is a program of its own:
  it keeps the texts broadcast to its room and streams them to every subscriber.

  \<^bold>\<open>The theories\<close>, each over those above it:

  \<^item> \<open>Mpc_Prelude\<close>: machine integers as words, the outcome of a call (\<open>Ok\<close>, \<open>Err\<close>, \<open>Panic\<close>) with the
    combinators for \<open>?\<close>, \<open>context\<close> and \<open>unwrap\<close>, strings as lists of UTF-8 bytes, and the lemma
    collections \<open>outcome_simps\<close> and \<open>string_simps\<close>.
  \<^item> \<open>Pb\<close> (\<open>pb/\<close>): the messages, the enumerations and the routes of the service. \<open>Rooms\<close>
    (\<open>utils/mod.rs\<close>). \<open>Group\<close> (\<open>core/group.rs\<close>, \<open>crypto/eciesext.rs\<close>): \<open>group_new\<close> is
    \<open>PublicKeyGroup::new\<close>. \<open>Messages\<close> (\<open>actors/messages.rs\<close>, \<open>actors/types.rs\<close>,
    \<open>core/types.rs\<close>): the data of the actors.
  \<^item> \<open>Externals\<close>: the foreign code as records of functions, with the laws that are relied on:
    \<open>sled\<close> (the database), \<open>codec\<close> (serde), \<open>crypto\<close> (secp256k1, ECIES, SHA-256, hex, base64).
    \<open>env\<close> in \<open>Messages\<close> and \<open>cenv\<close> in \<open>Coordinator\<close> put them together.
  \<^item> \<open>Stores\<close> (\<open>storage/\<close>), with the locale \<open>cas_store\<close> (a store in which the first writer of a
    name wins), interpreted for groups and for shares; \<open>Ciphers\<close> (\<open>crypto/\<close>), with the locale
    \<open>payload_cipher\<close>, interpreted as \<open>simple\<close>; \<open>Transport\<close> (\<open>transport/\<close>), with the locale
    \<open>broadcast_channel\<close>, interpreted for the messenger and for Redis. \<open>Msg_Utils\<close>
    (\<open>actors/msg_utils.rs\<close>).
  \<^item> \<open>Player\<close>: the actor \<open>MpcPlayer\<close> over any state machine (\<open>sm_api\<close>); a handler appends what it sends
    to \<open>pl_out\<close>. \<open>Signer\<close>: likewise, with the abstract signer \<open>spec_results\<close>.
  \<^item> \<open>Coordinator\<close>: the state record \<open>coordinator\<close>, one definition for each method and handler; the
    effects (counters, responses, actors started, deliveries, timers, sends) are appended to
    \<open>co_out\<close> in the order of the code. \<open>Coordinator_Facts\<close>: equations for the handlers, when they
    panic, what they keep, the chain of retries.
  \<^item> \<open>Keystore\<close> (\<open>keystore.rs\<close>); \<open>Server\<close> (\<open>server.rs\<close>, \<open>main.rs\<close>, \<open>actors/mod.rs\<close>, \<open>cli.rs\<close>);
    \<open>Grpc\<close>: the generated client and service around it (\<open>pb/mpc.rs\<close>).
  \<^item> \<open>Messenger\<close>: the broker, with rooms on a heap since \<open>Arc<Room>\<close> is shared, and its tasks as an
    inductive step relation \<open>world_step\<close> whose steps are the critical sections of the code;
    \<open>Messenger_Facts\<close>: the invariants of its runs.
  \<^item> \<open>Node\<close>: a server at work, as an inductive step relation \<open>node_step\<close>: any handler of the
    coordinator may run next, with messages from the transport's checks, timers that were set, and
    errors and outputs of actors that were started; its invariant \<open>node_inv\<close>.
  \<^item> \<open>Joins\<close>: the two clients, joining, and the sinks with the replies of the network, with the locale
    \<open>fallible_sink\<close>, interpreted for both. \<open>Startup\<close>: \<open>main\<close> of the server, of the broker with its
    routes, and of the key tool.
  \<^item> \<open>Whole_Server\<close>: the service, the coordinator and the actors that it starts as one executable step
    function. \<open>Whole_Facts\<close>: what each handler adds, how an actor moves, the refinement of \<open>Node\<close>.
    \<open>Whole_Status\<close>: actors report once, with the locale \<open>reporter\<close>, interpreted for key generation
    players, offline players and signers. \<open>Whole_Requests\<close>: the automaton of a request, the channels
    and the stored results. \<open>Whole_Trust\<close>: mailboxes. \<open>Whole_Progress\<close>: what an
    actor has sent can be handled to the end, with the locale \<open>channel\<close>, interpreted for the three
    kinds of actors. \<open>Whole_Panic\<close>: which events are enabled, which requests cannot be served, and that
    all else goes on. \<open>Typed_Store\<close>: the entries of the database. \<open>Whole_Origin\<close>: where what the
    coordinator delivers, keeps and sends comes from. \<open>Delivery\<close>: the message of another member of the
    group, from the stream to the mailboxes.
  \<^item> \<open>Cluster\<close>: several servers over one broker, with a network that may fail, as one executable step
    function. \<open>Cluster_Facts\<close>: its parts, and the source of every text. \<open>Cluster_Order\<close>: the order in
    which the texts of a server are published and read, and what its sink was given. \<open>Cluster_Progress\<close>:
    sinks that are lost, and messages that get to the broker's streams. \<open>Cluster_Delivery\<close>: a message on
    its whole way, and the last message of a key.
  \<^item> \<open>Samples\<close>: one concrete environment on which all laws hold, for the witnesses.
  \<^item> \<open>Properties_Data\<close>, \<open>Properties_Actors\<close>, \<open>Properties_Coordinator\<close>, \<open>Properties_Protocols\<close>,
    \<open>Properties_Service\<close>, \<open>Properties_Startup\<close>, \<open>Properties_Whole\<close>, \<open>Properties_Cluster\<close> and this
    theory: the properties C1 to C39.

  \<^bold>\<open>What is shown.\<close> Of the whole server: every step keeps the phase of a request or advances it in
  an abstract automaton (C4), so that its statuses come in order (C14), a client never sees one go
  back (C7), and it sees the end of work that an actor has finished (C8); what is in the mailbox of
  an actor comes from a member of its room (C22); the database stays typed (C17); what can make it panic
  is a request that cannot be served and a message for a sink that has failed, and nothing else (C6); a
  server whose stream has ended accepts requests in vain (C26). Of the coordinator: what each request
  starts (C10, C21), what each output leads to (C11, C35, C36), requests that make it panic, then or
  later (C27, C28, \<open>keygen_request_panics_iff\<close>), how long messages are kept (C13, C24, C37,
  \<open>not_for_me_dropped_unless_retried\<close>), and, over every run, who may talk to a protocol actor (C3). Of the
  actors: a player and a signer do what their specifications say over every run (C12, C31, C32). Of the
  parts: stores return what was saved first (\<open>group_store_first_wins\<close>, \<open>share_store_round_trip\<close>,
  \<open>stores_do_not_interfere\<close>); what is encrypted for a member is opened by that member, and nothing for one
  receiver leaves in the clear (C16, C33); exactly signed messages are accepted (\<open>accepted_iff_signed\<close>),
  the room not being covered (C34); the transports deliver the messages of the others in order
  (\<open>messenger_delivers_in_order\<close>), cannot be told apart (C18), and panic on the message after one that
  failed (\<open>failed_send_ends\<close>). Of the service and its start: C20, C38, C39. Of the broker, over every
  interleaving: C15, C29, C30, and C25 on what it refuses. C9 follows one message of a player of one
  server to a player of another through the functions that it passes. Of several servers over one broker,
  in every run: that such a message can get there over the sink, the broker with its tasks and the stream
  (C1), and when it is the last one that a key lacks, completes it (C23); who said what is heard (C2); in
  which order (C5); and that a server whose POST was not answered is at its end (C19).

  \<^bold>\<open>How the whole is composed.\<close> The state \<open>whole\<close> has the service with its two channels, the
  coordinator, and for each address the player or signer that was started there. Mailboxes are
  not stored twice: the messages for an actor are the deliveries among the coordinator's effects,
  of which the actor has read a number; likewise for what an actor has sent and for the channels. The
  sink takes the messages that the coordinator has spawned a \<open>send_one\<close> for one at a time but in any
  order, as the tasks that wait for it need not get it in theirs, so \<open>wh_posted\<close> has their positions;
  whether the closure of the sink has given its state back is part of the event \<open>Post\<close>, and \<open>wh_lost\<close>
  is set when it has not: the next \<open>send_one\<close> then panics. An event names the handler that runs next; \<open>whole_step\<close> is executable, and
  \<open>whole_reachable\<close> its closure; it composes the handlers and translates no code of its own, except for
  the loops of \<open>main.rs\<close> (lines 126 to 157), which take from the channels. \<open>whole_step_node\<close> (a refinement) turns each step into one of \<open>Node\<close>,
  whose invariant so carries over; the other way round, what \<open>Node\<close> leaves open (when an actor
  fails or finishes) is decided here by the actors themselves. The protocol libraries are only assumed
  to give an output once (\<open>picks_once\<close>). The phases of a request (\<open>phase\<close>, \<open>advances\<close>) are read off the
  coordinator's effects and the actors' reports by \<open>in_phase\<close>.

  \<^bold>\<open>How several servers are composed.\<close> The state \<open>cluster\<close> has the broker with its tasks and streams
  (\<open>world\<close>) and the servers that have joined, each with its sink, its stream, and, while \<open>send_one\<close>
  awaits the answer, the position of its message and the task of the broker that its POST has become. The
  sink is \<open>unfold_messenger\<close> under \<open>sink_send\<close>, which states what \<open>sink::unfold\<close> of \<open>futures\<close> 0.3.25 does
  with a closure: after an error it has no state, and panics on the next message. \<open>cluster_step\<close> is again
  a composition, not a translation: it takes a step of one
  server, of one task of the broker, or moves a text between them; requests and answers may get lost,
  and streams may end. In \<open>cluster_reachable\<close>, others may also ask for broadcasts if \<open>strangers\<close> is set:
  of any text that does not carry a valid signature of an honest key on a payload which no server
  with this key has asked to send (\<open>unforged\<close>), so they replay but do not forge.

  \<^bold>\<open>Bounds.\<close> Words have the widths of the code. A message is tried 33 times at most, so 33 steps are
  enough for \<open>pursue\<close> in C13, which is why its result is the final one. C15 is stated for rooms of
  fewer than \<open>2 ^ 16\<close> messages because event numbers are \<open>u16\<close>; \<open>stream_wraps_around\<close> shows what
  happens beyond. Group sizes below \<open>2 ^ 16\<close> are assumed where an index is cut to \<open>u16\<close>. No
  definition of the model needs fuel: its loops are over lists.

  \<^bold>\<open>What is not modelled.\<close> The cryptographic protocols and libraries, serde, sled, HTTP, Redis, files
  and the clock are parameters: nothing is assumed of them but the named laws, each of which holds of
  \<open>Samples.sample\<close>. Errors of \<open>anyhow\<close> are their outermost message. Logging is left out, but for
  the description of messages. The actor runtime is modelled as queues that are never full, as its
  own are for \<open>do_send\<close>; a panic ends the server, where the runtime would end one thread. In the runs
  of one whole server a failure of the network is only seen in what the sink gives back; what of a text
  then reaches the broker is in \<open>Joins\<close> and \<open>Cluster\<close>. A cluster is joined over the messenger; that Redis
  behaves alike is shown for the transport alone. Left out for good: the build script, and \<open>tonic\<close> itself,
  which \<open>Grpc\<close> takes as an argument.

  \<^bold>\<open>Still to come\<close>: that a key generation whose machines agree is completed from its start, of which
  C1, C8 and C23 are the steps; the same for a signature.
\<close>

section \<open>From one player to another\<close>

text \<open>C9: A protocol message for one party, that the coordinator of server A takes from a player and puts
  on the broker, is given by the coordinator of server B, when it is the receiver and has a player
  for the room, to that player, with the sender, the receiver and the body that A's player gave it:
  it passes encryption, signature, broker, signature check, group check and decryption.\<close>

theorem unicast_reaches_player:
  assumes laws: "transport_laws E" "cipher_laws E"
    and ids: "id_a = identity_of (env_crypto E) sk_a" "id_b = identity_of (env_crypto E) sk_b" "id_a \<noteq> id_b"
    and groups: "group_new pks t id_a = Some g_a" "group_new pks t id_b = Some g_b" "id_a \<in> set pks"
      "length pks < 65536"
    and known: "retrieve_group E (co_db c_a) (pg_group_id g_a) = Ok g_a"
      "retrieve_group E (co_db c_b) (pg_group_id g_b) = Ok g_b"
    and plain: "CHR ''@'' \<notin> set rid" "CHR ''@'' \<notin> set (pg_group_id g_a)"
    and room: "room = make_room_id rid (pg_group_id g_a)" "c_room msg = room"
    and m: "de (env_gpm E) (c_message msg) = Some m" "gpm_receiver m = Some r" "get_i g_b = Some r"
    and sent: "handle_coordinator_message E now (Outgoing msg) c_a = (emit [Send_one msg'] c_a, Ok ())"
      "messenger_outgoing E sk_a msg' = Ok req"
    and b: "co_pk_str c_b = id_b" "co_sk c_b = sk_b" "co_keygen_runners c_b room = Some a"
    and typed: "\<And>s. de (env_gpm E) s = Some m \<Longrightarrow> ce_msg_kg E s = Some pm"
  shows "\<exists>received w. messenger_incoming E id_b [sse_delivery req] = [received] \<and>
    snd (stream_handle E now' received c_b) = Ok () \<and>
    Deliver_keygen a \<lparr>im_room = room, im_wire_message = w, im_message = pm\<rparr>
      \<in> set (co_out (fst (stream_handle E now' received c_b))) \<and>
    w_sender_public_key w = id_a \<and> de (env_gpm E) (w_payload w) = Some m"
proof -
  have enc: "maybe_encrypt E (co_db c_a) msg = Ok msg'"
    using arg_cong [OF sent(1), where f = "\<lambda>r. co_out (fst r)"]
    by (cases "maybe_encrypt E (co_db c_a) msg") simp_all
  let ?w = "signed_wire E sk_a msg'"
  have received: "messenger_incoming E id_b [sse_delivery req] = [Ok ?w]"
    using via_messenger.incoming_sent [OF laws(1) sent(2), of id_b] ids by simp
  have "id_b \<in> set pks"
    using m(3) get_i_None_iff [of g_b] group_new_fields [OF groups(2)] by force
  with groups have both: "same_members pks t id_a id_b g_a g_b" by (simp add: same_members_def)
  have known_b: "retrieve_group E (co_db c_b) (pg_group_id g_b) = Ok g_b"
    using known(2) same_membersD(6) [OF both] by simp
  have room': "c_room msg = make_room_id rid (pg_group_id g_a)" using room by simp
  have "gpm_receiver m = None \<or> gpm_receiver m = get_i g_b" using m(2,3) by simp
  from member_is_heard [OF laws(2) both ids(1,2) known(1) known_b room' plain m(1) this enc b(1,2), of now']
  obtain s where s: "de (env_gpm E) s = Some m" "stream_handle E now' (Ok ?w) c_b =
      (handle_incoming_unsafe E (?w\<lparr>w_payload := s\<rparr>) now' 0 (emit [Inc MESSAGES_TOTAL_RECEIVED] c_b), Ok ())"
    by blast
  let ?w' = "?w\<lparr>w_payload := s\<rparr>"
  have w': "w_room ?w' = room" "w_sender_public_key ?w' = id_a"
    using maybe_encrypt_room [OF enc] room(2) ids by simp_all
  have "handed_on E c_b ?w' (co_out (fst (stream_handle E now' (Ok ?w) c_b)))"
    using handed_on_unsafe [of E c_b ?w' now' 0 "[Inc MESSAGES_TOTAL_RECEIVED]"] s(2) by simp
  then have "Deliver_keygen a \<lparr>im_room = room, im_wire_message = ?w', im_message = pm\<rparr>
      \<in> set (co_out (fst (stream_handle E now' (Ok ?w) c_b)))"
    using typed [OF s(1)] b(3) w'(1) by (simp add: handed_on_def)
  with received w'(2) s show ?thesis
    by (intro exI [of _ "Ok ?w"] exI [of _ ?w']) simp
qed

theorem unicast_reaches_player_witness:
  "\<exists>received w. messenger_incoming sample key_b [Some (Sse_message wire_text)] = [received] \<and>
     Deliver_keygen 0 \<lparr>im_room = room_ab_id, im_wire_message = w,
         im_message = \<lparr>m_sender = 1, m_receiver = Some 2, m_body = ''khello''\<rparr>\<rparr>
       \<in> set (co_out (fst (stream_handle sample 0 received node_b1)))"
proof -
  let ?c_a = "(coordinator_new sample sk_a (db_ab key_a)) :: sample_coordinator"
  have ids: "key_a = identity_of (env_crypto sample) sk_a" "key_b = identity_of (env_crypto sample) sk_b"
    by (simp_all add: sample_identity)
  have known: "retrieve_group sample (co_db ?c_a) (pg_group_id (group_ab key_a)) = Ok (group_ab key_a)"
    "retrieve_group sample (co_db node_b1) (pg_group_id (group_ab key_b)) = Ok (group_ab key_b)"
    by (simp_all add: coordinator_new_def retrieve_ab)
  have sent: "handle_coordinator_message sample 0 (Outgoing msg_ab) ?c_a =
      (emit [Send_one sealed_ab] ?c_a, Ok ())"
    using seal_ab [of key_a] by (simp add: coordinator_new_def)
  have typed: "ce_msg_kg sample s = Some \<lparr>m_sender = 1, m_receiver = Some 2, m_body = ''khello''\<rparr>"
    if "de (env_gpm sample) s = Some gpm_ab" for s
    using that by (simp add: tagged_def) (simp add: gpm_ab_def)
  have parse: "de (env_gpm sample) (c_message msg_ab) = Some gpm_ab" "gpm_receiver gpm_ab = Some 2"
    using parse_ab by (simp_all add: gpm_ab_def)
  have room: "room_ab_id = make_room_id ''r'' (pg_group_id (group_ab key_a))" "c_room msg_ab = room_ab_id"
    by (simp_all add: room_ab_make msg_ab_room room_ab_id_def)
  have "get_i (group_ab key_b) = Some 2" by simp
  from unicast_reaches_player [OF sample_transport_laws sample_cipher_laws ids _ sample_ab_id sample_ab_id
      _ _ known _ _ room parse this sent messenger_ab _ _ _ typed]
  show ?thesis by (simp add: sse_delivery.simps) blast
qed

end
